(* ===== verification/Mesh_Prelude.thy ===== *)
theory Mesh_Prelude
  imports Main "HOL-Library.Word" "HOL-Library.Multiset"
begin

text \<open>
  Shared vocabulary of the development: Go's machine integers, the error values of the Go
  code (\<^verbatim>\<open>errors.go\<close> and the wrapping done by \<^verbatim>\<open>fmt.Errorf\<close> and \<^verbatim>\<open>errors.Join\<close>), the
  result type of fallible functions, and the generic lemmas on lists, results and words that
  the component theories use.
\<close>

named_theorems result_simps \<open>unfolding the sequencing of fallible steps\<close>
named_theorems heap_simps \<open>facts about allocation and dereference\<close>

section \<open>Machine integers\<close>

type_synonym uint64 = "64 word"
type_synonym int64 = "64 word"

text \<open>A counter below some bound can be incremented without wrapping.\<close>

lemma unat_plus_one:
  fixes i n :: uint64
  assumes "i < n"
  shows "unat (i + 1) = Suc (unat i)"
proof -
  have "unat n < 2 ^ LENGTH(64)" by (rule unsigned_less)
  with assms show ?thesis by (simp add: word_less_nat_alt unat_word_ariths)
qed

section \<open>Error values\<close>

text \<open>The sentinels of \<^verbatim>\<open>errors.go\<close>, in its order.\<close>

datatype sentinel =
    ErrNoReplicaSets
  | ErrEmptyReplicaSetName
  | ErrDuplicateReplicaSet
  | ErrEmptyDSN
  | ErrNoVirtualShards
  | ErrVirtualShardAlreadyMapped
  | ErrVirtualShardNotMapped
  | ErrVirtualShardOutOfRange
  | ErrNilShardHasher
  | ErrNilNodeOpener
  | ErrUnknownReplicaSet
  | ErrNilReplicaSet
  | ErrMirrorConfiguration
  | ErrCrossShardTransaction
  | ErrCopyBatchCountMismatch
  | ErrNilCopyBatchFunc

text \<open>
  An error value is a sentinel, a message made by \<^verbatim>\<open>errors.New\<close> or \<^verbatim>\<open>fmt.Errorf\<close> without
  \<^verbatim>\<open>%w\<close> (the format and its arguments), a message that wraps an error (\<^verbatim>\<open>%w\<close>), the join of
  several errors, or an error made outside the modelled code (a driver, a context, a database
  opener), known by a number only.
\<close>

datatype err_arg = ArgNat nat | ArgInt int | ArgStr string

datatype go_error =
    Sentinel sentinel
  | Errorf string "err_arg list"
  | Wrap string "err_arg list" go_error
  | Joined "go_error list"
  | Foreign nat

fun errors_is :: "go_error \<Rightarrow> go_error \<Rightarrow> bool" where
  "errors_is (Sentinel s) t = (Sentinel s = t)"
| "errors_is (Errorf f as) t = (Errorf f as = t)"
| "errors_is (Foreign n) t = (Foreign n = t)"
| "errors_is (Wrap f as e) t = (Wrap f as e = t \<or> errors_is e t)"
| "errors_is (Joined es) t = (Joined es = t \<or> list_ex (\<lambda>e. errors_is e t) es)"

text \<open>\<^verbatim>\<open>errors.Join\<close> over a list of errors that are not nil: nil exactly for the empty list.\<close>

definition errors_join :: "go_error list \<Rightarrow> go_error option" where
  "errors_join es = (if es = [] then None else Some (Joined es))"

lemma errors_join_None_iff [simp]: "errors_join es = None \<longleftrightarrow> es = []"
  by (simp add: errors_join_def)

lemma errors_join_is:
  "errors_join es = Some e \<Longrightarrow> x \<in> set es \<Longrightarrow> errors_is x t \<Longrightarrow> errors_is e t"
  by (auto simp: errors_join_def list_ex_iff split: if_splits)

section \<open>Results of fallible functions\<close>

text \<open>
  A Go function that returns \<^verbatim>\<open>(T, error)\<close> is a function into \<open>go_error + 'a\<close>, with \<open>Inl\<close>
  the error; a sequence of checks with early returns is a chain of \<open>and_then\<close>.
\<close>

type_synonym 'a result = "go_error + 'a"

definition and_then :: "'e + 'a \<Rightarrow> ('a \<Rightarrow> 'e + 'b) \<Rightarrow> 'e + 'b" where
  "and_then r f = (case r of Inl e \<Rightarrow> Inl e | Inr a \<Rightarrow> f a)"

definition check :: "bool \<Rightarrow> 'e \<Rightarrow> 'e + unit" where
  "check b e = (if b then Inl e else Inr ())"

lemma and_then_Inl [simp]: "and_then (Inl e) f = Inl e"
  by (simp add: and_then_def)

lemma and_then_Inr [simp]: "and_then (Inr a) f = f a"
  by (simp add: and_then_def)

lemma and_then_eq_Inr [result_simps]:
  "and_then r f = Inr b \<longleftrightarrow> (\<exists>a. r = Inr a \<and> f a = Inr b)"
  by (cases r) auto

lemma and_then_eq_Inl [result_simps]:
  "and_then r f = Inl e \<longleftrightarrow> r = Inl e \<or> (\<exists>a. r = Inr a \<and> f a = Inl e)"
  by (cases r) auto

lemma and_then_assoc: "and_then (and_then r f) g = and_then r (\<lambda>a. and_then (f a) g)"
  by (cases r) auto

lemma check_eq_Inr [result_simps]: "check b e = Inr u \<longleftrightarrow> \<not> b"
  by (simp add: check_def)

lemma check_eq_Inl [result_simps]: "check b e = Inl e' \<longleftrightarrow> b \<and> e' = e"
  by (auto simp: check_def)

lemma check_True [simp]: "check True e = Inl e"
  and check_False [simp]: "check False e = Inr ()"
  by (simp_all add: check_def)

text \<open>A loop over a slice whose body may return early with an error, threading a state.\<close>

fun foldM :: "('s \<Rightarrow> 'a \<Rightarrow> 'e + 's) \<Rightarrow> 's \<Rightarrow> 'a list \<Rightarrow> 'e + 's" where
  "foldM f s [] = Inr s"
| "foldM f s (x # xs) = and_then (f s x) (\<lambda>s'. foldM f s' xs)"

lemma foldM_append: "foldM f s (xs @ ys) = and_then (foldM f s xs) (\<lambda>s'. foldM f s' ys)"
  by (induction xs arbitrary: s) (auto simp: and_then_assoc)

lemma foldM_cong [fundef_cong]:
  "s = t \<Longrightarrow> xs = ys \<Longrightarrow> (\<And>u x. x \<in> set ys \<Longrightarrow> f u x = g u x) \<Longrightarrow> foldM f s xs = foldM g t ys"
proof (induction ys arbitrary: s t xs)
  case Nil
  then show ?case by simp
next
  case (Cons y ys)
  have "foldM f u ys = foldM g u ys" for u
    using Cons.IH [of u u ys] Cons.prems(3) by simp
  with Cons.prems show ?case by (simp add: and_then_def split: sum.split)
qed

text \<open>An invariant of the loop state that the body keeps, and that each successful step starts from.\<close>

lemma foldM_invariant:
  assumes "foldM f s xs = Inr t" and "I s"
    and "\<And>u x v. x \<in> set xs \<Longrightarrow> I u \<Longrightarrow> f u x = Inr v \<Longrightarrow> I v"
  shows "I t"
  using assms
proof (induction xs arbitrary: s)
  case Nil
  then show ?case by simp
next
  case (Cons x xs)
  from Cons.prems(1) obtain s' where s': "f s x = Inr s'" "foldM f s' xs = Inr t"
    by (auto simp: result_simps)
  have "I s'" using Cons.prems(2,3) s'(1) by (meson list.set_intros(1))
  with s'(2) Cons.prems(3) show ?case by (intro Cons.IH) auto
qed

text \<open>The loop returns without error when no step can fail from a state of the invariant.\<close>

lemma foldM_total:
  assumes "I s" and "\<And>u x. x \<in> set xs \<Longrightarrow> I u \<Longrightarrow> \<exists>v. f u x = Inr v \<and> I v"
  shows "\<exists>t. foldM f s xs = Inr t \<and> I t"
  using assms
proof (induction xs arbitrary: s)
  case Nil
  then show ?case by simp
next
  case (Cons x xs)
  then obtain s' where "f s x = Inr s'" "I s'" by (meson list.set_intros(1))
  moreover from this Cons obtain t where "foldM f s' xs = Inr t" "I t"
    by (metis list.set_intros(2))
  ultimately show ?case by auto
qed

text \<open>A loop that only checks each element.\<close>

lemma foldM_check:
  "foldM (\<lambda>_ x. check (P x) (e x)) u xs = Inr v \<longleftrightarrow> (\<forall>x \<in> set xs. \<not> P x)"
  by (induction xs arbitrary: u) (auto simp: result_simps)

lemma foldM_check_enumerate:
  "foldM (\<lambda>_ (i, x). check (P i x) (e i x)) u (enumerate k xs) = Inr v \<longleftrightarrow>
     (\<forall>j < length xs. \<not> P (k + j) (xs ! j))"
proof (induction xs arbitrary: u k)
  case Nil
  then show ?case by simp
next
  case (Cons x xs)
  then show ?case by (auto simp: result_simps All_less_Suc2)
qed

section \<open>Lists\<close>

lemma distinct_snoc_iff: "distinct (xs @ [x]) \<longleftrightarrow> distinct xs \<and> x \<notin> set xs"
  by auto

lemma concat_map_Nil [simp]: "concat (map (\<lambda>_. []) xs) = []"
  by (induction xs) simp_all

lemma nth_append_fresh [heap_simps]: "(xs @ [x]) ! length xs = x"
  by simp

lemma nth_append_old [heap_simps]: "i < length xs \<Longrightarrow> (xs @ ys) ! i = xs ! i"
  by (simp add: nth_append)

lemma image_mset_repeat: "image_mset f (repeat_mset m A) = repeat_mset m (image_mset f A)"
  by (induction m) simp_all

lemma replicate_mset_sum: "replicate_mset (m + n) x = replicate_mset m x + replicate_mset n x"
  by (induction m) simp_all

lemma filter_mset_none: "(\<And>x. x \<in># M \<Longrightarrow> \<not> P x) \<Longrightarrow> filter_mset P M = {#}"
  by (induction M) auto

lemma filter_mset_all: "(\<And>x. x \<in># M \<Longrightarrow> P x) \<Longrightarrow> filter_mset P M = M"
  by (induction M) auto

lemma count_list_sum_mset: "count_list xs x = count (mset xs) x"
  by (rule count_mset [symmetric])

end
