(* ===== verification/Go_Text.thy ===== *)
theory Go_Text
  imports Mesh_Prelude "HOL-Library.Char_ord" "HOL-Library.List_Lexorder" "HOL-Library.Sublist"
begin

text \<open>
  The functions of Go's \<^verbatim>\<open>strings\<close>, \<^verbatim>\<open>strconv\<close> and \<^verbatim>\<open>unicode\<close> packages that the program calls.
  A Go string is a list of \<^typ>\<open>char\<close>. The model is exact on ASCII text; a character above
  127 (part of a multi-byte rune in Go) counts as no letter, digit or space and is left alone by
  the case conversions. \<^verbatim>\<open>sort.Slice\<close> on strings uses the byte order, which is the
  lexicographic order of \<open>List_Lexorder\<close> over \<open>Char_ord\<close>.
\<close>

section \<open>Character classes\<close>

definition is_space :: "char \<Rightarrow> bool" where
  "is_space c \<longleftrightarrow> (let n = (of_char c :: nat) in (9 \<le> n \<and> n \<le> 13) \<or> n = 32)"

definition is_upper :: "char \<Rightarrow> bool" where
  "is_upper c \<longleftrightarrow> (let n = (of_char c :: nat) in 65 \<le> n \<and> n \<le> 90)"

definition is_lower :: "char \<Rightarrow> bool" where
  "is_lower c \<longleftrightarrow> (let n = (of_char c :: nat) in 97 \<le> n \<and> n \<le> 122)"

definition is_digit :: "char \<Rightarrow> bool" where
  "is_digit c \<longleftrightarrow> (let n = (of_char c :: nat) in 48 \<le> n \<and> n \<le> 57)"

definition is_letter :: "char \<Rightarrow> bool" where
  "is_letter c \<longleftrightarrow> is_upper c \<or> is_lower c"

definition is_control :: "char \<Rightarrow> bool" where
  "is_control c \<longleftrightarrow> (let n = (of_char c :: nat) in n < 32 \<or> n = 127)"

definition to_lower_char :: "char \<Rightarrow> char" where
  "to_lower_char c = (if is_upper c then char_of (of_char c + 32 :: nat) else c)"

definition to_upper_char :: "char \<Rightarrow> char" where
  "to_upper_char c = (if is_lower c then char_of (of_char c - 32 :: nat) else c)"

lemmas char_class_defs = is_space_def is_upper_def is_lower_def is_digit_def is_letter_def
  is_control_def Let_def

lemma of_char_lower:
  "of_char (to_lower_char c) = (if is_upper c then of_char c + 32 else (of_char c :: nat))"
  by (simp add: to_lower_char_def char_class_defs)

lemma of_char_upper:
  "of_char (to_upper_char c) = (if is_lower c then of_char c - 32 else (of_char c :: nat))"
proof -
  have "(of_char c :: nat) < 256" by simp
  then have "(of_char c :: nat) - 32 < 256" by (rule le_less_trans [rotated]) simp
  then show ?thesis by (simp add: to_upper_char_def)
qed

lemma to_lower_char_idem [simp]: "to_lower_char (to_lower_char c) = to_lower_char c"
proof -
  have "\<not> is_upper (to_lower_char c)"
    by (simp add: is_upper_def of_char_lower Let_def)
  then show ?thesis by (simp add: to_lower_char_def)
qed

lemma not_upper_lower [simp]: "\<not> is_upper (to_lower_char c)"
  by (simp add: is_upper_def of_char_lower Let_def)

lemma is_digit_lower [simp]: "is_digit (to_lower_char c) = is_digit c"
  by (auto simp: is_digit_def is_upper_def of_char_lower Let_def)

lemma is_letter_lower [simp]: "is_letter (to_lower_char c) = is_letter c"
  by (auto simp: char_class_defs of_char_lower)

lemma is_digit_upper [simp]: "is_digit (to_upper_char c) = is_digit c"
  by (auto simp: is_digit_def is_lower_def of_char_upper Let_def)

lemma is_letter_upper [simp]: "is_letter (to_upper_char c) = is_letter c"
  by (auto simp: char_class_defs of_char_upper)

lemma is_upper_upper: "is_upper (to_upper_char c) = is_letter c"
  by (auto simp: char_class_defs of_char_upper)

lemma to_lower_upper_char: "is_lower c \<Longrightarrow> to_lower_char (to_upper_char c) = c"
proof -
  assume "is_lower c"
  then have "(of_char (to_lower_char (to_upper_char c)) :: nat) = of_char c"
    by (auto simp: of_char_lower of_char_upper is_upper_def is_lower_def Let_def)
  then show ?thesis by simp
qed

section \<open>Trimming, prefixes and suffixes\<close>

definition TrimSpace :: "string \<Rightarrow> string" where
  "TrimSpace s = rev (dropWhile is_space (rev (dropWhile is_space s)))"

definition HasPrefix :: "string \<Rightarrow> string \<Rightarrow> bool" where
  "HasPrefix s p \<longleftrightarrow> take (length p) s = p"

definition HasSuffix :: "string \<Rightarrow> string \<Rightarrow> bool" where
  "HasSuffix s p \<longleftrightarrow> length p \<le> length s \<and> drop (length s - length p) s = p"

definition TrimPrefix :: "string \<Rightarrow> string \<Rightarrow> string" where
  "TrimPrefix s p = (if HasPrefix s p then drop (length p) s else s)"

definition TrimSuffix :: "string \<Rightarrow> string \<Rightarrow> string" where
  "TrimSuffix s p = (if HasSuffix s p then take (length s - length p) s else s)"

definition CutPrefix :: "string \<Rightarrow> string \<Rightarrow> string \<times> bool" where
  "CutPrefix s p = (if HasPrefix s p then (drop (length p) s, True) else (s, False))"

lemma HasPrefix_iff_prefix: "HasPrefix s p \<longleftrightarrow> prefix p s"
  by (metis HasPrefix_def append_eq_conv_conj append_take_drop_id prefixE prefixI)

lemma HasPrefix_append [simp]: "HasPrefix (p @ s) p"
  by (simp add: HasPrefix_def)

lemma HasSuffix_append [simp]: "HasSuffix (s @ p) p"
  by (simp add: HasSuffix_def)

lemma HasSuffix_iff: "HasSuffix s p \<longleftrightarrow> (\<exists>t. s = t @ p)"
proof
  assume "HasSuffix s p"
  then have "s = take (length s - length p) s @ p"
    unfolding HasSuffix_def by (metis append_take_drop_id)
  then show "\<exists>t. s = t @ p" by blast
qed auto

lemma TrimPrefix_append [simp]: "TrimPrefix (p @ s) p = s"
  by (simp add: TrimPrefix_def)

lemma TrimSuffix_append [simp]: "TrimSuffix (s @ p) p = s"
  by (simp add: TrimSuffix_def)

text \<open>Text whose ends are no spaces is its own trimming; trimming gives such text.\<close>

definition trimmed :: "string \<Rightarrow> bool" where
  "trimmed s \<longleftrightarrow> s = [] \<or> (\<not> is_space (hd s) \<and> \<not> is_space (last s))"

lemma dropWhile_id: "xs = [] \<or> \<not> P (hd xs) \<Longrightarrow> dropWhile P xs = xs"
  by (cases xs) auto

lemma TrimSpace_id: "trimmed s \<Longrightarrow> TrimSpace s = s"
  unfolding trimmed_def TrimSpace_def
  by (auto simp: dropWhile_id hd_rev)

lemma hd_dropWhile_no: "dropWhile P xs \<noteq> [] \<Longrightarrow> \<not> P (hd (dropWhile P xs))"
  by (rule hd_dropWhile)

lemma last_dropWhile: "dropWhile P xs \<noteq> [] \<Longrightarrow> last (dropWhile P xs) = last xs"
  by (metis dropWhile_eq_drop last_drop linorder_not_less drop_all)

lemma trimmed_TrimSpace: "trimmed (TrimSpace s)"
proof (cases "TrimSpace s = []")
  case True
  then show ?thesis by (simp add: trimmed_def)
next
  case False
  let ?l = "dropWhile is_space s"
  let ?r = "dropWhile is_space (rev ?l)"
  from False have r: "?r \<noteq> []" by (simp add: TrimSpace_def)
  then have l: "?l \<noteq> []" by (metis dropWhile.simps(1) rev.simps(1))
  have "last (TrimSpace s) = hd ?r" using r by (simp add: TrimSpace_def last_rev)
  moreover have "\<not> is_space (hd ?r)" using r by (rule hd_dropWhile_no)
  moreover have "hd (TrimSpace s) = last ?r" using r by (simp add: TrimSpace_def hd_rev)
  moreover have "last ?r = hd ?l" using r l by (simp add: last_dropWhile last_rev)
  moreover have "\<not> is_space (hd ?l)" using l by (rule hd_dropWhile_no)
  ultimately show ?thesis by (simp add: trimmed_def)
qed

lemma TrimSpace_idem [simp]: "TrimSpace (TrimSpace s) = TrimSpace s"
  by (rule TrimSpace_id [OF trimmed_TrimSpace])

lemma TrimSpace_empty_iff: "TrimSpace s = [] \<longleftrightarrow> (\<forall>c \<in> set s. is_space c)"
proof -
  have "TrimSpace s = [] \<longleftrightarrow> (\<forall>c \<in> set (dropWhile is_space s). is_space c)"
    by (simp add: TrimSpace_def dropWhile_eq_Nil_conv)
  also have "\<dots> \<longleftrightarrow> dropWhile is_space s = []"
    by (metis dropWhile_eq_Nil_conv dropWhile_idem)
  finally show ?thesis by (simp add: dropWhile_eq_Nil_conv)
qed

section \<open>Splitting, joining, searching\<close>

text \<open>\<^verbatim>\<open>strings.Split\<close> at a one-character separator: never the empty list.\<close>

fun split_on :: "char \<Rightarrow> string \<Rightarrow> string list" where
  "split_on d [] = [[]]"
| "split_on d (c # cs) =
     (if c = d then [] # split_on d cs
      else (case split_on d cs of [] \<Rightarrow> [[c]] | w # ws \<Rightarrow> (c # w) # ws))"

fun join_with :: "string \<Rightarrow> string list \<Rightarrow> string" where
  "join_with sep [] = []"
| "join_with sep [w] = w"
| "join_with sep (w # v # ws) = w @ sep @ join_with sep (v # ws)"

lemma split_on_nonempty [simp]: "split_on d s \<noteq> []"
  by (induction d s rule: split_on.induct) (auto split: list.splits)

lemma join_with_Cons: "ws \<noteq> [] \<Longrightarrow> join_with sep (w # ws) = w @ sep @ join_with sep ws"
  by (cases ws) auto

lemma split_on_word: "d \<notin> set w \<Longrightarrow> split_on d w = [w]"
  by (induction w) auto

lemma split_on_append:
  "d \<notin> set w \<Longrightarrow> split_on d (w @ d # s) = w # split_on d s"
  by (induction w) auto

text \<open>Splitting at a separator that no part contains undoes joining with it.\<close>

lemma split_join:
  "ws \<noteq> [] \<Longrightarrow> \<forall>w \<in> set ws. d \<notin> set w \<Longrightarrow> split_on d (join_with [d] ws) = ws"
proof (induction ws)
  case Nil
  then show ?case by simp
next
  case (Cons w ws)
  then show ?case
    by (cases "ws = []") (auto simp: split_on_word join_with_Cons split_on_append)
qed

lemma join_split: "join_with [d] (split_on d s) = s"
proof (induction d s rule: split_on.induct)
  case (1 d)
  then show ?case by simp
next
  case (2 d c cs)
  show ?case
  proof (cases "c = d")
    case True
    with 2 show ?thesis by (simp add: join_with_Cons)
  next
    case False
    obtain w ws where ws: "split_on d cs = w # ws"
      by (meson list.exhaust split_on_nonempty)
    with 2 False have "join_with [d] (w # ws) = cs" by simp
    then have "join_with [d] ((c # w) # ws) = c # cs" by (cases ws) auto
    with ws False show ?thesis by simp
  qed
qed

lemma split_on_no_sep: "w \<in> set (split_on d s) \<Longrightarrow> d \<notin> set w"
  by (induction d s arbitrary: w rule: split_on.induct)
    (auto split: list.splits if_splits)

text \<open>\<^verbatim>\<open>strings.Cut\<close>: the text before and after the first occurrence of the separator.\<close>

fun Cut :: "string \<Rightarrow> string \<Rightarrow> (string \<times> string) option" where
  "Cut [] sep = (if sep = [] then Some ([], []) else None)"
| "Cut (c # cs) sep =
     (if HasPrefix (c # cs) sep then Some ([], drop (length sep) (c # cs))
      else map_option (\<lambda>(b, a). (c # b, a)) (Cut cs sep))"

definition Contains :: "string \<Rightarrow> string \<Rightarrow> bool" where
  "Contains s sub \<longleftrightarrow> Cut s sub \<noteq> None"

definition ContainsAny :: "string \<Rightarrow> char list \<Rightarrow> bool" where
  "ContainsAny s cs \<longleftrightarrow> list_ex (\<lambda>c. c \<in> set cs) s"

lemma Cut_Some: "Cut s sep = Some (b, a) \<Longrightarrow> s = b @ sep @ a"
proof (induction s sep arbitrary: b rule: Cut.induct)
  case (1 sep)
  then show ?case by (simp split: if_splits)
next
  case (2 c cs sep)
  then show ?case
    by (auto split: if_splits simp: HasPrefix_def)
      (metis append_take_drop_id)
qed

lemma Cut_None_char: "Cut s [d] = None \<longleftrightarrow> d \<notin> set s"
  by (induction s "[d]" rule: Cut.induct) (auto simp: HasPrefix_def)

lemma Cut_char: "d \<notin> set b \<Longrightarrow> Cut (b @ d # a) [d] = Some (b, a)"
  by (induction b) (auto simp: HasPrefix_def)

fun ReplaceAll :: "string \<Rightarrow> string \<Rightarrow> string \<Rightarrow> string" where
  "ReplaceAll [] old new = []"
| "ReplaceAll (c # cs) old new =
     (if old \<noteq> [] \<and> HasPrefix (c # cs) old then new @ ReplaceAll (drop (length old - 1) cs) old new
      else c # ReplaceAll cs old new)"

definition ReplaceFirst :: "string \<Rightarrow> string \<Rightarrow> string \<Rightarrow> string" where
  "ReplaceFirst s old new = (case Cut s old of None \<Rightarrow> s | Some (b, a) \<Rightarrow> b @ new @ a)"

fun LastIndex :: "string \<Rightarrow> char \<Rightarrow> nat option" where
  "LastIndex [] d = None"
| "LastIndex (c # cs) d =
     (case LastIndex cs d of Some i \<Rightarrow> Some (Suc i) | None \<Rightarrow> (if c = d then Some 0 else None))"

fun IndexByte :: "string \<Rightarrow> char \<Rightarrow> nat option" where
  "IndexByte [] d = None"
| "IndexByte (c # cs) d = (if c = d then Some 0 else map_option Suc (IndexByte cs d))"

lemma IndexByte_Some: "IndexByte s d = Some i \<Longrightarrow> i < length s \<and> s ! i = d \<and> d \<notin> set (take i s)"
  by (induction s d arbitrary: i rule: IndexByte.induct) (auto split: if_splits)

lemma IndexByte_append: "d \<notin> set b \<Longrightarrow> IndexByte (b @ d # a) d = Some (length b)"
  by (induction b) auto

definition ToLower :: "string \<Rightarrow> string" where
  "ToLower s = map to_lower_char s"

definition EqualFold :: "string \<Rightarrow> string \<Rightarrow> bool" where
  "EqualFold s t \<longleftrightarrow> ToLower s = ToLower t"

lemma ToLower_idem [simp]: "ToLower (ToLower s) = ToLower s"
  by (simp add: ToLower_def)

lemma length_ToLower [simp]: "length (ToLower s) = length s"
  by (simp add: ToLower_def)

lemma ToLower_append [simp]: "ToLower (s @ t) = ToLower s @ ToLower t"
  by (simp add: ToLower_def)

section \<open>Decimal numerals\<close>

text \<open>\<^verbatim>\<open>strconv.Itoa\<close>, \<^verbatim>\<open>strconv.FormatUint\<close> and the \<^verbatim>\<open>%d\<close> verb on a number that is not negative.\<close>

fun Itoa :: "nat \<Rightarrow> string" where
  "Itoa n = (if n < 10 then [char_of (48 + n)] else Itoa (n div 10) @ [char_of (48 + n mod 10)])"

declare Itoa.simps [simp del]

fun parse_dec :: "string \<Rightarrow> nat" where
  "parse_dec s = foldl (\<lambda>n c. 10 * n + (of_char c - 48)) 0 s"

lemma parse_dec_snoc: "parse_dec (s @ [c]) = 10 * parse_dec s + (of_char c - 48)"
  by simp

lemma Itoa_parse: "parse_dec (Itoa n) = n"
proof (induction n rule: Itoa.induct)
  case (1 n)
  show ?case
  proof (cases "n < 10")
    case True
    then show ?thesis by (simp add: Itoa.simps [of n])
  next
    case False
    with 1 have "parse_dec (Itoa (n div 10)) = n div 10" by simp
    then show ?thesis
      using False by (simp add: Itoa.simps [of n] del: parse_dec.simps) (simp add: parse_dec_snoc del: parse_dec.simps)
  qed
qed

lemma Itoa_inj [simp]: "Itoa m = Itoa n \<longleftrightarrow> m = n"
  by (metis Itoa_parse)

lemma Itoa_digits: "c \<in> set (Itoa n) \<Longrightarrow> is_digit c"
proof (induction n rule: Itoa.induct)
  case (1 n)
  then show ?case
    by (cases "n < 10") (auto simp: Itoa.simps [of n] is_digit_def)
qed

lemma Itoa_nonempty [simp]: "Itoa n \<noteq> []"
  by (simp add: Itoa.simps [of n])

text \<open>The verb \<^verbatim>\<open>%q\<close>: a text in double quotes with the escapes of \<^verbatim>\<open>strconv.Quote\<close>.\<close>

definition hex_digit :: "nat \<Rightarrow> char" where
  "hex_digit n = (if n < 10 then char_of (48 + n) else char_of (87 + n))"

definition quote_char :: "char \<Rightarrow> string" where
  "quote_char c =
     (let n = (of_char c :: nat)
      in if c = CHR 0x22 \<or> c = CHR 0x5C then [CHR 0x5C, c]
         else if n = 7 then [CHR 0x5C, CHR ''a''] else if n = 8 then [CHR 0x5C, CHR ''b'']
         else if n = 12 then [CHR 0x5C, CHR ''f''] else if n = 10 then [CHR 0x5C, CHR ''n'']
         else if n = 13 then [CHR 0x5C, CHR ''r''] else if n = 9 then [CHR 0x5C, CHR ''t'']
         else if n = 11 then [CHR 0x5C, CHR ''v'']
         else if is_control c then [CHR 0x5C, CHR ''x'', hex_digit (n div 16), hex_digit (n mod 16)]
         else [c])"

definition quote :: "string \<Rightarrow> string" where
  "quote s = CHR 0x22 # concat (map quote_char s) @ [CHR 0x22]"

end
