(* ===== verification/Mesh_Telemetry.thy ===== *)
theory Mesh_Telemetry
  imports Go_Text
begin

text \<open>
  The instruments of a mesh (\<^verbatim>\<open>telemetry.go\<close>, lines 18--142 and 197--330). OpenTelemetry is a
  third-party SDK: a tracer or meter provider is an opaque value, a provider left nil is the
  process-wide one, and whether a provider can create an instrument of a given name is the
  parameter \<open>E\<close>, which returns the error of the attempt. Descriptions, units and bucket
  boundaries go to the SDK unread and are left out.
\<close>

section \<open>Instruments\<close>

definition MetricStoreQueryDuration :: string where
  "MetricStoreQueryDuration = ''pgmesh.query.store.duration''"

definition MetricLogicalQueryDuration :: string where
  "MetricLogicalQueryDuration = ''pgmesh.query.logical.duration''"

definition MetricPhysicalQueryDuration :: string where
  "MetricPhysicalQueryDuration = ''pgmesh.query.physical.duration''"

definition MetricPhysicalQueryInFlight :: string where
  "MetricPhysicalQueryInFlight = ''pgmesh.query.physical.inflight''"

definition MetricCopyBatchRows :: string where
  "MetricCopyBatchRows = ''pgmesh.copy.batch.rows''"

definition MetricCopyBatchSubmissions :: string where
  "MetricCopyBatchSubmissions = ''pgmesh.copy.batch.submissions''"

definition MetricCopyBatchFlushes :: string where
  "MetricCopyBatchFlushes = ''pgmesh.copy.batch.flushes''"

definition MetricCopyBatchDuration :: string where
  "MetricCopyBatchDuration = ''pgmesh.copy.batch.duration''"

definition MetricCopyBatchQueueDuration :: string where
  "MetricCopyBatchQueueDuration = ''pgmesh.copy.batch.queue.duration''"

lemmas metric_name_defs = MetricStoreQueryDuration_def MetricLogicalQueryDuration_def
  MetricPhysicalQueryDuration_def MetricPhysicalQueryInFlight_def MetricCopyBatchRows_def
  MetricCopyBatchSubmissions_def MetricCopyBatchFlushes_def MetricCopyBatchDuration_def
  MetricCopyBatchQueueDuration_def

datatype 'p providerRef = GlobalProvider | Configured 'p

type_synonym 'mp instrument = "'mp providerRef \<times> string"

text \<open>The fields of \<^verbatim>\<open>meshTelemetry\<close>; \<open>None\<close> is a field still nil.\<close>

record ('tp, 'mp, 'lg) meshTelemetry =
  tracer :: "'tp providerRef option"
  storeDuration :: "'mp instrument option"
  logicalDuration :: "'mp instrument option"
  physicalDuration :: "'mp instrument option"
  physicalInFlight :: "'mp instrument option"
  copyBatchRows :: "'mp instrument option"
  copyBatchSubmissions :: "'mp instrument option"
  copyBatchFlushes :: "'mp instrument option"
  copyBatchDuration :: "'mp instrument option"
  copyBatchQueueDuration :: "'mp instrument option"
  logger :: "'lg option"

definition zeroTelemetry :: "('tp, 'mp, 'lg) meshTelemetry" where
  "zeroTelemetry = \<lparr>tracer = None, storeDuration = None, logicalDuration = None,
     physicalDuration = None, physicalInFlight = None, copyBatchRows = None,
     copyBatchSubmissions = None, copyBatchFlushes = None, copyBatchDuration = None,
     copyBatchQueueDuration = None, logger = None\<rparr>"

definition provider_or_global :: "'p option \<Rightarrow> 'p providerRef" where
  "provider_or_global p = (case p of None \<Rightarrow> GlobalProvider | Some q \<Rightarrow> Configured q)"

definition setTracerProvider ::
  "'tp option \<Rightarrow> ('tp, 'mp, 'lg) meshTelemetry \<Rightarrow> ('tp, 'mp, 'lg) meshTelemetry" where
  "setTracerProvider provider t = t\<lparr>tracer := Some (provider_or_global provider)\<rparr>"

text \<open>
  The instruments in the order \<^verbatim>\<open>setMeterProvider\<close> creates them, each with the assignment of its
  field. The first failure returns its error and leaves the fields assigned so far.
\<close>

definition instrument_steps ::
  "(string \<times> ('mp instrument \<Rightarrow> ('tp, 'mp, 'lg) meshTelemetry \<Rightarrow> ('tp, 'mp, 'lg) meshTelemetry)) list"
  where
  "instrument_steps =
     [(MetricLogicalQueryDuration, \<lambda>i t. t\<lparr>logicalDuration := Some i\<rparr>),
      (MetricPhysicalQueryDuration, \<lambda>i t. t\<lparr>physicalDuration := Some i\<rparr>),
      (MetricPhysicalQueryInFlight, \<lambda>i t. t\<lparr>physicalInFlight := Some i\<rparr>),
      (MetricStoreQueryDuration, \<lambda>i t. t\<lparr>storeDuration := Some i\<rparr>),
      (MetricCopyBatchRows, \<lambda>i t. t\<lparr>copyBatchRows := Some i\<rparr>),
      (MetricCopyBatchSubmissions, \<lambda>i t. t\<lparr>copyBatchSubmissions := Some i\<rparr>),
      (MetricCopyBatchFlushes, \<lambda>i t. t\<lparr>copyBatchFlushes := Some i\<rparr>),
      (MetricCopyBatchDuration, \<lambda>i t. t\<lparr>copyBatchDuration := Some i\<rparr>),
      (MetricCopyBatchQueueDuration, \<lambda>i t. t\<lparr>copyBatchQueueDuration := Some i\<rparr>)]"

fun install ::
  "('mp providerRef \<Rightarrow> string \<Rightarrow> go_error option) \<Rightarrow> 'mp providerRef \<Rightarrow>
   (string \<times> ('mp instrument \<Rightarrow> 't \<Rightarrow> 't)) list \<Rightarrow> 't \<Rightarrow> go_error option \<times> 't" where
  "install E p [] t = (None, t)"
| "install E p ((name, assign) # rest) t =
     (case E p name of Some e \<Rightarrow> (Some e, t) | None \<Rightarrow> install E p rest (assign (p, name) t))"

definition setMeterProvider ::
  "('mp providerRef \<Rightarrow> string \<Rightarrow> go_error option) \<Rightarrow> 'mp option \<Rightarrow>
   ('tp, 'mp, 'lg) meshTelemetry \<Rightarrow> go_error option \<times> ('tp, 'mp, 'lg) meshTelemetry" where
  "setMeterProvider E provider t = install E (provider_or_global provider) instrument_steps t"

definition newMeshTelemetry ::
  "('mp providerRef \<Rightarrow> string \<Rightarrow> go_error option) \<Rightarrow> 'tp option \<Rightarrow> 'mp option \<Rightarrow>
   ('tp, 'mp, 'lg) meshTelemetry \<times> go_error option" where
  "newMeshTelemetry E tracerProvider meterProvider =
     (case setMeterProvider E meterProvider (setTracerProvider tracerProvider zeroTelemetry) of
        (Some e, _) \<Rightarrow> (zeroTelemetry, Some e)
      | (None, t) \<Rightarrow> (t, None))"

section \<open>A successful set-up leaves no instrument nil\<close>

text \<open>All nine instruments come from provider \<open>p\<close>, each under its own name.\<close>

definition instruments_from :: "'mp providerRef \<Rightarrow> ('tp, 'mp, 'lg) meshTelemetry \<Rightarrow> bool" where
  "instruments_from p t \<longleftrightarrow>
     storeDuration t = Some (p, MetricStoreQueryDuration) \<and>
     logicalDuration t = Some (p, MetricLogicalQueryDuration) \<and>
     physicalDuration t = Some (p, MetricPhysicalQueryDuration) \<and>
     physicalInFlight t = Some (p, MetricPhysicalQueryInFlight) \<and>
     copyBatchRows t = Some (p, MetricCopyBatchRows) \<and>
     copyBatchSubmissions t = Some (p, MetricCopyBatchSubmissions) \<and>
     copyBatchFlushes t = Some (p, MetricCopyBatchFlushes) \<and>
     copyBatchDuration t = Some (p, MetricCopyBatchDuration) \<and>
     copyBatchQueueDuration t = Some (p, MetricCopyBatchQueueDuration)"

lemma setMeterProvider_success:
  assumes "setMeterProvider E provider t = (None, t')"
  shows "instruments_from (provider_or_global provider) t' \<and> tracer t' = tracer t \<and> logger t' = logger t"
  using assms
  by (auto simp: setMeterProvider_def instrument_steps_def instruments_from_def split: option.splits)

lemma install_keeps:
  assumes "install E p steps t = (r, t')" and "\<And>n f i u. (n, f) \<in> set steps \<Longrightarrow> g (f i u) = g u"
  shows "g t' = g t"
  using assms
proof (induction E p steps t rule: install.induct)
  case (1 E p t)
  then show ?case by simp
next
  case (2 E p name assign rest t)
  have "g (assign (p, name) t) = g t" using "2.prems"(2) by (meson list.set_intros(1))
  moreover have "\<And>n f i u. (n, f) \<in> set rest \<Longrightarrow> g (f i u) = g u"
    using "2.prems"(2) by (meson list.set_intros(2))
  ultimately show ?case using 2 by (force split: option.splits)
qed

lemma setMeterProvider_keeps:
  assumes "setMeterProvider E provider t = (r, t')"
  shows "tracer t' = tracer t \<and> logger t' = logger t"
proof
  have i: "install E (provider_or_global provider) instrument_steps t = (r, t')"
    using assms by (simp add: setMeterProvider_def)
  show "tracer t' = tracer t"
    by (rule install_keeps [OF i]) (auto simp: instrument_steps_def)
  show "logger t' = logger t"
    by (rule install_keeps [OF i]) (auto simp: instrument_steps_def)
qed

lemma newMeshTelemetry_success:
  assumes "newMeshTelemetry E tp mp = (t, None)"
  shows "instruments_from (provider_or_global mp) t \<and> tracer t = Some (provider_or_global tp)"
proof -
  from assms have "setMeterProvider E mp (setTracerProvider tp zeroTelemetry) = (None, t)"
    by (auto simp: newMeshTelemetry_def split: prod.splits option.splits)
  from setMeterProvider_success [OF this] show ?thesis by (simp add: setTracerProvider_def)
qed

lemma setMeterProvider_total:
  assumes "\<And>name. E (provider_or_global provider) name = None"
  shows "\<exists>t'. setMeterProvider E provider t = (None, t')"
  using assms by (simp add: setMeterProvider_def instrument_steps_def)

end
