(* ===== verification/Load_Balancer.thy ===== *)
theory Load_Balancer
  imports Mesh_Prelude
begin

text \<open>
  \<^verbatim>\<open>load_balancer.go\<close>: the round-robin selector. The counter is an atomic \<^verbatim>\<open>uint64\<close>; each
  call of \<^verbatim>\<open>nextItem\<close> is one atomic increment followed by a read of a slice that never
  changes, so concurrent calls are ordered by their increments and a sequence of calls models
  every interleaving.
\<close>

section \<open>The selector\<close>

record 'a roundRobin =
  rr_items :: "'a list"
  rr_next :: uint64

definition newRoundRobin :: "'a list \<Rightarrow> 'a roundRobin" where
  "newRoundRobin xs = \<lparr>rr_items = xs, rr_next = 0\<rparr>"

text \<open>\<open>None\<close> is the division-by-zero panic on a selector with no items.\<close>

definition nextItem :: "'a roundRobin \<Rightarrow> ('a \<times> 'a roundRobin) option" where
  "nextItem r =
     (let added = rr_next r + 1; index = added - 1
      in if rr_items r = [] then None
         else Some (rr_items r ! unat (index mod of_nat (length (rr_items r))),
                    r\<lparr>rr_next := added\<rparr>))"

text \<open>A run of \<open>k\<close> calls, in the order of their increments.\<close>

fun nextItems :: "nat \<Rightarrow> 'a roundRobin \<Rightarrow> ('a list \<times> 'a roundRobin) option" where
  "nextItems 0 r = Some ([], r)"
| "nextItems (Suc k) r =
     (case nextItem r of None \<Rightarrow> None
      | Some (x, r') \<Rightarrow>
          (case nextItems k r' of None \<Rightarrow> None | Some (xs, r'') \<Rightarrow> Some (x # xs, r'')))"

section \<open>Selection\<close>

text \<open>A Go slice is shorter than \<open>2 ^ 63\<close>.\<close>

definition rr_ok :: "'a roundRobin \<Rightarrow> bool" where
  "rr_ok r \<longleftrightarrow> rr_items r \<noteq> [] \<and> length (rr_items r) < 2 ^ 63"

lemma nextItem_total: "rr_items r \<noteq> [] \<Longrightarrow> \<exists>x r'. nextItem r = Some (x, r')"
  by (simp add: nextItem_def Let_def)

lemma nextItem_Some:
  assumes "rr_ok r"
  shows "nextItem r =
    Some (rr_items r ! (unat (rr_next r) mod length (rr_items r)), r\<lparr>rr_next := rr_next r + 1\<rparr>)"
proof -
  have "length (rr_items r) < 2 ^ LENGTH(64)" using assms by (simp add: rr_ok_def)
  then have "unat (of_nat (length (rr_items r)) :: uint64) = length (rr_items r)"
    by (simp add: unat_of_nat)
  then show ?thesis
    using assms by (simp add: nextItem_def Let_def unat_mod rr_ok_def)
qed

lemma nextItem_in_items: "rr_ok r \<Longrightarrow> nextItem r = Some (x, r') \<Longrightarrow> x \<in> set (rr_items r)"
  by (auto simp: nextItem_Some rr_ok_def)

lemma nextItem_keeps: "nextItem r = Some (x, r') \<Longrightarrow> rr_items r' = rr_items r"
  by (auto simp: nextItem_def Let_def split: if_splits)

lemma nextItem_rr_ok: "rr_ok r \<Longrightarrow> nextItem r = Some (x, r') \<Longrightarrow> rr_ok r'"
  by (simp add: rr_ok_def nextItem_keeps)

lemma nextItems_window:
  assumes "rr_ok r" and "unat (rr_next r) + k \<le> 2 ^ 64"
  shows "\<exists>r'. nextItems k r =
      Some (map (\<lambda>i. rr_items r ! ((unat (rr_next r) + i) mod length (rr_items r))) [0..<k], r')
    \<and> rr_ok r' \<and> rr_items r' = rr_items r"
  using assms
proof (induction k arbitrary: r)
  case 0
  then show ?case by simp
next
  case (Suc k)
  let ?r = "r\<lparr>rr_next := rr_next r + 1\<rparr>"
  have ok: "rr_ok ?r" using Suc.prems(1) by (simp add: rr_ok_def)
  show ?case
  proof (cases k)
    case 0
    with Suc.prems ok show ?thesis by (simp add: nextItem_Some)
  next
    case (Suc k')
    then have "unat (rr_next r + 1) = Suc (unat (rr_next r))"
      using Suc.prems(2) by (simp add: unat_word_ariths)
    then obtain r' where "nextItems k ?r =
        Some (map (\<lambda>i. rr_items r ! (Suc (unat (rr_next r) + i) mod length (rr_items r))) [0..<k], r')"
      "rr_ok r'" "rr_items r' = rr_items r"
      using Suc.IH [OF ok] Suc.prems(2) by auto
    then show ?thesis
      using Suc.prems(1)
      by (simp add: nextItem_Some map_upt_Suc del: upt_Suc)
  qed
qed

text \<open>A window of as many calls as there are items picks every position once.\<close>

lemma rotation_mset:
  assumes "0 < length xs"
  shows "mset (map (\<lambda>i. xs ! ((s + i) mod length xs)) [0..<length xs]) = mset xs"
proof -
  have "map (\<lambda>i. xs ! ((s + i) mod length xs)) [0..<length xs] = rotate s xs"
    by (rule nth_equalityI) (use assms in \<open>auto simp: nth_rotate\<close>)
  moreover have "mset (rotate s xs) = mset (drop (s mod length xs) xs @ take (s mod length xs) xs)"
    by (simp add: rotate_drop_take)
  ultimately show ?thesis
    by (metis append_take_drop_id mset_append union_commute)
qed

lemma balanced_window:
  assumes "0 < length xs"
  shows "mset (map (\<lambda>i. xs ! ((s + i) mod length xs)) [0..<m * length xs]) = repeat_mset m (mset xs)"
proof (induction m)
  case 0
  then show ?case by simp
next
  case (Suc m)
  let ?n = "length xs"
  have "[0..<Suc m * ?n] = [0..<m * ?n] @ map (\<lambda>i. i + m * ?n) [0..<?n]"
    using upt_add_eq_append [of 0 "m * ?n" ?n] by (simp add: map_add_upt add.commute)
  then have "mset (map (\<lambda>i. xs ! ((s + i) mod ?n)) [0..<Suc m * ?n]) =
      repeat_mset m (mset xs) + mset (map (\<lambda>i. xs ! (((s + i) + m * ?n) mod ?n)) [0..<?n])"
    using Suc.IH by (simp add: o_def add.assoc)
  then show ?case using rotation_mset [OF assms, of s] by (simp add: add.commute)
qed

section \<open>Properties\<close>

text \<open>
  C9: a selector whose counter does not wrap meanwhile returns, in any run of \<open>m\<close> times as many
  calls as it has items, every item exactly \<open>m\<close> times, wherever the counter stood before.
\<close>

theorem nextItems_balanced:
  assumes "rr_ok r" and "unat (rr_next r) + m * length (rr_items r) \<le> 2 ^ 64"
  shows "\<exists>xs r'. nextItems (m * length (rr_items r)) r = Some (xs, r')
    \<and> mset xs = repeat_mset m (mset (rr_items r)) \<and> rr_items r' = rr_items r"
proof -
  from nextItems_window [OF assms] obtain r' where
    "nextItems (m * length (rr_items r)) r =
       Some (map (\<lambda>i. rr_items r ! ((unat (rr_next r) + i) mod length (rr_items r)))
         [0..<m * length (rr_items r)], r')" "rr_items r' = rr_items r" by blast
  moreover have "0 < length (rr_items r)" using assms(1) by (simp add: rr_ok_def)
  ultimately show ?thesis using balanced_window by metis
qed

theorem nextItems_balanced_witness:
  "\<exists>xs r'. nextItems (2 * 3) \<lparr>rr_items = ''abc'', rr_next = 7\<rparr> = Some (xs, r')
    \<and> mset xs = repeat_mset 2 (mset ''abc'')"
  using nextItems_balanced [of "\<lparr>rr_items = ''abc'', rr_next = 7\<rparr>" 2]
  by (auto simp: rr_ok_def)

end
