(* ===== verification/Replica_Set.thy ===== *)
theory Replica_Set
  imports Load_Balancer Go_Text
begin

text \<open>
  \<^verbatim>\<open>node.go\<close>, \<^verbatim>\<open>route.go\<close>, \<^verbatim>\<open>replica_set.go\<close> and \<^verbatim>\<open>resolved_shard.go\<close>: one physical shard, the
  routes it hands out and the binding of a virtual shard to it. The code shares replica sets and
  their read selectors through pointers (a set with added mirrors keeps the selector of the set it
  was copied from, and the builder compares sets by address), so both live in a heap and a pointer
  is an index into it.
\<close>

section \<open>Data\<close>

record ('r, 'w) node =
  reader :: 'r
  writer :: 'w

definition NewNode :: "'r \<Rightarrow> 'w \<Rightarrow> ('r, 'w) node" where
  "NewNode r w = \<lparr>reader = r, writer = w\<rparr>"

datatype nodeRole = NodeRolePrimary | NodeRoleReadReplica | NodeRoleTransaction

fun nodeRole_text :: "nodeRole \<Rightarrow> string" where
  "nodeRole_text NodeRolePrimary = ''primary''"
| "nodeRole_text NodeRoleReadReplica = ''read_replica''"
| "nodeRole_text NodeRoleTransaction = ''transaction''"

record routeMetadata =
  VirtualShardIndex :: uint64
  HasVirtualShard :: bool
  ReplicaSetName :: string
  NodeName :: string
  NodeRole :: nodeRole

record 't route =
  Target :: 't
  metadata :: routeMetadata

record 't nodeTarget =
  nt_value :: 't
  nt_name :: string
  nt_role :: nodeRole

type_synonym rr_ptr = nat
type_synonym rs_ptr = nat

record ('r, 'w) replicaSet =
  rs_name :: string
  rs_primary :: "('r, 'w) node"
  rs_readTargets :: rr_ptr
  rs_writeMirrors :: "'w list"

record ('r, 'w) mesh_heap =
  h_rr :: "'r nodeTarget roundRobin list"
  h_rs :: "('r, 'w) replicaSet list"

record resolvedShard =
  sh_virtualShardIndex :: uint64
  sh_replicaSet :: rs_ptr

section \<open>Operations\<close>

text \<open>\<open>None\<close> is the panic of a nil or dangling pointer.\<close>

definition rs_at :: "('r, 'w) mesh_heap \<Rightarrow> rs_ptr \<Rightarrow> ('r, 'w) replicaSet option" where
  "rs_at h p = (if p < length (h_rs h) then Some (h_rs h ! p) else None)"

definition withVirtualShard :: "'t route \<Rightarrow> uint64 \<Rightarrow> 't route" where
  "withVirtualShard r i =
     r\<lparr>metadata := (metadata r)\<lparr>VirtualShardIndex := i, HasVirtualShard := True\<rparr>\<rparr>"

definition WithoutVirtualShard :: "routeMetadata \<Rightarrow> routeMetadata" where
  "WithoutVirtualShard m = m\<lparr>VirtualShardIndex := 0, HasVirtualShard := False\<rparr>"

definition readTargets_of :: "('r, 'w) node \<Rightarrow> ('r, 'w) node list \<Rightarrow> 'r nodeTarget list" where
  "readTargets_of primary replicas =
     (if replicas = [] then
        [\<lparr>nt_value = reader primary, nt_name = ''primary'', nt_role = NodeRolePrimary\<rparr>]
      else map (\<lambda>(index, replica).
             \<lparr>nt_value = reader replica, nt_name = ''replica-'' @ Itoa index,
              nt_role = NodeRoleReadReplica\<rparr>) (enumerate 0 replicas))"

definition NewReplicaSet ::
  "string \<Rightarrow> ('r, 'w) node \<Rightarrow> ('r, 'w) node list \<Rightarrow> ('r, 'w) mesh_heap \<Rightarrow>
   rs_ptr \<times> ('r, 'w) mesh_heap" where
  "NewReplicaSet name primary replicas h =
     (length (h_rs h),
      \<lparr>h_rr = h_rr h @ [newRoundRobin (readTargets_of primary replicas)],
       h_rs = h_rs h @ [\<lparr>rs_name = name, rs_primary = primary,
                        rs_readTargets = length (h_rr h), rs_writeMirrors = []\<rparr>]\<rparr>)"

definition selectRead ::
  "('r, 'w) replicaSet \<Rightarrow> ('r, 'w) mesh_heap \<Rightarrow> ('r nodeTarget \<times> ('r, 'w) mesh_heap) option" where
  "selectRead s h =
     (if rs_readTargets s < length (h_rr h) then
        (case nextItem (h_rr h ! rs_readTargets s) of
           None \<Rightarrow> None
         | Some (t, r') \<Rightarrow> Some (t, h\<lparr>h_rr := (h_rr h)[rs_readTargets s := r']\<rparr>))
      else None)"

definition selectWrite ::
  "('w \<Rightarrow> 'w list \<Rightarrow> 'w) \<Rightarrow> ('r, 'w) replicaSet \<Rightarrow> 'w nodeTarget" where
  "selectWrite WithMirrors s =
     \<lparr>nt_value = WithMirrors (writer (rs_primary s)) (rs_writeMirrors s),
      nt_name = ''primary'', nt_role = NodeRolePrimary\<rparr>"

definition route_to :: "string \<Rightarrow> 't nodeTarget \<Rightarrow> 't route" where
  "route_to name t =
     \<lparr>Target = nt_value t,
      metadata = \<lparr>VirtualShardIndex = 0, HasVirtualShard = False, ReplicaSetName = name,
                  NodeName = nt_name t, NodeRole = nt_role t\<rparr>\<rparr>"

definition ReadRoute ::
  "rs_ptr \<Rightarrow> ('r, 'w) mesh_heap \<Rightarrow> ('r route \<times> ('r, 'w) mesh_heap) option" where
  "ReadRoute p h =
     (case rs_at h p of None \<Rightarrow> None
      | Some s \<Rightarrow> (case selectRead s h of None \<Rightarrow> None
                  | Some (t, h') \<Rightarrow> Some (route_to (rs_name s) t, h')))"

definition WriteRoute ::
  "('w \<Rightarrow> 'w list \<Rightarrow> 'w) \<Rightarrow> rs_ptr \<Rightarrow> ('r, 'w) mesh_heap \<Rightarrow> 'w route option" where
  "WriteRoute WithMirrors p h =
     (case rs_at h p of None \<Rightarrow> None
      | Some s \<Rightarrow> Some (route_to (rs_name s) (selectWrite WithMirrors s)))"

definition WriteMirrorCount :: "rs_ptr \<Rightarrow> ('r, 'w) mesh_heap \<Rightarrow> nat option" where
  "WriteMirrorCount p h = map_option (\<lambda>s. length (rs_writeMirrors s)) (rs_at h p)"

definition primaryWriter :: "rs_ptr \<Rightarrow> ('r, 'w) mesh_heap \<Rightarrow> 'w option" where
  "primaryWriter p h = map_option (\<lambda>s. writer (rs_primary s)) (rs_at h p)"

definition WithWriteMirrors ::
  "rs_ptr \<Rightarrow> 'w list \<Rightarrow> ('r, 'w) mesh_heap \<Rightarrow> (rs_ptr \<times> ('r, 'w) mesh_heap) option" where
  "WithWriteMirrors p mirrors h =
     (case rs_at h p of None \<Rightarrow> None
      | Some s \<Rightarrow>
          Some (length (h_rs h),
                h\<lparr>h_rs := h_rs h @ [\<lparr>rs_name = rs_name s, rs_primary = rs_primary s,
                     rs_readTargets = rs_readTargets s,
                     rs_writeMirrors = rs_writeMirrors s @ mirrors\<rparr>]\<rparr>))"

definition shard_ReplicaSetName :: "resolvedShard \<Rightarrow> ('r, 'w) mesh_heap \<Rightarrow> string option" where
  "shard_ReplicaSetName sh h = map_option rs_name (rs_at h (sh_replicaSet sh))"

definition shard_ReadRoute ::
  "resolvedShard \<Rightarrow> ('r, 'w) mesh_heap \<Rightarrow> ('r route \<times> ('r, 'w) mesh_heap) option" where
  "shard_ReadRoute sh h =
     map_option (\<lambda>(r, h'). (withVirtualShard r (sh_virtualShardIndex sh), h'))
       (ReadRoute (sh_replicaSet sh) h)"

definition shard_WriteRoute ::
  "('w \<Rightarrow> 'w list \<Rightarrow> 'w) \<Rightarrow> resolvedShard \<Rightarrow> ('r, 'w) mesh_heap \<Rightarrow> 'w route option" where
  "shard_WriteRoute WithMirrors sh h =
     map_option (\<lambda>r. withVirtualShard r (sh_virtualShardIndex sh))
       (WriteRoute WithMirrors (sh_replicaSet sh) h)"

text \<open>Reads through a sequence of pointers, in the order of their increments of the selectors.\<close>

fun ReadRoutes ::
  "rs_ptr list \<Rightarrow> ('r, 'w) mesh_heap \<Rightarrow> ('r route list \<times> ('r, 'w) mesh_heap) option" where
  "ReadRoutes [] h = Some ([], h)"
| "ReadRoutes (p # ps) h =
     (case ReadRoute p h of None \<Rightarrow> None
      | Some (r, h') \<Rightarrow>
          (case ReadRoutes ps h' of None \<Rightarrow> None | Some (rs, h'') \<Rightarrow> Some (r # rs, h'')))"

section \<open>Well-formed heaps\<close>

definition heap_ok :: "('r, 'w) mesh_heap \<Rightarrow> bool" where
  "heap_ok h \<longleftrightarrow>
     list_all (\<lambda>s. rs_readTargets s < length (h_rr h)) (h_rs h) \<and> list_all rr_ok (h_rr h)"

definition empty_heap :: "('r, 'w) mesh_heap" where
  "empty_heap = \<lparr>h_rr = [], h_rs = []\<rparr>"

lemma heap_ok_empty [simp]: "heap_ok empty_heap"
  by (simp add: heap_ok_def empty_heap_def)

lemma rs_at_Some: "rs_at h p = Some s \<longleftrightarrow> p < length (h_rs h) \<and> s = h_rs h ! p"
  by (auto simp: rs_at_def)

lemma heap_ok_selector:
  "heap_ok h \<Longrightarrow> rs_at h p = Some s \<Longrightarrow>
     rs_readTargets s < length (h_rr h) \<and> rr_ok (h_rr h ! rs_readTargets s)"
  by (auto simp: heap_ok_def rs_at_Some list_all_length)

lemma length_readTargets_of:
  "length (readTargets_of primary replicas) = (if replicas = [] then 1 else length replicas)"
  by (simp add: readTargets_of_def)

lemma heap_ok_NewReplicaSet:
  assumes "heap_ok h" and "length replicas < 2 ^ 63"
    and "NewReplicaSet name primary replicas h = (p, h')"
  shows "heap_ok h' \<and> length (h_rs h') = Suc (length (h_rs h))
    \<and> (\<forall>q s. rs_at h q = Some s \<longrightarrow> rs_at h' q = Some s)"
proof -
  have "rr_ok (newRoundRobin (readTargets_of primary replicas))"
    using assms(2) by (simp add: rr_ok_def newRoundRobin_def length_readTargets_of
        flip: length_greater_0_conv)
  then show ?thesis
    using assms by (auto simp: heap_ok_def NewReplicaSet_def rs_at_Some list_all_iff nth_append
        less_Suc_eq)
qed

lemma rs_at_NewReplicaSet:
  "NewReplicaSet name primary replicas h = (p, h') \<Longrightarrow>
   rs_at h' p = Some \<lparr>rs_name = name, rs_primary = primary,
     rs_readTargets = length (h_rr h), rs_writeMirrors = []\<rparr>"
  by (auto simp: NewReplicaSet_def rs_at_def)

lemma heap_ok_WithWriteMirrors:
  assumes "heap_ok h" and "WithWriteMirrors p ms h = Some (p', h')"
  shows "heap_ok h' \<and> length (h_rs h') = Suc (length (h_rs h))
    \<and> (\<forall>q s. rs_at h q = Some s \<longrightarrow> rs_at h' q = Some s)"
  using assms
  by (auto simp: heap_ok_def WithWriteMirrors_def rs_at_def list_all_length nth_append
      split: option.splits if_splits)

lemma rs_at_WithWriteMirrors:
  assumes "rs_at h p = Some s" and "WithWriteMirrors p ms h = Some (p', h')"
  shows "rs_at h' p' = Some (s\<lparr>rs_writeMirrors := rs_writeMirrors s @ ms\<rparr>)"
  using assms by (auto simp: WithWriteMirrors_def rs_at_def split: if_splits)

lemma ReadRoute_frame:
  assumes "ReadRoute p h = Some (r, h')"
  shows "h_rs h' = h_rs h \<and> length (h_rr h') = length (h_rr h)"
  using assms by (auto simp: ReadRoute_def selectRead_def split: option.splits if_splits)

lemma heap_ok_ReadRoute:
  assumes "heap_ok h" and "ReadRoute p h = Some (r, h')"
  shows "heap_ok h'"
proof -
  from assms(2) obtain s where s: "rs_at h p = Some s"
    by (auto simp: ReadRoute_def split: option.splits)
  let ?i = "rs_readTargets s"
  from heap_ok_selector [OF assms(1) s] have ok: "?i < length (h_rr h)" "rr_ok (h_rr h ! ?i)"
    by auto
  from assms(2) s ok(1) obtain t r' where n: "nextItem (h_rr h ! ?i) = Some (t, r')"
    and h': "h' = h\<lparr>h_rr := (h_rr h)[?i := r']\<rparr>"
    by (auto simp: ReadRoute_def selectRead_def split: option.splits)
  have "rr_ok r'" using nextItem_rr_ok [OF ok(2) n] .
  with assms(1) show ?thesis
    unfolding h' heap_ok_def by (auto simp: list_all_iff dest!: set_update_subset_insert [THEN subsetD])
qed

text \<open>Every read of a well-formed set succeeds, with a target its selector holds.\<close>

definition read_targets :: "('r, 'w) mesh_heap \<Rightarrow> rs_ptr \<Rightarrow> 'r nodeTarget list" where
  "read_targets h p = rr_items (h_rr h ! rs_readTargets (h_rs h ! p))"

lemma ReadRoute_step:
  assumes "heap_ok h" and s: "rs_at h p = Some s"
  shows "\<exists>t r'. nextItem (h_rr h ! rs_readTargets s) = Some (t, r')
    \<and> ReadRoute p h = Some (route_to (rs_name s) t, h\<lparr>h_rr := (h_rr h)[rs_readTargets s := r']\<rparr>)
    \<and> t \<in> set (read_targets h p)"
proof -
  have ok: "rs_readTargets s < length (h_rr h)" "rr_ok (h_rr h ! rs_readTargets s)"
    using heap_ok_selector [OF assms] by auto
  then obtain t r' where n: "nextItem (h_rr h ! rs_readTargets s) = Some (t, r')"
    using nextItem_total [of "h_rr h ! rs_readTargets s"] by (auto simp: rr_ok_def)
  moreover have "t \<in> set (read_targets h p)"
    using nextItem_in_items [OF ok(2) n] s by (simp add: read_targets_def rs_at_Some)
  ultimately show ?thesis using ok s by (simp add: ReadRoute_def selectRead_def)
qed

section \<open>Sharing of the read selector\<close>

text \<open>
  Reads through any mix of pointers that share a selector are the calls of that one selector.
\<close>

lemma ReadRoutes_shared:
  assumes "heap_ok h" and "\<forall>p \<in> set ps. \<exists>s. rs_at h p = Some s \<and> rs_readTargets s = a"
    and "a < length (h_rr h)" and "nextItems (length ps) (h_rr h ! a) = Some (ts, r')"
  shows "\<exists>rs h'. ReadRoutes ps h = Some (rs, h') \<and> map Target rs = map nt_value ts
    \<and> map (\<lambda>r. NodeName (metadata r)) rs = map nt_name ts \<and> map (\<lambda>r. NodeRole (metadata r)) rs = map nt_role ts"
  using assms
proof (induction ps arbitrary: h ts)
  case Nil
  then show ?case by simp
next
  case (Cons p ps)
  from Cons.prems(2) obtain s where s: "rs_at h p = Some s" and a: "rs_readTargets s = a" by auto
  from ReadRoute_step [OF Cons.prems(1) s] a obtain t r1 where
    n: "nextItem (h_rr h ! a) = Some (t, r1)" and
    rd: "ReadRoute p h = Some (route_to (rs_name s) t, h\<lparr>h_rr := (h_rr h)[a := r1]\<rparr>)" by auto
  let ?h = "h\<lparr>h_rr := (h_rr h)[a := r1]\<rparr>"
  from Cons.prems(4) n obtain ts' where ts: "ts = t # ts'"
    and n': "nextItems (length ps) r1 = Some (ts', r')"
    by (auto split: option.splits)
  have "rs_at ?h = rs_at h" by (simp add: rs_at_def fun_eq_iff)
  then have "\<exists>rs h'. ReadRoutes ps ?h = Some (rs, h') \<and> map Target rs = map nt_value ts'
    \<and> map (\<lambda>r. NodeName (metadata r)) rs = map nt_name ts' \<and> map (\<lambda>r. NodeRole (metadata r)) rs = map nt_role ts'"
    using Cons.prems n' heap_ok_ReadRoute [OF Cons.prems(1) rd] by (intro Cons.IH) auto
  then show ?case using rd ts by (auto simp: route_to_def)
qed

section \<open>The contract of a mirrorable writer\<close>

text \<open>
  \<^verbatim>\<open>MirrorableWriter\<close> is what a replica set needs of the generated write wrapper: the databases a
  write through \<open>WithMirrors w ms\<close> reaches are those of \<open>w\<close>, then those of each mirror in
  order. The generated wrapper provides it (theory \<open>Generated_Wrappers\<close>).
\<close>

locale mirrorable_writer =
  fixes WithMirrors :: "'w \<Rightarrow> 'w list \<Rightarrow> 'w"
    and written :: "'w \<Rightarrow> 'd list"
  assumes written_WithMirrors: "written (WithMirrors w ms) = written w @ concat (map written ms)"
begin

lemma WriteRoute_written:
  assumes "rs_at h p = Some s"
  shows "\<exists>r. WriteRoute WithMirrors p h = Some r
    \<and> written (Target r) = written (writer (rs_primary s)) @ concat (map written (rs_writeMirrors s))
    \<and> NodeRole (metadata r) = NodeRolePrimary \<and> ReplicaSetName (metadata r) = rs_name s"
  using assms by (simp add: WriteRoute_def route_to_def selectWrite_def written_WithMirrors)

text \<open>Mirrors added in several steps are those of one step with all of them, in order.\<close>

lemma WithWriteMirrors_written:
  assumes "rs_at h p = Some s" and "WithWriteMirrors p ms h = Some (p', h')"
  shows "\<exists>r. WriteRoute WithMirrors p' h' = Some r
    \<and> written (Target r) =
        written (writer (rs_primary s)) @ concat (map written (rs_writeMirrors s @ ms))"
  using WriteRoute_written [OF rs_at_WithWriteMirrors [OF assms]] by auto

end

section \<open>Properties\<close>

text \<open>
  C8: a set with added mirrors shares the read selector of the set it was copied from. However a
  run of reads alternates between the two, every read succeeds, and a run of \<open>m\<close> times as many
  reads as there are read targets reaches each target \<open>m\<close> times. The targets are the replicas, or
  the primary when there is no replica.
\<close>

theorem ReadRoutes_balanced:
  assumes "heap_ok h" and "length replicas < 2 ^ 63"
    and "NewReplicaSet name primary replicas h = (p, h1)" and "WithWriteMirrors p mirrors h1 = Some (q, h2)"
    and "set ps \<subseteq> {p, q}" and "length ps = m * length (readTargets_of primary replicas)" and "length ps \<le> 2 ^ 64"
  shows "\<exists>rs h'. ReadRoutes ps h2 = Some (rs, h')
    \<and> mset (map Target rs) = repeat_mset m (mset (map nt_value (readTargets_of primary replicas)))"
proof -
  let ?ts = "readTargets_of primary replicas" and ?a = "length (h_rr h)"
  have h1: "rs_at h1 p = Some \<lparr>rs_name = name, rs_primary = primary, rs_readTargets = ?a, rs_writeMirrors = []\<rparr>"
    and rr: "h_rr h1 = h_rr h @ [newRoundRobin ?ts]"
    using rs_at_NewReplicaSet [OF assms(3)] assms(3) by (auto simp: NewReplicaSet_def)
  have ok1: "heap_ok h1" using heap_ok_NewReplicaSet [OF assms(1,2,3)] by blast
  have rr2: "h_rr h2 = h_rr h1" using assms(4) h1 by (auto simp: WithWriteMirrors_def)
  have "\<forall>x \<in> set ps. \<exists>s. rs_at h2 x = Some s \<and> rs_readTargets s = ?a"
    using assms(5) heap_ok_WithWriteMirrors [OF ok1 assms(4)] h1 rs_at_WithWriteMirrors [OF h1 assms(4)] by auto
  moreover have ok: "rr_ok (newRoundRobin ?ts)"
    using assms(2) by (simp add: rr_ok_def newRoundRobin_def length_readTargets_of flip: length_greater_0_conv)
  then obtain ts r' where "nextItems (length ps) (newRoundRobin ?ts) = Some (ts, r')"
    and ts: "ts = map (\<lambda>i. ?ts ! ((0 + i) mod length ?ts)) [0..<length ps]"
    using nextItems_window [of "newRoundRobin ?ts" "length ps"] assms(7) by (auto simp: newRoundRobin_def)
  ultimately obtain rs h' where rs: "ReadRoutes ps h2 = Some (rs, h')" "map Target rs = map nt_value ts"
    using ReadRoutes_shared [of h2 ps ?a ts r'] heap_ok_WithWriteMirrors [OF ok1 assms(4)] rr rr2
    by auto
  have "mset ts = repeat_mset m (mset ?ts)"
    using balanced_window [of ?ts 0 m] ok unfolding ts assms(6) by (simp add: rr_ok_def newRoundRobin_def)
  then have "mset (map Target rs) = repeat_mset m (mset (map nt_value ?ts))"
    unfolding rs(2) mset_map by (simp add: image_mset_repeat)
  with rs(1) show ?thesis by blast
qed

theorem ReadRoutes_balanced_witness:
  "\<exists>rs h'. ReadRoutes [0, 1, 1, 0]
      \<lparr>h_rr = [newRoundRobin (readTargets_of (NewNode ''p'' ''P'') [NewNode ''r'' ''R'', NewNode ''s'' ''S''])],
       h_rs = [\<lparr>rs_name = ''set'', rs_primary = NewNode ''p'' ''P'', rs_readTargets = 0, rs_writeMirrors = []\<rparr>,
               \<lparr>rs_name = ''set'', rs_primary = NewNode ''p'' ''P'', rs_readTargets = 0, rs_writeMirrors = [''M'']\<rparr>]\<rparr>
      = Some (rs, h')
    \<and> mset (map Target rs) = repeat_mset 2 {# ''r'', ''s'' #}"
  using ReadRoutes_balanced [of empty_heap "[NewNode ''r'' ''R'', NewNode ''s'' ''S'']" "''set''"
      "NewNode ''p'' ''P''" 0 _ "[''M'']" 1 _ "[0, 1, 1, 0]" 2]
  by (simp add: NewReplicaSet_def WithWriteMirrors_def empty_heap_def heap_ok_def rs_at_def
      readTargets_of_def NewNode_def)

end
