(* ===== verification/Future.thy ===== *)
theory Future
  imports Mesh_Prelude
begin

text \<open>
  \<^verbatim>\<open>future.go\<close>: a result that is set once and can be awaited any number of times. A future is
  \<open>None\<close> while its channel is open and holds the value and the error once it is closed. Time is
  a natural number: a future and a context, as seen by one waiting goroutine, are functions of it.
\<close>

type_synonym 'a future = "('a \<times> go_error option) option"

definition newFuture :: "'a future" where
  "newFuture = None"

text \<open>\<^verbatim>\<open>sync.Once\<close>: only the first call has an effect.\<close>

definition resolve :: "'a \<Rightarrow> go_error option \<Rightarrow> 'a future \<Rightarrow> 'a future" where
  "resolve value err f = (case f of None \<Rightarrow> Some (value, err) | Some r \<Rightarrow> Some r)"

definition ResolvedFuture :: "'a \<Rightarrow> go_error option \<Rightarrow> 'a future" where
  "ResolvedFuture value err = resolve value err newFuture"

text \<open>
  \<^verbatim>\<open>RunFuture\<close>: the work returns at some time; from then on the future holds its result.
\<close>

definition RunFuture :: "nat \<Rightarrow> 'a \<times> go_error option \<Rightarrow> nat \<Rightarrow> 'a future" where
  "RunFuture finish result t =
     (if finish \<le> t then resolve (fst result) (snd result) newFuture else newFuture)"

text \<open>
  \<^verbatim>\<open>Await\<close> called at time \<open>t\<close>. The first select only looks at the future. The second blocks until
  the future or the context is done; when both are, either branch may be taken.
\<close>

inductive Await ::
  "'a \<Rightarrow> (nat \<Rightarrow> 'a future) \<Rightarrow> (nat \<Rightarrow> go_error option) \<Rightarrow> nat \<Rightarrow> 'a \<times> go_error option \<Rightarrow> bool"
  for zero :: 'a and f :: "nat \<Rightarrow> 'a future" and ctx :: "nat \<Rightarrow> go_error option" and t :: nat where
  Await_ready: "f t = Some r \<Longrightarrow> Await zero f ctx t r"
| Await_done: "f t = None \<Longrightarrow> t \<le> u \<Longrightarrow> f u = Some r \<Longrightarrow> Await zero f ctx t r"
| Await_cancelled: "f t = None \<Longrightarrow> t \<le> u \<Longrightarrow> ctx u = Some e \<Longrightarrow> Await zero f ctx t (zero, Some e)"

inductive_cases AwaitE: "Await zero f ctx t r"

text \<open>The history of a future: once it holds a result it keeps it.\<close>

definition future_history :: "(nat \<Rightarrow> 'a future) \<Rightarrow> bool" where
  "future_history f \<longleftrightarrow> (\<forall>t u r. t \<le> u \<longrightarrow> f t = Some r \<longrightarrow> f u = Some r)"

text \<open>The history of a future on which \<^verbatim>\<open>resolve\<close> is called any number of times: the calls at every time.\<close>

primrec resolve_history :: "(nat \<Rightarrow> ('a \<times> go_error option) list) \<Rightarrow> nat \<Rightarrow> 'a future" where
  "resolve_history calls 0 = fold (\<lambda>(v, e). resolve v e) (calls 0) newFuture"
| "resolve_history calls (Suc t) = fold (\<lambda>(v, e). resolve v e) (calls (Suc t)) (resolve_history calls t)"

lemma resolve_once [simp]: "resolve v e (resolve v' e' f) = resolve v' e' f"
  by (simp add: resolve_def split: option.split)

lemma resolve_None [simp]: "resolve v e None = Some (v, e)"
  by (simp add: resolve_def)

lemma resolve_Some [simp]: "resolve v e (Some r) = Some r"
  by (simp add: resolve_def)

lemma resolve_done [simp]: "resolve v e f \<noteq> None"
  by (simp add: resolve_def split: option.split)

lemma RunFuture_history: "future_history (RunFuture finish result)"
  by (auto simp: future_history_def RunFuture_def newFuture_def)

lemma fold_resolve_Some [simp]: "fold (\<lambda>(v, e). resolve v e) calls (Some r) = Some r"
  by (induction calls) auto

lemma resolve_history_future: "future_history (resolve_history calls)"
  unfolding future_history_def
proof (intro allI impI)
  fix t u r
  assume "t \<le> u" and "resolve_history calls t = Some r"
  then show "resolve_history calls u = Some r" by (induction rule: dec_induct) simp_all
qed

lemma future_history_unique:
  assumes "future_history f" and "f t = Some r" and "f u = Some r'"
  shows "r = r'"
  using assms unfolding future_history_def by (metis nat_le_linear option.inject)

lemma Await_result:
  assumes "future_history f" and "f u = Some r" and "Await zero f ctx t r'"
  shows "r' = r \<or> (\<exists>v e. t \<le> v \<and> ctx v = Some e \<and> r' = (zero, Some e))"
  using assms(3) by (elim AwaitE) (auto dest: future_history_unique [OF assms(1,2)])

lemma Await_returns:
  assumes "future_history f" and "f u = Some r"
  shows "Await zero f ctx t r"
proof (cases "f t")
  case None
  have "f (max t u) = Some r" using assms unfolding future_history_def by (meson max.cobounded2)
  with None show ?thesis by (intro Await_done [of f t "max t u"]) auto
next
  case (Some r0)
  with assms show ?thesis by (auto intro: Await_ready dest: future_history_unique)
qed

lemma Await_after:
  assumes "future_history f" and "f u = Some r" and "u \<le> t"
  shows "Await zero f ctx t r' \<longleftrightarrow> r' = r"
proof -
  have "f t = Some r" using assms unfolding future_history_def by blast
  then show ?thesis by (auto elim: AwaitE intro: Await_ready)
qed

text \<open>
  C19: awaiting a future is repeatable and a cancelled wait loses nothing. A wait on a future that
  completes can return its one result, and otherwise only the zero value with the error of its own
  context; a wait that starts after completion returns the result, whatever its context and
  whatever earlier waits returned; and without cancellation every wait returns the result.
\<close>

theorem Await_repeatable:
  assumes "future_history f" and "f u = Some r"
  shows "Await zero f ctx t r
    \<and> (\<forall>r'. Await zero f ctx t r' \<longrightarrow> r' = r \<or> (\<exists>v e. t \<le> v \<and> ctx v = Some e \<and> r' = (zero, Some e)))
    \<and> (u \<le> t \<longrightarrow> (\<forall>r'. Await zero f ctx t r' \<longrightarrow> r' = r))
    \<and> (\<forall>r'. Await zero f (\<lambda>_. None) t r' \<longrightarrow> r' = r)"
  using Await_returns [OF assms] Await_result [OF assms] Await_after [OF assms] by (metis option.distinct(1))

text \<open>A future of \<^verbatim>\<open>RunFuture\<close>, and one that is resolved at time 5 and again, with an error, at time 6.\<close>

definition resolved_twice :: "nat \<Rightarrow> int future" where
  "resolved_twice = resolve_history
     (\<lambda>t. if t = 5 then [(42, None)] else if t = 6 then [(0, Some (Foreign 2))] else [])"

theorem Await_repeatable_witness:
  "Await (0::int) (RunFuture 5 (42, None)) (\<lambda>_. Some (Foreign 1)) 7 (42, None)
   \<and> \<not> Await (0::int) (RunFuture 5 (42, None)) (\<lambda>_. Some (Foreign 1)) 7 (0, Some (Foreign 1))
   \<and> Await 0 resolved_twice (\<lambda>_. None) 7 (42, None) \<and> \<not> Await 0 resolved_twice (\<lambda>_. None) 7 (0, Some (Foreign 2))"
proof -
  have f: "RunFuture 5 (42::int, None) 5 = Some (42, None)" by (simp add: RunFuture_def newFuture_def)
  have h: "future_history resolved_twice" by (simp only: resolved_twice_def resolve_history_future)
  have g: "resolved_twice 5 = Some (42, None)" by (simp add: resolved_twice_def numeral_eq_Suc newFuture_def)
  have a: "Await 0 resolved_twice (\<lambda>_. None) 7 (42, None)" "\<forall>r. Await 0 resolved_twice (\<lambda>_. None) 7 r \<longrightarrow> r = (42, None)"
    using Await_repeatable [OF h g, of 0 "\<lambda>_. None" 7] by blast+
  have b: "Await (0::int) (RunFuture 5 (42, None)) (\<lambda>_. Some (Foreign 1)) 7 (42, None)"
      "(5::nat) \<le> 7 \<longrightarrow> (\<forall>r. Await (0::int) (RunFuture 5 (42, None)) (\<lambda>_. Some (Foreign 1)) 7 r \<longrightarrow> r = (42, None))"
    using Await_repeatable [OF RunFuture_history f, of 0 "\<lambda>_. Some (Foreign 1)" 7] by blast+
  have "\<not> Await 0 resolved_twice (\<lambda>_. None) 7 (0, Some (Foreign 2))" using a(2) by fastforce
  moreover have "\<not> Await (0::int) (RunFuture 5 (42, None)) (\<lambda>_. Some (Foreign 1)) 7 (0, Some (Foreign 1))" using b(2) by fastforce
  ultimately show ?thesis using a(1) b(1) by blast
qed

end
