(* ===== verification/Copy_Batch.thy ===== *)
theory Copy_Batch
  imports Future
begin

text \<open>
  \<^verbatim>\<open>copy_batch.go\<close>, \<^verbatim>\<open>copy_batch_config.go\<close> and \<^verbatim>\<open>copy_batch_observer.go\<close>: the operations of the
  COPY batcher. Each function with the suffix \<^verbatim>\<open>Locked\<close> runs under the mutex of the batcher and is
  a function on its state. The requests it has accepted are a list of its state, and a pointer to a
  request is an index; a batch carries the number it was opened with as its address. Go's \<^verbatim>\<open>int\<close> is
  \<open>int\<close>: every value here is a length or a configured bound.
\<close>

section \<open>Configuration\<close>

record copyBatchConfig =
  MaxRowsPerBatch :: int
  Linger :: int
  MaxConcurrentBatches :: int

text \<open>Durations are in nanoseconds.\<close>

definition DefaultCopyBatchLinger :: int where
  "DefaultCopyBatchLinger = 1000000"

definition DefaultCopyBatchMaxConcurrentBatches :: int where
  "DefaultCopyBatchMaxConcurrentBatches = 32"

definition Validate :: "copyBatchConfig \<Rightarrow> go_error option" where
  "Validate c =
     (if MaxRowsPerBatch c < 0 then
        Some (Errorf ''pgmesh: copy batch maximum rows per batch must not be negative'' [])
      else if Linger c < 0 then
        Some (Errorf ''pgmesh: copy batch linger must not be negative'' [])
      else if MaxConcurrentBatches c < 0 then
        Some (Errorf ''pgmesh: copy batch maximum concurrent batches must not be negative'' [])
      else None)"

definition normalized :: "copyBatchConfig \<Rightarrow> copyBatchConfig" where
  "normalized c =
     (let c1 = (if Linger c = 0 then c\<lparr>Linger := DefaultCopyBatchLinger\<rparr> else c)
      in if MaxConcurrentBatches c1 = 0
         then c1\<lparr>MaxConcurrentBatches := DefaultCopyBatchMaxConcurrentBatches\<rparr> else c1)"

section \<open>Requests\<close>

record copyRequest =
  rq_result :: "int future"
  rq_rowCount :: int
  rq_pendingParts :: int
  rq_errs :: "go_error list"

definition newCopyRequest :: "int \<Rightarrow> copyRequest" where
  "newCopyRequest rowCount =
     \<lparr>rq_result = newFuture, rq_rowCount = rowCount, rq_pendingParts = 0, rq_errs = []\<rparr>"

definition addPart :: "copyRequest \<Rightarrow> copyRequest" where
  "addPart r = r\<lparr>rq_pendingParts := rq_pendingParts r + 1\<rparr>"

definition finishPart :: "go_error option \<Rightarrow> copyRequest \<Rightarrow> copyRequest \<times> bool" where
  "finishPart err r =
     (let r1 = (case err of None \<Rightarrow> r | Some e \<Rightarrow> r\<lparr>rq_errs := rq_errs r @ [e]\<rparr>);
          r2 = r1\<lparr>rq_pendingParts := rq_pendingParts r1 - 1\<rparr>
      in if rq_pendingParts r2 \<noteq> 0 then (r2, False)
         else (case errors_join (rq_errs r2) of
                 Some e \<Rightarrow> (r2\<lparr>rq_result := resolve 0 (Some e) (rq_result r2)\<rparr>, True)
               | None \<Rightarrow> (r2\<lparr>rq_result := resolve (rq_rowCount r2) None (rq_result r2)\<rparr>, True)))"

section \<open>Batches\<close>

datatype flushReason =
    NoReason
  | CopyBatchFlushReasonFull
  | CopyBatchFlushReasonLinger
  | CopyBatchFlushReasonManual
  | CopyBatchFlushReasonUnbatched

record ('c, 'a) copyBatch =
  cb_addr :: nat
  cb_ctx :: 'c
  cb_rows :: "'a list"
  cb_requests :: "nat list"
  cb_timer :: bool
  cb_queuedAt :: int
  cb_reason :: flushReason

record ('c, 'a) copyBatcher =
  b_config :: copyBatchConfig
  b_active :: "('c, 'a) copyBatch option"
  b_queue :: "('c, 'a) copyBatch list"
  b_inFlight :: int
  b_pending :: "nat set"
  b_requests :: "copyRequest list"
  b_allocated :: nat

text \<open>\<open>funcNil\<close> says whether the copy function is nil.\<close>

definition NewCopyBatcher :: "copyBatchConfig \<Rightarrow> bool \<Rightarrow> ('c, 'a) copyBatcher result" where
  "NewCopyBatcher config funcNil =
     (case Validate config of Some e \<Rightarrow> Inl e
      | None \<Rightarrow> if funcNil then Inl (Sentinel ErrNilCopyBatchFunc)
                else Inr \<lparr>b_config = normalized config, b_active = None, b_queue = [], b_inFlight = 0,
                          b_pending = {}, b_requests = [], b_allocated = 0\<rparr>)"

definition update_request :: "nat \<Rightarrow> (copyRequest \<Rightarrow> copyRequest) \<Rightarrow> ('c, 'a) copyBatcher \<Rightarrow> ('c, 'a) copyBatcher" where
  "update_request r f b = b\<lparr>b_requests := (b_requests b)[r := f (b_requests b ! r)]\<rparr>"

definition enqueueLocked :: "('c, 'a) copyBatch option \<Rightarrow> ('c, 'a) copyBatcher \<Rightarrow> ('c, 'a) copyBatcher" where
  "enqueueLocked batch b =
     (case batch of None \<Rightarrow> b
      | Some x \<Rightarrow> if cb_rows x = [] then b else b\<lparr>b_queue := b_queue b @ [x]\<rparr>)"

definition detachActiveLocked ::
  "flushReason \<Rightarrow> ('c, 'a) copyBatcher \<Rightarrow> ('c, 'a) copyBatch option \<times> ('c, 'a) copyBatcher" where
  "detachActiveLocked reason b =
     (map_option (\<lambda>x. x\<lparr>cb_timer := False, cb_reason := reason\<rparr>) (b_active b), b\<lparr>b_active := None\<rparr>)"

definition openBatchLocked :: "'c \<Rightarrow> int \<Rightarrow> ('c, 'a) copyBatcher \<Rightarrow> ('c, 'a) copyBatcher" where
  "openBatchLocked ctx now b =
     b\<lparr>b_active := Some \<lparr>cb_addr = b_allocated b, cb_ctx = ctx, cb_rows = [], cb_requests = [],
                        cb_timer = True, cb_queuedAt = now, cb_reason = NoReason\<rparr>,
       b_allocated := Suc (b_allocated b)\<rparr>"

text \<open>
  One turn of the loop of \<^verbatim>\<open>appendRequestLocked\<close>, with the rows left. \<open>None\<close> is the panic of
  slicing with a negative bound.
\<close>

definition append_turn ::
  "'c \<Rightarrow> int \<Rightarrow> nat \<Rightarrow> 'a list \<Rightarrow> ('c, 'a) copyBatcher \<Rightarrow> ('a list \<times> ('c, 'a) copyBatcher) option" where
  "append_turn ctx now request rows b =
     (let b1 = (if b_active b = None then openBatchLocked ctx now b else b);
          batch = the (b_active b1);
          bound = MaxRowsPerBatch (b_config b1);
          rowCount = (if bound > 0 then min (int (length rows)) (bound - int (length (cb_rows batch)))
                      else int (length rows))
      in if rowCount < 0 then None
         else
           let batch' = batch\<lparr>cb_rows := cb_rows batch @ take (nat rowCount) rows,
                              cb_requests := cb_requests batch @ [request]\<rparr>;
               b2 = update_request request addPart (b1\<lparr>b_active := Some batch'\<rparr>);
               b3 = (if bound > 0 \<and> int (length (cb_rows batch')) = bound
                     then (case detachActiveLocked CopyBatchFlushReasonFull b2 of (x, b') \<Rightarrow> enqueueLocked x b')
                     else b2)
           in Some (drop (nat rowCount) rows, b3))"

partial_function (option) appendRequestLocked ::
  "'c \<Rightarrow> int \<Rightarrow> nat \<Rightarrow> 'a list \<Rightarrow> ('c, 'a) copyBatcher \<Rightarrow> ('c, 'a) copyBatcher option" where
  "appendRequestLocked ctx now request rows b =
     (if rows = [] then Some b
      else Option.bind (append_turn ctx now request rows b)
             (\<lambda>(rows', b'). appendRequestLocked ctx now request rows' b'))"

declare appendRequestLocked.simps [code]

definition enqueueUnbatchedLocked ::
  "'c \<Rightarrow> int \<Rightarrow> nat \<Rightarrow> 'a list \<Rightarrow> ('c, 'a) copyBatcher \<Rightarrow> ('c, 'a) copyBatcher" where
  "enqueueUnbatchedLocked ctx now request rows b =
     enqueueLocked
       (Some \<lparr>cb_addr = b_allocated b, cb_ctx = ctx, cb_rows = rows, cb_requests = [request],
              cb_timer = False, cb_queuedAt = now, cb_reason = CopyBatchFlushReasonUnbatched\<rparr>)
       ((update_request request addPart b)\<lparr>b_allocated := Suc (b_allocated b)\<rparr>)"

section \<open>Scheduling\<close>

text \<open>
  The loop of \<^verbatim>\<open>dequeueLocked\<close>: batches that lingered and stand next to each other are merged as
  long as the bound allows. The result is the batch and the queue left.
\<close>

fun merge_linger ::
  "int \<Rightarrow> ('c, 'a) copyBatch \<Rightarrow> ('c, 'a) copyBatch list \<Rightarrow> ('c, 'a) copyBatch \<times> ('c, 'a) copyBatch list" where
  "merge_linger bound batch [] = (batch, [])"
| "merge_linger bound batch (x # q) =
     (if cb_reason x \<noteq> CopyBatchFlushReasonLinger then (batch, x # q)
      else if bound > 0 \<and> int (length (cb_rows batch)) + int (length (cb_rows x)) > bound then (batch, x # q)
      else merge_linger bound
             (batch\<lparr>cb_rows := cb_rows batch @ cb_rows x, cb_requests := cb_requests batch @ cb_requests x\<rparr>) q)"

definition dequeueLocked ::
  "int \<Rightarrow> ('c, 'a) copyBatch \<Rightarrow> ('c, 'a) copyBatch list \<Rightarrow> ('c, 'a) copyBatch \<times> ('c, 'a) copyBatch list" where
  "dequeueLocked bound batch q =
     (if cb_reason batch \<noteq> CopyBatchFlushReasonLinger then (batch, q) else merge_linger bound batch q)"

text \<open>The loop of \<^verbatim>\<open>scheduleLocked\<close>: the batches taken, and the queue left.\<close>

fun schedule_loop ::
  "int \<Rightarrow> nat \<Rightarrow> ('c, 'a) copyBatch list \<Rightarrow> ('c, 'a) copyBatch list \<times> ('c, 'a) copyBatch list" where
  "schedule_loop bound 0 q = ([], q)"
| "schedule_loop bound (Suc capacity) [] = ([], [])"
| "schedule_loop bound (Suc capacity) (x # q) =
     (case dequeueLocked bound x q of (batch, q') \<Rightarrow>
        (case schedule_loop bound capacity q' of (batches, q'') \<Rightarrow> (batch # batches, q'')))"

definition scheduleLocked ::
  "('c, 'a) copyBatcher \<Rightarrow> ('c, 'a) copyBatch list \<times> ('c, 'a) copyBatcher" where
  "scheduleLocked b =
     (let capacity = MaxConcurrentBatches (b_config b) - b_inFlight b
      in if capacity \<le> 0 \<or> b_queue b = [] then ([], b)
         else (case schedule_loop (MaxRowsPerBatch (b_config b)) (nat capacity) (b_queue b) of
                 (batches, q) \<Rightarrow>
                   (batches, b\<lparr>b_queue := q, b_inFlight := b_inFlight b + int (length batches)\<rparr>)))"

section \<open>Entry points\<close>

text \<open>
  \<^verbatim>\<open>submit\<close>. The two errors are what the context reports before and after the lock is taken. The
  answer is a future that is already resolved, or the number of the accepted request. With it come
  the batches to dispatch. \<open>None\<close> is a loop that does not return, or a panic.
\<close>

datatype submission = Settled "int future" | Accepted nat

definition submit ::
  "'c \<Rightarrow> int \<Rightarrow> go_error option \<Rightarrow> go_error option \<Rightarrow> 'a list \<Rightarrow> bool \<Rightarrow> ('c, 'a) copyBatcher \<Rightarrow>
   (submission \<times> ('c, 'a) copyBatch list \<times> ('c, 'a) copyBatcher) option" where
  "submit ctx now err1 err2 rows coalesce b =
     (if rows = [] then Some (Settled (ResolvedFuture 0 None), [], b)
      else case err1 of Some e \<Rightarrow> Some (Settled (ResolvedFuture 0 (Some e)), [], b)
      | None \<Rightarrow>
     (case err2 of Some e \<Rightarrow>
        Some (Settled (resolve 0 (Some e) (rq_result (newCopyRequest (int (length rows))))), [], b)
      | None \<Rightarrow>
        let request = length (b_requests b);
            b1 = b\<lparr>b_requests := b_requests b @ [newCopyRequest (int (length rows))],
                   b_pending := insert request (b_pending b)\<rparr>
        in Option.bind (if coalesce then appendRequestLocked ctx now request rows b1
                        else Some (enqueueUnbatchedLocked ctx now request rows b1))
             (\<lambda>b2. case scheduleLocked b2 of (batches, b3) \<Rightarrow> Some (Accepted request, batches, b3))))"

definition Submit where
  "Submit ctx now err1 err2 rows b = submit ctx now err1 err2 rows True b"

definition SubmitUnbatched where
  "SubmitUnbatched ctx now err1 err2 rows b = submit ctx now err1 err2 rows False b"

definition flushExpiredBatch ::
  "nat \<Rightarrow> ('c, 'a) copyBatcher \<Rightarrow> ('c, 'a) copyBatch list \<times> ('c, 'a) copyBatcher" where
  "flushExpiredBatch addr b =
     (case b_active b of None \<Rightarrow> ([], b)
      | Some x \<Rightarrow>
          if cb_addr x \<noteq> addr then ([], b)
          else scheduleLocked (enqueueLocked
                 (Some (x\<lparr>cb_timer := False, cb_reason := CopyBatchFlushReasonLinger\<rparr>)) (b\<lparr>b_active := None\<rparr>)))"

text \<open>\<^verbatim>\<open>FlushAsync\<close> up to the unlock: the batches to dispatch and the requests its future waits for.\<close>

definition FlushAsync ::
  "('c, 'a) copyBatcher \<Rightarrow> ('c, 'a) copyBatch list \<times> nat set \<times> ('c, 'a) copyBatcher" where
  "FlushAsync b =
     (case detachActiveLocked CopyBatchFlushReasonManual b of (x, b1) \<Rightarrow>
        (case scheduleLocked (enqueueLocked x b1) of (batches, b2) \<Rightarrow> (batches, b_pending b2, b2)))"

text \<open>
  The future of a flush over the requests it waits for, in the order in which the map was
  iterated: resolved once all of them are, with their errors joined.
\<close>

definition flush_future :: "copyRequest list \<Rightarrow> nat list \<Rightarrow> unit future" where
  "flush_future requests rs =
     (if \<forall>r \<in> set rs. rq_result (requests ! r) \<noteq> None
      then Some ((), errors_join (List.map_filter (\<lambda>r. Option.bind (rq_result (requests ! r)) snd) rs))
      else None)"

section \<open>Running a batch\<close>

text \<open>The error of a physical COPY, from the count and the error its function returned.\<close>

definition copy_error :: "('c, 'a) copyBatch \<Rightarrow> int \<Rightarrow> go_error option \<Rightarrow> go_error option" where
  "copy_error batch n err =
     (if err = None \<and> n \<noteq> int (length (cb_rows batch)) then
        Some (Wrap ''%w: got %d, want %d'' [ArgInt n, ArgInt (int (length (cb_rows batch)))]
          (Sentinel ErrCopyBatchCountMismatch))
      else err)"

record copyBatchObservation =
  RowCount :: int
  SubmissionCount :: int
  Reason :: flushReason
  QueueDuration :: int
  ExecutionDuration :: int
  Err :: "go_error option"

definition observation ::
  "('c, 'a) copyBatch \<Rightarrow> int \<Rightarrow> int \<Rightarrow> go_error option \<Rightarrow> copyBatchObservation" where
  "observation batch startedAt finishedAt err =
     \<lparr>RowCount = int (length (cb_rows batch)), SubmissionCount = int (length (cb_requests batch)),
      Reason = cb_reason batch, QueueDuration = startedAt - cb_queuedAt batch,
      ExecutionDuration = finishedAt - startedAt, Err = err\<rparr>"

text \<open>The observers called, in order; a nil observer is skipped.\<close>

definition notify ::
  "'o option list \<Rightarrow> ('c, 'a) copyBatch \<Rightarrow> copyBatchObservation \<Rightarrow> ('o \<times> 'c \<times> copyBatchObservation) list" where
  "notify observers batch obs = map (\<lambda>f. (f, cb_ctx batch, obs)) (List.map_filter id observers)"

text \<open>The last section of \<^verbatim>\<open>runBatch\<close>, under the lock.\<close>

definition release ::
  "nat list \<Rightarrow> ('c, 'a) copyBatcher \<Rightarrow> ('c, 'a) copyBatch list \<times> ('c, 'a) copyBatcher" where
  "release completed b =
     scheduleLocked (b\<lparr>b_pending := b_pending b - set completed, b_inFlight := b_inFlight b - 1\<rparr>)"

section \<open>Well-formed batchers\<close>

definition config_ok :: "copyBatchConfig \<Rightarrow> bool" where
  "config_ok c \<longleftrightarrow> 0 \<le> MaxRowsPerBatch c \<and> 0 < Linger c \<and> 0 < MaxConcurrentBatches c"

text \<open>A batch that is ready: it has rows, and unless it was submitted unbatched no more than allowed.\<close>

definition batch_ok :: "int \<Rightarrow> ('c, 'a) copyBatch \<Rightarrow> bool" where
  "batch_ok bound x \<longleftrightarrow> cb_rows x \<noteq> [] \<and> cb_reason x \<noteq> NoReason \<and>
     (cb_reason x \<noteq> CopyBatchFlushReasonUnbatched \<longrightarrow> 0 < bound \<longrightarrow> int (length (cb_rows x)) \<le> bound)"

definition active_ok :: "('c, 'a) copyBatcher \<Rightarrow> bool" where
  "active_ok b \<longleftrightarrow> (case b_active b of None \<Rightarrow> True
     | Some x \<Rightarrow> cb_rows x \<noteq> [] \<and> cb_reason x = NoReason \<and> cb_timer x \<and> cb_addr x < b_allocated b \<and>
         (0 < MaxRowsPerBatch (b_config b) \<longrightarrow> int (length (cb_rows x)) < MaxRowsPerBatch (b_config b)))"

definition batcher_ok :: "('c, 'a) copyBatcher \<Rightarrow> bool" where
  "batcher_ok b \<longleftrightarrow> config_ok (b_config b) \<and> active_ok b \<and>
     list_all (batch_ok (MaxRowsPerBatch (b_config b))) (b_queue b)"

definition active_list :: "('c, 'a) copyBatcher \<Rightarrow> ('c, 'a) copyBatch list" where
  "active_list b = (case b_active b of None \<Rightarrow> [] | Some x \<Rightarrow> [x])"

text \<open>The rows and the parts of a list of batches, and of all batches not yet dispatched.\<close>

definition rows_of :: "('c, 'a) copyBatch list \<Rightarrow> 'a list" where
  "rows_of xs = concat (map cb_rows xs)"

definition parts_of :: "('c, 'a) copyBatch list \<Rightarrow> nat list" where
  "parts_of xs = concat (map cb_requests xs)"

text \<open>Every row of a batch belongs to a request that has a part in it.\<close>

definition owned :: "('a \<Rightarrow> nat) \<Rightarrow> ('c, 'a) copyBatch \<Rightarrow> bool" where
  "owned owner x \<longleftrightarrow> (\<forall>y \<in> set (cb_rows x). owner y \<in> set (cb_requests x))"

definition waiting :: "('c, 'a) copyBatcher \<Rightarrow> ('c, 'a) copyBatch list" where
  "waiting b = b_queue b @ active_list b"

lemma rows_of_simps [simp]: "rows_of [] = []" "rows_of (x # xs) = cb_rows x @ rows_of xs"
  "rows_of (xs @ ys) = rows_of xs @ rows_of ys"
  by (simp_all add: rows_of_def)

lemma parts_of_simps [simp]: "parts_of [] = []" "parts_of (x # xs) = cb_requests x @ parts_of xs"
  "parts_of (xs @ ys) = parts_of xs @ parts_of ys"
  by (simp_all add: parts_of_def)

lemma NewCopyBatcher_ok:
  assumes "NewCopyBatcher config funcNil = Inr b"
  shows "batcher_ok b \<and> b_inFlight b = 0 \<and> b_queue b = [] \<and> b_active b = None \<and> b_pending b = {} \<and> b_requests b = []"
  using assms
  by (auto simp: NewCopyBatcher_def Validate_def batcher_ok_def config_ok_def active_ok_def normalized_def Let_def
      DefaultCopyBatchLinger_def DefaultCopyBatchMaxConcurrentBatches_def split: option.splits if_splits)

section \<open>Appending a request\<close>

text \<open>
  What a number of loop turns does: \<open>k\<close> parts of the request are added, the waiting rows are
  extended in order by the rows consumed, and everything else stays.
\<close>

definition appended ::
  "nat \<Rightarrow> nat \<Rightarrow> 'a list \<Rightarrow> ('c, 'a) copyBatcher \<Rightarrow> ('c, 'a) copyBatcher \<Rightarrow> bool" where
  "appended request k rows b b' \<longleftrightarrow>
     batcher_ok b' \<and> b_config b' = b_config b \<and> b_inFlight b' = b_inFlight b \<and> b_pending b' = b_pending b \<and>
     b_requests b' = (b_requests b)[request := (addPart ^^ k) (b_requests b ! request)] \<and>
     rows_of (waiting b') = rows_of (waiting b) @ rows \<and>
     mset (parts_of (waiting b')) = mset (parts_of (waiting b)) + replicate_mset k request \<and>
     (\<forall>owner. (\<forall>y \<in> set rows. owner y = request) \<longrightarrow> list_all (owned owner) (waiting b) \<longrightarrow>
        list_all (owned owner) (waiting b'))"

lemma enqueueLocked_Some: "cb_rows x \<noteq> [] \<Longrightarrow> enqueueLocked (Some x) b = b\<lparr>b_queue := b_queue b @ [x]\<rparr>"
  by (simp add: enqueueLocked_def)

text \<open>The batch that a loop turn fills: the active one, or the one just opened.\<close>

definition with_active :: "'c \<Rightarrow> int \<Rightarrow> ('c, 'a) copyBatcher \<Rightarrow> ('c, 'a) copyBatcher" where
  "with_active ctx now b = (if b_active b = None then openBatchLocked ctx now b else b)"

lemma with_active_keeps [simp]:
  "b_config (with_active ctx now b) = b_config b" "b_requests (with_active ctx now b) = b_requests b"
  "b_inFlight (with_active ctx now b) = b_inFlight b" "b_pending (with_active ctx now b) = b_pending b"
  "b_queue (with_active ctx now b) = b_queue b"
  by (simp_all add: with_active_def openBatchLocked_def)

lemma with_active_batch:
  assumes "active_ok b"
  obtains x where "b_active (with_active ctx now b) = Some x" "cb_reason x = NoReason" "cb_timer x"
    "cb_addr x < b_allocated (with_active ctx now b)"
    "rows_of (active_list b) = cb_rows x" "parts_of (active_list b) = cb_requests x"
    "0 < MaxRowsPerBatch (b_config b) \<longrightarrow> int (length (cb_rows x)) < MaxRowsPerBatch (b_config b)"
    "\<And>owner. list_all (owned owner) (active_list b) \<Longrightarrow> owned owner x"
  using assms unfolding active_ok_def with_active_def
  by (cases "b_active b") (auto simp: openBatchLocked_def active_list_def owned_def)

text \<open>The end of a loop turn: a batch that is full leaves the active slot.\<close>

definition settle_full :: "('c, 'a) copyBatch \<Rightarrow> ('c, 'a) copyBatcher \<Rightarrow> ('c, 'a) copyBatcher" where
  "settle_full x b =
     (if MaxRowsPerBatch (b_config b) > 0 \<and> int (length (cb_rows x)) = MaxRowsPerBatch (b_config b)
      then (case detachActiveLocked CopyBatchFlushReasonFull b of (y, b') \<Rightarrow> enqueueLocked y b') else b)"

lemma settle_full_ok:
  assumes "b_active b = Some x" and "cb_rows x \<noteq> []" and "cb_reason x = NoReason" and "cb_timer x"
    and "cb_addr x < b_allocated b" and "config_ok (b_config b)"
    and "list_all (batch_ok (MaxRowsPerBatch (b_config b))) (b_queue b)"
    and "0 < MaxRowsPerBatch (b_config b) \<longrightarrow> int (length (cb_rows x)) \<le> MaxRowsPerBatch (b_config b)"
  shows "batcher_ok (settle_full x b) \<and> rows_of (waiting (settle_full x b)) = rows_of (b_queue b) @ cb_rows x
    \<and> parts_of (waiting (settle_full x b)) = parts_of (b_queue b) @ cb_requests x
    \<and> b_config (settle_full x b) = b_config b \<and> b_inFlight (settle_full x b) = b_inFlight b
    \<and> b_pending (settle_full x b) = b_pending b \<and> b_requests (settle_full x b) = b_requests b
    \<and> (list_all (owned owner) (waiting (settle_full x b)) \<longleftrightarrow> list_all (owned owner) (b_queue b) \<and> owned owner x)"
proof (cases "MaxRowsPerBatch (b_config b) > 0 \<and> int (length (cb_rows x)) = MaxRowsPerBatch (b_config b)")
  case True
  then have "settle_full x b = b\<lparr>b_active := None,
      b_queue := b_queue b @ [x\<lparr>cb_timer := False, cb_reason := CopyBatchFlushReasonFull\<rparr>]\<rparr>"
    using assms(1,2) by (simp add: settle_full_def detachActiveLocked_def enqueueLocked_Some)
  with assms show ?thesis
    by (simp add: batcher_ok_def active_ok_def batch_ok_def waiting_def active_list_def owned_def)
next
  case False
  then have "settle_full x b = b" unfolding settle_full_def by (rule if_not_P)
  moreover have "active_ok b" using assms False by (auto simp: active_ok_def)
  ultimately show ?thesis using assms by (simp add: batcher_ok_def waiting_def active_list_def)
qed

lemma append_turn_settle:
  assumes "b_active (with_active ctx now b) = Some x"
    and "m = (if MaxRowsPerBatch (b_config b) > 0
              then min (int (length rows)) (MaxRowsPerBatch (b_config b) - int (length (cb_rows x))) else int (length rows))"
    and "0 \<le> m"
    and "x' = x\<lparr>cb_rows := cb_rows x @ take (nat m) rows, cb_requests := cb_requests x @ [request]\<rparr>"
  shows "append_turn ctx now request rows b =
    Some (drop (nat m) rows, settle_full x' (update_request request addPart ((with_active ctx now b)\<lparr>b_active := Some x'\<rparr>)))"
  unfolding append_turn_def Let_def with_active_def [symmetric] with_active_keeps assms(1) option.sel
    assms(2) [symmetric] assms(4) [symmetric] settle_full_def
  using assms(3) by (simp add: update_request_def)

lemma append_turn_ok:
  assumes ok: "batcher_ok b" and rows: "rows \<noteq> []" and request: "request < length (b_requests b)"
  shows "\<exists>n b'. append_turn ctx now request rows b = Some (drop (Suc n) rows, b')
    \<and> appended request 1 (take (Suc n) rows) b b'"
proof -
  let ?bound = "MaxRowsPerBatch (b_config b)" and ?b1 = "with_active ctx now b"
  from ok have "active_ok b" by (simp add: batcher_ok_def)
  from with_active_batch [OF this, of ctx now] obtain x where
    x: "b_active ?b1 = Some x" "cb_reason x = NoReason" "cb_timer x" "cb_addr x < b_allocated ?b1"
      "rows_of (active_list b) = cb_rows x" "parts_of (active_list b) = cb_requests x"
      "0 < ?bound \<longrightarrow> int (length (cb_rows x)) < ?bound"
      "\<And>owner. list_all (owned owner) (active_list b) \<Longrightarrow> owned owner x" by blast
  define m where "m = (if ?bound > 0 then min (int (length rows)) (?bound - int (length (cb_rows x))) else int (length rows))"
  have m: "0 < m" using x(7) rows by (auto simp: m_def)
  then obtain n where n: "nat m = Suc n" using gr0_implies_Suc [of "nat m"] by auto
  define x' where "x' = x\<lparr>cb_rows := cb_rows x @ take (nat m) rows, cb_requests := cb_requests x @ [request]\<rparr>"
  define b2 where "b2 = update_request request addPart (?b1\<lparr>b_active := Some x'\<rparr>)"
  have turn: "append_turn ctx now request rows b = Some (drop (Suc n) rows, settle_full x' b2)"
    using append_turn_settle [OF x(1) m_def _ x'_def] m n by (simp add: b2_def)
  have len: "0 < ?bound \<longrightarrow> int (length (cb_rows x')) \<le> ?bound"
    using x(7) by (auto simp: x'_def m_def min_def split: if_splits)
  have b2: "b_active b2 = Some x'" "b_queue b2 = b_queue b" "b_config b2 = b_config b" "b_inFlight b2 = b_inFlight b"
    "b_pending b2 = b_pending b" "b_requests b2 = (b_requests b)[request := addPart (b_requests b ! request)]"
    "b_allocated b2 = b_allocated ?b1"
    by (simp_all add: b2_def update_request_def)
  have pre: "cb_rows x' \<noteq> []" "cb_reason x' = NoReason" "cb_timer x'" "cb_addr x' < b_allocated b2"
    "config_ok (b_config b2)" "list_all (batch_ok (MaxRowsPerBatch (b_config b2))) (b_queue b2)"
    "0 < MaxRowsPerBatch (b_config b2) \<longrightarrow> int (length (cb_rows x')) \<le> MaxRowsPerBatch (b_config b2)"
    using rows m x(2-4) b2 ok len by (simp_all add: x'_def batcher_ok_def)
  have st: "batcher_ok (settle_full x' b2)" "rows_of (waiting (settle_full x' b2)) = rows_of (b_queue b) @ cb_rows x'"
    "parts_of (waiting (settle_full x' b2)) = parts_of (b_queue b) @ cb_requests x'"
    "b_config (settle_full x' b2) = b_config b" "b_inFlight (settle_full x' b2) = b_inFlight b"
    "b_pending (settle_full x' b2) = b_pending b" "b_requests (settle_full x' b2) = b_requests b2"
    "\<And>owner. list_all (owned owner) (waiting (settle_full x' b2)) \<longleftrightarrow> list_all (owned owner) (b_queue b) \<and> owned owner x'"
    using settle_full_ok [OF b2(1) pre] unfolding b2 by blast+
  have "list_all (owned owner) (waiting (settle_full x' b2))"
    if "\<forall>y \<in> set (take (Suc n) rows). owner y = request" "list_all (owned owner) (waiting b)" for owner
    using that x(8) [of owner] st(8) [of owner] n by (auto simp: waiting_def x'_def owned_def)
  then have "appended request 1 (take (Suc n) rows) b (settle_full x' b2)"
    unfolding appended_def st using st(1) b2(6) x(5,6) n by (simp add: waiting_def x'_def)
  with turn show ?thesis by blast
qed

lemma addPart_pow: "(addPart ^^ k) r = r\<lparr>rq_pendingParts := rq_pendingParts r + int k\<rparr>"
  by (induction k) (simp_all add: addPart_def)

lemma appended_trans:
  assumes "appended request k rows b b1" and "appended request l rows' b1 b2" and "request < length (b_requests b)"
  shows "appended request (k + l) (rows @ rows') b b2"
  using assms by (auto simp: appended_def replicate_mset_sum addPart_pow add.assoc)

text \<open>The loop ends, without a panic, and has added all rows as at least one part.\<close>

lemma appendRequestLocked_ok:
  assumes "batcher_ok b" and "request < length (b_requests b)"
  shows "\<exists>b' k. appendRequestLocked ctx now request rows b = Some b' \<and> appended request k rows b b'
    \<and> (rows \<noteq> [] \<longrightarrow> 0 < k)"
  using assms
proof (induction rows arbitrary: b rule: length_induct)
  case (1 rows)
  show ?case
  proof (cases "rows = []")
    case True
    have "appended request 0 [] b b" using 1 by (simp add: appended_def)
    then show ?thesis using True by (auto simp: appendRequestLocked.simps [of ctx now request "[]"])
  next
    case False
    from append_turn_ok [OF 1(2) False 1(3), of ctx now] obtain n b1 where
      t: "append_turn ctx now request rows b = Some (drop (Suc n) rows, b1)"
        "appended request 1 (take (Suc n) rows) b b1" by blast
    have l: "length (drop (Suc n) rows) < length rows" using False by (cases rows) auto
    have "batcher_ok b1" "request < length (b_requests b1)" using t(2) 1(3) by (auto simp: appended_def)
    with 1(1) l obtain b' k where b': "appendRequestLocked ctx now request (drop (Suc n) rows) b1 = Some b'"
      "appended request k (drop (Suc n) rows) b1 b'" by blast
    have "appended request (1 + k) (take (Suc n) rows @ drop (Suc n) rows) b b'"
      by (rule appended_trans [OF t(2) b'(2) 1(3)])
    then have "appended request (Suc k) rows b b'" by simp
    moreover have "appendRequestLocked ctx now request rows b = Some b'"
      using False t(1) b'(1) by (simp add: appendRequestLocked.simps [of ctx now request rows])
    ultimately show ?thesis by blast
  qed
qed

section \<open>Scheduling\<close>

lemma merge_linger_ok:
  assumes "merge_linger bound x q = (y, q')" and "cb_reason x = CopyBatchFlushReasonLinger"
  shows "rows_of (y # q') = rows_of (x # q) \<and> parts_of (y # q') = parts_of (x # q)
    \<and> (list_all (batch_ok bound) (x # q) \<longrightarrow> list_all (batch_ok bound) (y # q'))
    \<and> (list_all (owned owner) (x # q) \<longrightarrow> list_all (owned owner) (y # q')) \<and> length q' \<le> length q"
  using assms
proof (induction bound x q rule: merge_linger.induct)
  case (1 bound x)
  then show ?case by simp
next
  case (2 bound x z q)
  show ?case
  proof (cases "cb_reason z \<noteq> CopyBatchFlushReasonLinger \<or>
      (bound > 0 \<and> int (length (cb_rows x)) + int (length (cb_rows z)) > bound)")
    case True
    then show ?thesis using 2(2) by (auto split: if_splits)
  next
    case False
    let ?x = "x\<lparr>cb_rows := cb_rows x @ cb_rows z, cb_requests := cb_requests x @ cb_requests z\<rparr>"
    have "merge_linger bound ?x q = (y, q')" using 2(2) False by (simp split: if_splits)
    then have IH: "rows_of (y # q') = rows_of (?x # q) \<and> parts_of (y # q') = parts_of (?x # q)
      \<and> (list_all (batch_ok bound) (?x # q) \<longrightarrow> list_all (batch_ok bound) (y # q'))
      \<and> (list_all (owned owner) (?x # q) \<longrightarrow> list_all (owned owner) (y # q')) \<and> length q' \<le> length q"
      using 2(1,3) False by simp
    moreover have "batch_ok bound ?x" if "batch_ok bound x" using that False 2(3) by (auto simp: batch_ok_def)
    moreover have "owned owner ?x" if "owned owner x" "owned owner z" using that by (auto simp: owned_def)
    ultimately show ?thesis by auto
  qed
qed

lemma dequeueLocked_ok:
  assumes "dequeueLocked bound x q = (y, q')"
  shows "rows_of (y # q') = rows_of (x # q) \<and> parts_of (y # q') = parts_of (x # q)
    \<and> (list_all (batch_ok bound) (x # q) \<longrightarrow> list_all (batch_ok bound) (y # q'))
    \<and> (list_all (owned owner) (x # q) \<longrightarrow> list_all (owned owner) (y # q')) \<and> length q' \<le> length q"
  using assms merge_linger_ok [of bound x q y q' owner] by (auto simp: dequeueLocked_def split: if_splits)

lemma schedule_loop_ok:
  assumes "schedule_loop bound n q = (bs, q')"
  shows "rows_of (bs @ q') = rows_of q \<and> parts_of (bs @ q') = parts_of q
    \<and> (list_all (batch_ok bound) q \<longrightarrow> list_all (batch_ok bound) (bs @ q'))
    \<and> (list_all (owned owner) q \<longrightarrow> list_all (owned owner) (bs @ q'))
    \<and> length bs \<le> n \<and> (q' \<noteq> [] \<longrightarrow> length bs = n) \<and> length bs + length q' \<le> length q"
  using assms
proof (induction bound n q arbitrary: bs q' rule: schedule_loop.induct)
  case (3 bound n x q)
  obtain y q1 where d: "dequeueLocked bound x q = (y, q1)" by fastforce
  obtain cs q2 where l: "schedule_loop bound n q1 = (cs, q2)" by fastforce
  note ok = dequeueLocked_ok [OF d, of owner] and IH = "3.IH" [OF d [symmetric] l]
  from 3(2) d l have "bs = y # cs" "q' = q2" by simp_all
  with ok IH show ?case by auto
qed auto

text \<open>What scheduling moves out of the queue, and that it leaves no free capacity with a queue.\<close>

definition scheduled ::
  "('c, 'a) copyBatcher \<Rightarrow> ('c, 'a) copyBatch list \<Rightarrow> ('c, 'a) copyBatcher \<Rightarrow> bool" where
  "scheduled b bs b' \<longleftrightarrow>
     b' = b\<lparr>b_queue := b_queue b', b_inFlight := b_inFlight b + int (length bs)\<rparr> \<and>
     rows_of (bs @ b_queue b') = rows_of (b_queue b) \<and> parts_of (bs @ b_queue b') = parts_of (b_queue b) \<and>
     (\<forall>bound. bound = MaxRowsPerBatch (b_config b) \<longrightarrow> list_all (batch_ok bound) (b_queue b) \<longrightarrow>
        list_all (batch_ok bound) (bs @ b_queue b')) \<and>
     (\<forall>owner. list_all (owned owner) (b_queue b) \<longrightarrow> list_all (owned owner) (bs @ b_queue b')) \<and>
     length bs + length (b_queue b') \<le> length (b_queue b) \<and>
     (b_inFlight b \<le> MaxConcurrentBatches (b_config b) \<longrightarrow> b_inFlight b' \<le> MaxConcurrentBatches (b_config b) \<and>
        (b_queue b' \<noteq> [] \<longrightarrow> b_inFlight b' = MaxConcurrentBatches (b_config b)))"

lemma scheduleLocked_scheduled:
  assumes "scheduleLocked b = (bs, b')"
  shows "scheduled b bs b'"
proof (cases "MaxConcurrentBatches (b_config b) - b_inFlight b \<le> 0 \<or> b_queue b = []")
  case True
  with assms show ?thesis by (auto simp: scheduleLocked_def scheduled_def)
next
  case False
  obtain cs q where l: "schedule_loop (MaxRowsPerBatch (b_config b))
      (nat (MaxConcurrentBatches (b_config b) - b_inFlight b)) (b_queue b) = (cs, q)" by fastforce
  with assms False have "bs = cs" "b' = b\<lparr>b_queue := q, b_inFlight := b_inFlight b + int (length cs)\<rparr>"
    by (auto simp: scheduleLocked_def Let_def)
  moreover have "int (length cs) \<le> MaxConcurrentBatches (b_config b) - b_inFlight b"
    "q \<noteq> [] \<longrightarrow> int (length cs) = MaxConcurrentBatches (b_config b) - b_inFlight b"
    using schedule_loop_ok [OF l, of undefined] False by auto
  ultimately show ?thesis using schedule_loop_ok [OF l] by (simp add: scheduled_def)
qed

section \<open>Accepting a submission\<close>

text \<open>The state between accepting a request and scheduling: it has \<open>k\<close> parts, and its rows wait.\<close>

definition taken ::
  "bool \<Rightarrow> nat \<Rightarrow> 'a list \<Rightarrow> ('c, 'a) copyBatcher \<Rightarrow> ('c, 'a) copyBatcher \<Rightarrow> bool" where
  "taken coalesce k rows b b' \<longleftrightarrow>
     batcher_ok b' \<and> 0 < k \<and> b_config b' = b_config b \<and> b_inFlight b' = b_inFlight b \<and>
     b_pending b' = insert (length (b_requests b)) (b_pending b) \<and>
     b_requests b' = b_requests b @ [(newCopyRequest (int (length rows)))\<lparr>rq_pendingParts := int k\<rparr>] \<and>
     mset (rows_of (waiting b')) = mset (rows_of (waiting b)) + mset rows \<and>
     (coalesce \<longrightarrow> rows_of (waiting b') = rows_of (waiting b) @ rows) \<and>
     mset (parts_of (waiting b')) = mset (parts_of (waiting b)) + replicate_mset k (length (b_requests b)) \<and>
     (\<forall>owner. (\<forall>y \<in> set rows. owner y = length (b_requests b)) \<longrightarrow> list_all (owned owner) (waiting b) \<longrightarrow>
        list_all (owned owner) (waiting b'))"

lemma batcher_ok_more [simp]:
  "batcher_ok (b\<lparr>b_pending := p\<rparr>) = batcher_ok b" "batcher_ok (b\<lparr>b_requests := q\<rparr>) = batcher_ok b"
  "batcher_ok (b\<lparr>b_inFlight := i\<rparr>) = batcher_ok b"
  "waiting (b\<lparr>b_pending := p\<rparr>) = waiting b" "waiting (b\<lparr>b_requests := q\<rparr>) = waiting b"
  "waiting (b\<lparr>b_inFlight := i\<rparr>) = waiting b"
  by (simp_all add: batcher_ok_def active_ok_def waiting_def active_list_def split: option.split)

lemma appended_taken:
  assumes "appended request k rows (b\<lparr>b_requests := b_requests b @ [newCopyRequest (int (length rows))],
      b_pending := insert request (b_pending b)\<rparr>) b'"
    and "request = length (b_requests b)" and "0 < k"
  shows "taken True k rows b b'"
  using assms by (simp add: appended_def taken_def addPart_pow newCopyRequest_def)

lemma unbatched_taken:
  assumes "batcher_ok b" and "rows \<noteq> []" and "request = length (b_requests b)"
  shows "taken False 1 rows b (enqueueUnbatchedLocked ctx now request rows
    (b\<lparr>b_requests := b_requests b @ [newCopyRequest (int (length rows))], b_pending := insert request (b_pending b)\<rparr>))"
  using assms
  by (auto simp: taken_def enqueueUnbatchedLocked_def enqueueLocked_def update_request_def waiting_def active_list_def
      batcher_ok_def active_ok_def batch_ok_def addPart_def newCopyRequest_def owned_def split: option.split)

text \<open>
  A submission returns for every input: an error of the context or an empty slice settles it at once,
  and otherwise the request is accepted.
\<close>

lemma submit_cases:
  assumes "batcher_ok b"
  obtains (settled) f where "submit ctx now err1 err2 rows coalesce b = Some (Settled (Some f), [], b)"
      "rows = [] \<and> f = (0, None) \<or> (\<exists>e. (err1 = Some e \<or> err1 = None \<and> err2 = Some e) \<and> f = (0, Some e))"
  | (accepted) bs b1 b' k where "submit ctx now err1 err2 rows coalesce b = Some (Accepted (length (b_requests b)), bs, b')"
      "rows \<noteq> []" "err1 = None" "err2 = None" "taken coalesce k rows b b1" "scheduled b1 bs b'"
proof (cases "rows = [] \<or> err1 \<noteq> None \<or> err2 \<noteq> None")
  case True
  then show ?thesis
    by (intro settled [of "if rows = [] then (0, None) else (0, Some (case err1 of Some e \<Rightarrow> e | None \<Rightarrow> the err2))"])
      (auto simp: submit_def ResolvedFuture_def newFuture_def newCopyRequest_def split: option.split)
next
  case False
  let ?r = "length (b_requests b)"
  let ?b = "b\<lparr>b_requests := b_requests b @ [newCopyRequest (int (length rows))], b_pending := insert ?r (b_pending b)\<rparr>"
  obtain b1 k where b1: "(if coalesce then appendRequestLocked ctx now ?r rows ?b
      else Some (enqueueUnbatchedLocked ctx now ?r rows ?b)) = Some b1" "taken coalesce k rows b b1"
  proof (cases coalesce)
    case True
    from appendRequestLocked_ok [of ?b ?r ctx now rows] assms obtain b1 k where
      a: "appendRequestLocked ctx now ?r rows ?b = Some b1" "appended ?r k rows ?b b1" "0 < k"
      using False by auto
    show ?thesis using True a(1) appended_taken [OF a(2) refl a(3)] by (intro that [of b1 k]) simp_all
  next
    case c: False
    with unbatched_taken [OF assms _ refl, of rows ctx now] False that show ?thesis by simp
  qed
  obtain bs b' where "scheduleLocked b1 = (bs, b')" by fastforce
  with b1 False have "submit ctx now err1 err2 rows coalesce b = Some (Accepted ?r, bs, b')" "scheduled b1 bs b'"
    using scheduleLocked_scheduled by (simp_all add: submit_def Let_def split: if_splits)
  with b1 False show ?thesis by (intro accepted) auto
qed

text \<open>Detaching the active batch into the queue keeps the waiting rows and parts.\<close>

lemma detach_ok:
  assumes "batcher_ok b" and "b_active b = Some x" and "reason \<noteq> NoReason" and "reason \<noteq> CopyBatchFlushReasonUnbatched"
    and "b1 = enqueueLocked (Some (x\<lparr>cb_timer := False, cb_reason := reason\<rparr>)) (b\<lparr>b_active := None\<rparr>)"
  shows "batcher_ok b1 \<and> b_active b1 = None \<and> b_config b1 = b_config b \<and> b_inFlight b1 = b_inFlight b \<and>
    b_pending b1 = b_pending b \<and> b_requests b1 = b_requests b \<and> rows_of (waiting b1) = rows_of (waiting b) \<and>
    parts_of (waiting b1) = parts_of (waiting b) \<and>
    (list_all (owned owner) (waiting b1) \<longleftrightarrow> list_all (owned owner) (waiting b))"
  using assms
  by (auto simp: batcher_ok_def active_ok_def batch_ok_def enqueueLocked_def waiting_def active_list_def owned_def)

end
