(* ===== verification/Query_Telemetry.thy ===== *)
theory Query_Telemetry
  imports Mesh_Telemetry Replica_Set Copy_Batch
begin

text \<open>
  The spans, metrics and logs of a query (\<^verbatim>\<open>telemetry.go\<close>, lines 60--128, 144--195 and 332--729). The
  OpenTelemetry SDK and \<^verbatim>\<open>log/slog\<close> only receive what the code hands them, so a run is the list of
  the calls made on them. A context carries its current span and the execution state put into it;
  \<open>ErrorType\<close> is the attribute that \<^verbatim>\<open>semconv.ErrorType\<close> gives for an error, and \<open>enabled\<close> says whether
  a logger records debug messages. \<open>None\<close> is the panic of a call on a nil instrument or tracer.
\<close>

section \<open>Attributes\<close>

definition AttributeStoreName :: string where "AttributeStoreName = ''pgmesh.store.name''"
definition AttributeQueryName :: string where "AttributeQueryName = ''pgmesh.query.name''"
definition AttributeQueryKind :: string where "AttributeQueryKind = ''pgmesh.query.kind''"
definition AttributeReplicaSetName :: string where "AttributeReplicaSetName = ''pgmesh.replica_set.name''"
definition AttributeVirtualShardIndex :: string where "AttributeVirtualShardIndex = ''pgmesh.virtual_shard.index''"
definition AttributeNodeName :: string where "AttributeNodeName = ''pgmesh.node.name''"
definition AttributeNodeRole :: string where "AttributeNodeRole = ''pgmesh.node.role''"
definition AttributeRouteMode :: string where "AttributeRouteMode = ''pgmesh.route.mode''"
definition AttributeRouteScope :: string where "AttributeRouteScope = ''pgmesh.route.scope''"
definition AttributeRouteReplicaSetCount :: string where
  "AttributeRouteReplicaSetCount = ''pgmesh.route.replica_set_count''"
definition AttributeStoreDelegated :: string where "AttributeStoreDelegated = ''pgmesh.store.delegated''"
definition AttributeCopyBatchFlushReason :: string where
  "AttributeCopyBatchFlushReason = ''pgmesh.copy.batch.flush_reason''"

lemmas attribute_defs = AttributeStoreName_def AttributeQueryName_def AttributeQueryKind_def
  AttributeReplicaSetName_def AttributeVirtualShardIndex_def AttributeNodeName_def AttributeNodeRole_def
  AttributeRouteMode_def AttributeRouteScope_def AttributeRouteReplicaSetCount_def AttributeStoreDelegated_def
  AttributeCopyBatchFlushReason_def

datatype queryKind = QueryKindRead | QueryKindWrite

fun queryKind_text :: "queryKind \<Rightarrow> string" where
  "queryKind_text QueryKindRead = ''read''"
| "queryKind_text QueryKindWrite = ''write''"

datatype routeMode = RouteModeRead | RouteModePrimary | RouteModeTransaction | RouteModeUnresolved

fun routeMode_text :: "routeMode \<Rightarrow> string" where
  "routeMode_text RouteModeRead = ''read''"
| "routeMode_text RouteModePrimary = ''primary''"
| "routeMode_text RouteModeTransaction = ''transaction''"
| "routeMode_text RouteModeUnresolved = ''unresolved''"

datatype routeScope = RouteScopeSingle | RouteScopeFanout | RouteScopeUnresolved

fun routeScope_text :: "routeScope \<Rightarrow> string" where
  "routeScope_text RouteScopeSingle = ''single''"
| "routeScope_text RouteScopeFanout = ''fanout''"
| "routeScope_text RouteScopeUnresolved = ''unresolved''"

fun flushReason_text :: "flushReason \<Rightarrow> string" where
  "flushReason_text NoReason = ''''"
| "flushReason_text CopyBatchFlushReasonFull = ''full''"
| "flushReason_text CopyBatchFlushReasonLinger = ''linger''"
| "flushReason_text CopyBatchFlushReasonManual = ''manual''"
| "flushReason_text CopyBatchFlushReasonUnbatched = ''unbatched''"

section \<open>The recording world\<close>

datatype attrValue = StringValue string | IntValue int | BoolValue bool | DurationValue int | ErrorValue go_error

type_synonym attr = "string \<times> attrValue"

datatype 'mp tel_event =
    SpanStarted nat string "attr list"
  | SpanAttributes nat "attr list"
  | SpanError nat go_error
  | SpanStatus nat go_error
  | SpanEnded nat
  | Recorded "'mp instrument" int "attr list"
  | Added "'mp instrument" int "attr list"
  | Logged string "attr list"

text \<open>The calls so far, the number of spans, and the execution states: the owning mesh and the flag.\<close>

record 'mp tel_world =
  w_events :: "'mp tel_event list"
  w_spans :: nat
  w_executions :: "(nat \<times> bool) list"

record tel_context =
  x_span :: "nat option"
  x_execution :: "nat option"

definition emit :: "'mp tel_event list \<Rightarrow> 'mp tel_world \<Rightarrow> 'mp tel_world" where
  "emit es w = w\<lparr>w_events := w_events w @ es\<rparr>"

definition tracer_Start ::
  "'tp providerRef option \<Rightarrow> tel_context \<Rightarrow> string \<Rightarrow> attr list \<Rightarrow> 'mp tel_world \<Rightarrow>
   (tel_context \<times> nat \<times> 'mp tel_world) option" where
  "tracer_Start tr ctx name attributes w =
     (case tr of None \<Rightarrow> None
      | Some _ \<Rightarrow> Some (ctx\<lparr>x_span := Some (w_spans w)\<rparr>, w_spans w,
                  emit [SpanStarted (w_spans w) name attributes] (w\<lparr>w_spans := Suc (w_spans w)\<rparr>)))"

definition use_instrument ::
  "'mp instrument option \<Rightarrow> ('mp instrument \<Rightarrow> 'mp tel_event) \<Rightarrow> 'mp tel_world \<Rightarrow> 'mp tel_world option" where
  "use_instrument i f w = map_option (\<lambda>i. emit [f i] w) i"

definition log_debug ::
  "('lg \<Rightarrow> bool) \<Rightarrow> 'lg option \<Rightarrow> string \<Rightarrow> attr list \<Rightarrow> 'mp tel_world \<Rightarrow> 'mp tel_world" where
  "log_debug enabled lg message attributes w =
     (case lg of None \<Rightarrow> w | Some l \<Rightarrow> if enabled l then emit [Logged message attributes] w else w)"

text \<open>The three calls that put an error on a span.\<close>

definition span_failure :: "(go_error \<Rightarrow> attr) \<Rightarrow> nat \<Rightarrow> go_error option \<Rightarrow> 'mp tel_world \<Rightarrow> 'mp tel_world" where
  "span_failure ErrorType span err w =
     (case err of None \<Rightarrow> w
      | Some e \<Rightarrow> emit [SpanError span e, SpanAttributes span [ErrorType e], SpanStatus span e] w)"

definition error_attr :: "(go_error \<Rightarrow> attr) \<Rightarrow> go_error option \<Rightarrow> attr list" where
  "error_attr ErrorType err = (case err of None \<Rightarrow> [] | Some e \<Rightarrow> [ErrorType e])"

definition completion_attrs :: "go_error option \<Rightarrow> int \<Rightarrow> attr list" where
  "completion_attrs err duration =
     [(''failed'', BoolValue (err \<noteq> None)), (''duration'', DurationValue duration)] @
     (case err of None \<Rightarrow> [] | Some e \<Rightarrow> [(''error'', ErrorValue e)])"

section \<open>Spans\<close>

definition query_attrs :: "string \<Rightarrow> string \<Rightarrow> queryKind \<Rightarrow> attr list" where
  "query_attrs storeName queryName kind =
     [(AttributeStoreName, StringValue storeName), (AttributeQueryName, StringValue queryName),
      (AttributeQueryKind, StringValue (queryKind_text kind))]"

definition query_log_attrs :: "string \<Rightarrow> string \<Rightarrow> queryKind \<Rightarrow> attr list" where
  "query_log_attrs storeName queryName kind =
     [(''store_name'', StringValue storeName), (''query_name'', StringValue queryName),
      (''query_kind'', StringValue (queryKind_text kind))]"

record ('mp, 'lg) storeQuerySpan =
  ss_span :: nat
  ss_storeDuration :: "'mp instrument option"
  ss_started :: int
  ss_attributes :: "attr list"
  ss_logger :: "'lg option"
  ss_logAttributes :: "attr list"
  ss_execution :: nat

definition StartStoreQuerySpan ::
  "nat \<Rightarrow> ('tp, 'mp, 'lg) meshTelemetry \<Rightarrow> int \<Rightarrow> tel_context \<Rightarrow> string \<Rightarrow> string \<Rightarrow> queryKind \<Rightarrow> 'mp tel_world \<Rightarrow>
   (tel_context \<times> ('mp, 'lg) storeQuerySpan \<times> 'mp tel_world) option" where
  "StartStoreQuerySpan m t now ctx storeName queryName kind w =
     (let attributes = query_attrs storeName queryName kind in
      map_option (\<lambda>(ctx1, span, w1).
        let execution = length (w_executions w1);
            ctx2 = ctx1\<lparr>x_execution := Some execution\<rparr>
        in (ctx2,
            \<lparr>ss_span = span, ss_storeDuration = storeDuration t, ss_started = now, ss_attributes = attributes,
             ss_logger = logger t, ss_logAttributes = query_log_attrs storeName queryName kind,
             ss_execution = execution\<rparr>,
            w1\<lparr>w_executions := w_executions w1 @ [(m, False)]\<rparr>))
        (tracer_Start (tracer t) ctx (''pgmesh.query.store.'' @ storeName @ ''.'' @ queryName) attributes w))"

record ('tp, 'mp, 'lg) logicalQuerySpan =
  ls_span :: nat
  ls_tracer :: "'tp providerRef option"
  ls_logicalDuration :: "'mp instrument option"
  ls_physicalDuration :: "'mp instrument option"
  ls_physicalInFlight :: "'mp instrument option"
  ls_started :: int
  ls_attributes :: "attr list"
  ls_storeName :: string
  ls_queryName :: string
  ls_kind :: queryKind
  ls_routeMode :: routeMode
  ls_routeScope :: routeScope
  ls_replicaSetCount :: int
  ls_logger :: "'lg option"
  ls_logAttributes :: "attr list"

text \<open>The execution state of the context is marked when it belongs to the same mesh.\<close>

definition mark_execution :: "nat \<Rightarrow> tel_context \<Rightarrow> 'mp tel_world \<Rightarrow> 'mp tel_world" where
  "mark_execution m ctx w =
     (case x_execution ctx of None \<Rightarrow> w
      | Some e \<Rightarrow> if fst (w_executions w ! e) = m
                  then w\<lparr>w_executions := (w_executions w)[e := (m, True)]\<rparr> else w)"

definition StartLogicalQuerySpan ::
  "nat \<Rightarrow> ('tp, 'mp, 'lg) meshTelemetry \<Rightarrow> int \<Rightarrow> tel_context \<Rightarrow> string \<Rightarrow> string \<Rightarrow> queryKind \<Rightarrow> 'mp tel_world \<Rightarrow>
   (tel_context \<times> ('tp, 'mp, 'lg) logicalQuerySpan \<times> 'mp tel_world) option" where
  "StartLogicalQuerySpan m t now ctx storeName queryName kind w =
     (let attributes = query_attrs storeName queryName kind @
            [(AttributeRouteMode, StringValue (routeMode_text RouteModeUnresolved)),
             (AttributeRouteScope, StringValue (routeScope_text RouteScopeUnresolved))]
      in map_option (\<lambda>(ctx1, span, w1).
        (ctx1,
         \<lparr>ls_span = span, ls_tracer = tracer t, ls_logicalDuration = logicalDuration t,
          ls_physicalDuration = physicalDuration t, ls_physicalInFlight = physicalInFlight t,
          ls_started = now, ls_attributes = take 3 attributes, ls_storeName = storeName, ls_queryName = queryName,
          ls_kind = kind, ls_routeMode = RouteModeUnresolved, ls_routeScope = RouteScopeUnresolved,
          ls_replicaSetCount = 0, ls_logger = logger t,
          ls_logAttributes = query_log_attrs storeName queryName kind\<rparr>, w1))
        (tracer_Start (tracer t) ctx (''pgmesh.query.logical.'' @ storeName @ ''.'' @ queryName) attributes
           (mark_execution m ctx w)))"

definition SetRoute ::
  "routeMode \<Rightarrow> int \<Rightarrow> ('tp, 'mp, 'lg) logicalQuerySpan \<Rightarrow> 'mp tel_world \<Rightarrow>
   ('tp, 'mp, 'lg) logicalQuerySpan \<times> 'mp tel_world" where
  "SetRoute mode replicaSetCount s w =
     (let scope = (if replicaSetCount > 1 then RouteScopeFanout else RouteScopeSingle)
      in (s\<lparr>ls_routeMode := mode, ls_routeScope := scope, ls_replicaSetCount := replicaSetCount\<rparr>,
          emit [SpanAttributes (ls_span s)
            [(AttributeRouteMode, StringValue (routeMode_text mode)),
             (AttributeRouteScope, StringValue (routeScope_text scope)),
             (AttributeRouteReplicaSetCount, IntValue replicaSetCount)]] w))"

record ('mp, 'lg) physicalQuerySpan =
  ps_span :: nat
  ps_physicalDuration :: "'mp instrument option"
  ps_physicalInFlight :: "'mp instrument option"
  ps_started :: int
  ps_metricAttributes :: "attr list"
  ps_logger :: "'lg option"
  ps_logAttributes :: "attr list"

definition physical_node :: "routeMetadata \<Rightarrow> routeMode \<Rightarrow> string \<times> nodeRole" where
  "physical_node r mode =
     (if mode = RouteModeTransaction then (''transaction'', NodeRoleTransaction) else (NodeName r, NodeRole r))"

definition shard_attr :: "string \<Rightarrow> routeMetadata \<Rightarrow> attr list" where
  "shard_attr key r =
     (if HasVirtualShard r then [(key, StringValue (Itoa (unat (VirtualShardIndex r))))] else [])"

definition physical_attrs :: "string \<Rightarrow> string \<Rightarrow> queryKind \<Rightarrow> routeMetadata \<Rightarrow> routeMode \<Rightarrow> attr list" where
  "physical_attrs storeName queryName kind r mode =
     query_attrs storeName queryName kind @
     [(AttributeReplicaSetName, StringValue (ReplicaSetName r)),
      (AttributeNodeName, StringValue (fst (physical_node r mode))),
      (AttributeNodeRole, StringValue (nodeRole_text (snd (physical_node r mode)))),
      (AttributeRouteMode, StringValue (routeMode_text mode))] @
     shard_attr AttributeVirtualShardIndex r"

definition physical_log_attrs :: "string \<Rightarrow> string \<Rightarrow> queryKind \<Rightarrow> routeMetadata \<Rightarrow> routeMode \<Rightarrow> attr list" where
  "physical_log_attrs storeName queryName kind r mode =
     query_log_attrs storeName queryName kind @
     [(''replica_set'', StringValue (ReplicaSetName r)),
      (''node'', StringValue (fst (physical_node r mode))),
      (''node_role'', StringValue (nodeRole_text (snd (physical_node r mode)))),
      (''route_mode'', StringValue (routeMode_text mode))] @
     shard_attr ''virtual_shard'' r"

definition startPhysicalQuerySpan ::
  "tel_context \<Rightarrow> 'tp providerRef option \<Rightarrow> 'mp instrument option \<Rightarrow> 'mp instrument option \<Rightarrow> 'lg option \<Rightarrow> int \<Rightarrow>
   string \<Rightarrow> string \<Rightarrow> queryKind \<Rightarrow> routeMetadata \<Rightarrow> routeMode \<Rightarrow> 'mp tel_world \<Rightarrow>
   (tel_context \<times> ('mp, 'lg) physicalQuerySpan \<times> 'mp tel_world) option" where
  "startPhysicalQuerySpan ctx tr duration inFlight lg now storeName queryName kind r mode w =
     (let metricAttributes = physical_attrs storeName queryName kind r mode in
      Option.bind (tracer_Start tr ctx (''pgmesh.query.physical.'' @ storeName @ ''.'' @ queryName) metricAttributes w)
        (\<lambda>(ctx1, span, w1).
      map_option (\<lambda>w2.
        (ctx1,
         \<lparr>ps_span = span, ps_physicalDuration = duration, ps_physicalInFlight = inFlight, ps_started = now,
          ps_metricAttributes = metricAttributes, ps_logger = lg,
          ps_logAttributes = physical_log_attrs storeName queryName kind r mode\<rparr>, w2))
        (use_instrument inFlight (\<lambda>i. Added i 1 metricAttributes) w1)))"

definition logical_StartPhysicalQuerySpan ::
  "tel_context \<Rightarrow> int \<Rightarrow> routeMetadata \<Rightarrow> routeMode \<Rightarrow> ('tp, 'mp, 'lg) logicalQuerySpan \<Rightarrow> 'mp tel_world \<Rightarrow>
   (tel_context \<times> ('mp, 'lg) physicalQuerySpan \<times> 'mp tel_world) option" where
  "logical_StartPhysicalQuerySpan ctx now r mode s w =
     startPhysicalQuerySpan ctx (ls_tracer s) (ls_physicalDuration s) (ls_physicalInFlight s) (ls_logger s) now
       (ls_storeName s) (ls_queryName s) (ls_kind s) r mode w"

definition mesh_StartPhysicalQuerySpan ::
  "('tp, 'mp, 'lg) meshTelemetry \<Rightarrow> tel_context \<Rightarrow> int \<Rightarrow> string \<Rightarrow> string \<Rightarrow> queryKind \<Rightarrow> routeMetadata \<Rightarrow> routeMode \<Rightarrow>
   'mp tel_world \<Rightarrow> (tel_context \<times> ('mp, 'lg) physicalQuerySpan \<times> 'mp tel_world) option" where
  "mesh_StartPhysicalQuerySpan t ctx now storeName queryName kind r mode w =
     startPhysicalQuerySpan ctx (tracer t) (physicalDuration t) (physicalInFlight t) (logger t) now
       storeName queryName kind r mode w"

section \<open>Ends\<close>

definition logical_End ::
  "(go_error \<Rightarrow> attr) \<Rightarrow> ('lg \<Rightarrow> bool) \<Rightarrow> int \<Rightarrow> go_error option \<Rightarrow> ('tp, 'mp, 'lg) logicalQuerySpan \<Rightarrow>
   'mp tel_world \<Rightarrow> 'mp tel_world option" where
  "logical_End ErrorType enabled now err s w =
     (let duration = now - ls_started s;
          metricAttributes = ls_attributes s @
            [(AttributeRouteMode, StringValue (routeMode_text (ls_routeMode s))),
             (AttributeRouteScope, StringValue (routeScope_text (ls_routeScope s)))] @ error_attr ErrorType err;
          w1 = span_failure ErrorType (ls_span s) err w
      in map_option (\<lambda>w2.
           emit [SpanEnded (ls_span s)] (log_debug enabled (ls_logger s) ''pgmesh logical query completed''
             (ls_logAttributes s @
              [(''route_mode'', StringValue (routeMode_text (ls_routeMode s))),
               (''route_scope'', StringValue (routeScope_text (ls_routeScope s))),
               (''replica_set_count'', IntValue (ls_replicaSetCount s))] @ completion_attrs err duration) w2))
         (use_instrument (ls_logicalDuration s) (\<lambda>i. Recorded i duration metricAttributes) w1))"

definition physical_End ::
  "(go_error \<Rightarrow> attr) \<Rightarrow> ('lg \<Rightarrow> bool) \<Rightarrow> int \<Rightarrow> go_error option \<Rightarrow> ('mp, 'lg) physicalQuerySpan \<Rightarrow>
   'mp tel_world \<Rightarrow> 'mp tel_world option" where
  "physical_End ErrorType enabled now err s w =
     (let duration = now - ps_started s;
          metricAttributes = ps_metricAttributes s @ error_attr ErrorType err
      in Option.bind (use_instrument (ps_physicalInFlight s) (\<lambda>i. Added i (- 1) (ps_metricAttributes s)) w) (\<lambda>w1.
         map_option (\<lambda>w2.
           emit [SpanEnded (ps_span s)] (log_debug enabled (ps_logger s) ''pgmesh physical query completed''
             (ps_logAttributes s @ completion_attrs err duration) w2))
         (use_instrument (ps_physicalDuration s) (\<lambda>i. Recorded i duration metricAttributes)
            (span_failure ErrorType (ps_span s) err w1))))"

definition store_End ::
  "(go_error \<Rightarrow> attr) \<Rightarrow> ('lg \<Rightarrow> bool) \<Rightarrow> int \<Rightarrow> go_error option \<Rightarrow> ('mp, 'lg) storeQuerySpan \<Rightarrow>
   'mp tel_world \<Rightarrow> 'mp tel_world option" where
  "store_End ErrorType enabled now err s w =
     (let duration = now - ss_started s;
          delegated = snd (w_executions w ! ss_execution s);
          delegatedAttribute = (AttributeStoreDelegated, BoolValue delegated);
          w1 = span_failure ErrorType (ss_span s) err (emit [SpanAttributes (ss_span s) [delegatedAttribute]] w);
          metricAttributes = ss_attributes s @ [delegatedAttribute] @ error_attr ErrorType err
      in map_option (\<lambda>w2.
           emit [SpanEnded (ss_span s)] (log_debug enabled (ss_logger s) ''pgmesh store query completed''
             (ss_logAttributes s @ [(''store_delegated'', BoolValue delegated)] @ completion_attrs err duration) w2))
         (use_instrument (ss_storeDuration s) (\<lambda>i. Recorded i duration metricAttributes) w1))"

text \<open>The observer of a COPY batcher: five measurements with the same attributes.\<close>

definition copy_batch_base_attrs :: "string \<Rightarrow> string \<Rightarrow> routeMetadata \<Rightarrow> attr list" where
  "copy_batch_base_attrs storeName queryName r =
     query_attrs storeName queryName QueryKindWrite @
     [(AttributeReplicaSetName, StringValue (ReplicaSetName r)),
      (AttributeNodeName, StringValue (NodeName r)),
      (AttributeNodeRole, StringValue (nodeRole_text (NodeRole r))),
      (AttributeRouteMode, StringValue (routeMode_text RouteModePrimary))] @
     shard_attr AttributeVirtualShardIndex r"

definition NewCopyBatchObserver ::
  "(go_error \<Rightarrow> attr) \<Rightarrow> ('tp, 'mp, 'lg) meshTelemetry \<Rightarrow> string \<Rightarrow> string \<Rightarrow> routeMetadata \<Rightarrow>
   copyBatchObservation \<Rightarrow> 'mp tel_world \<Rightarrow> 'mp tel_world option" where
  "NewCopyBatchObserver ErrorType t storeName queryName r obs w =
     (let attributes = copy_batch_base_attrs storeName queryName r @
            [(AttributeCopyBatchFlushReason, StringValue (flushReason_text (Reason obs)))] @
            error_attr ErrorType (Err obs)
      in Option.bind (use_instrument (copyBatchRows t) (\<lambda>i. Recorded i (RowCount obs) attributes) w) (\<lambda>w1.
         Option.bind (use_instrument (copyBatchSubmissions t) (\<lambda>i. Recorded i (SubmissionCount obs) attributes) w1) (\<lambda>w2.
         Option.bind (use_instrument (copyBatchFlushes t) (\<lambda>i. Added i 1 attributes) w2) (\<lambda>w3.
         Option.bind (use_instrument (copyBatchDuration t) (\<lambda>i. Recorded i (ExecutionDuration obs) attributes) w3) (\<lambda>w4.
         use_instrument (copyBatchQueueDuration t) (\<lambda>i. Recorded i (QueueDuration obs) attributes) w4)))))"

section \<open>Runs\<close>

text \<open>
  The telemetry of one mesh over time: the spans that are open and the world. Every call of the
  interface is a step; a span is ended at most once, as its documentation asks of callers.
\<close>

record ('tp, 'mp, 'lg) tel_state =
  t_world :: "'mp tel_world"
  t_store :: "('mp, 'lg) storeQuerySpan list"
  t_logical :: "('tp, 'mp, 'lg) logicalQuerySpan list"
  t_physical :: "('mp, 'lg) physicalQuerySpan list"

definition tel_initial :: "('tp, 'mp, 'lg) tel_state" where
  "tel_initial = \<lparr>t_world = \<lparr>w_events = [], w_spans = 0, w_executions = []\<rparr>, t_store = [], t_logical = [], t_physical = []\<rparr>"

inductive tel_run ::
  "(go_error \<Rightarrow> attr) \<Rightarrow> ('lg \<Rightarrow> bool) \<Rightarrow> nat \<Rightarrow> ('tp, 'mp, 'lg) meshTelemetry \<Rightarrow> ('tp, 'mp, 'lg) tel_state \<Rightarrow> bool"
  for ErrorType :: "go_error \<Rightarrow> attr" and enabled :: "'lg \<Rightarrow> bool" and m :: nat and t :: "('tp, 'mp, 'lg) meshTelemetry" where
  run_initial: "tel_run ErrorType enabled m t tel_initial"
| run_store: "tel_run ErrorType enabled m t s \<Longrightarrow>
    StartStoreQuerySpan m t now ctx storeName queryName kind (t_world s) = Some (ctx', x, w) \<Longrightarrow>
    tel_run ErrorType enabled m t (s\<lparr>t_world := w, t_store := t_store s @ [x]\<rparr>)"
| run_logical: "tel_run ErrorType enabled m t s \<Longrightarrow>
    StartLogicalQuerySpan m t now ctx storeName queryName kind (t_world s) = Some (ctx', l, w) \<Longrightarrow>
    tel_run ErrorType enabled m t (s\<lparr>t_world := w, t_logical := t_logical s @ [l]\<rparr>)"
| run_route: "tel_run ErrorType enabled m t s \<Longrightarrow> t_logical s = as @ l # bs \<Longrightarrow>
    SetRoute mode n l (t_world s) = (l', w) \<Longrightarrow>
    tel_run ErrorType enabled m t (s\<lparr>t_world := w, t_logical := as @ l' # bs\<rparr>)"
| run_physical: "tel_run ErrorType enabled m t s \<Longrightarrow> l \<in> set (t_logical s) \<Longrightarrow>
    logical_StartPhysicalQuerySpan ctx now r mode l (t_world s) = Some (ctx', p, w) \<Longrightarrow>
    tel_run ErrorType enabled m t (s\<lparr>t_world := w, t_physical := t_physical s @ [p]\<rparr>)"
| run_mesh_physical: "tel_run ErrorType enabled m t s \<Longrightarrow>
    mesh_StartPhysicalQuerySpan t ctx now storeName queryName kind r mode (t_world s) = Some (ctx', p, w) \<Longrightarrow>
    tel_run ErrorType enabled m t (s\<lparr>t_world := w, t_physical := t_physical s @ [p]\<rparr>)"
| run_logical_end: "tel_run ErrorType enabled m t s \<Longrightarrow> t_logical s = as @ l # bs \<Longrightarrow>
    logical_End ErrorType enabled now err l (t_world s) = Some w \<Longrightarrow>
    tel_run ErrorType enabled m t (s\<lparr>t_world := w, t_logical := as @ bs\<rparr>)"
| run_physical_end: "tel_run ErrorType enabled m t s \<Longrightarrow> t_physical s = as @ p # bs \<Longrightarrow>
    physical_End ErrorType enabled now err p (t_world s) = Some w \<Longrightarrow>
    tel_run ErrorType enabled m t (s\<lparr>t_world := w, t_physical := as @ bs\<rparr>)"
| run_store_end: "tel_run ErrorType enabled m t s \<Longrightarrow> t_store s = as @ x # bs \<Longrightarrow>
    store_End ErrorType enabled now err x (t_world s) = Some w \<Longrightarrow>
    tel_run ErrorType enabled m t (s\<lparr>t_world := w, t_store := as @ bs\<rparr>)"
| run_observe: "tel_run ErrorType enabled m t s \<Longrightarrow>
    NewCopyBatchObserver ErrorType t storeName queryName r obs (t_world s) = Some w \<Longrightarrow>
    tel_run ErrorType enabled m t (s\<lparr>t_world := w\<rparr>)"

section \<open>What a step adds to the world\<close>

lemmas telemetry_defs = StartStoreQuerySpan_def StartLogicalQuerySpan_def SetRoute_def
  logical_StartPhysicalQuerySpan_def mesh_StartPhysicalQuerySpan_def startPhysicalQuerySpan_def logical_End_def
  physical_End_def store_End_def NewCopyBatchObserver_def tracer_Start_def use_instrument_def emit_def Let_def

text \<open>The value an up-down counter has reached for a set of attributes.\<close>

fun counter_value :: "'mp instrument \<Rightarrow> attr list \<Rightarrow> 'mp tel_event list \<Rightarrow> int" where
  "counter_value i as [] = 0"
| "counter_value i as (Added j v bs # es) = (if i = j \<and> as = bs then v else 0) + counter_value i as es"
| "counter_value i as (e # es) = counter_value i as es"

lemma counter_value_append: "counter_value i as (es @ fs) = counter_value i as es + counter_value i as fs"
  by (induction i as es rule: counter_value.induct) auto

text \<open>The attributes of a measurement, if the event is one.\<close>

fun measured :: "'mp tel_event \<Rightarrow> attr list" where
  "measured (Recorded i v as) = as"
| "measured (Added i v as) = as"
| "measured e = []"

definition metric_keys :: "string set" where
  "metric_keys = {AttributeStoreName, AttributeQueryName, AttributeQueryKind, AttributeReplicaSetName,
     AttributeVirtualShardIndex, AttributeNodeName, AttributeNodeRole, AttributeRouteMode, AttributeRouteScope,
     AttributeStoreDelegated, AttributeCopyBatchFlushReason, ''error.type''}"

definition keys_ok :: "attr list \<Rightarrow> bool" where
  "keys_ok as \<longleftrightarrow> fst ` set as \<subseteq> metric_keys"

lemma keys_ok_append [simp]: "keys_ok (as @ bs) \<longleftrightarrow> keys_ok as \<and> keys_ok bs"
  by (auto simp: keys_ok_def)

lemma keys_ok_Nil [simp]: "keys_ok []"
  by (simp add: keys_ok_def)

lemma keys_ok_Cons [simp]: "keys_ok (a # as) \<longleftrightarrow> fst a \<in> metric_keys \<and> keys_ok as"
  by (simp add: keys_ok_def)

lemma metric_keys_member [simp]:
  "AttributeRouteMode \<in> metric_keys" "AttributeRouteScope \<in> metric_keys" "AttributeStoreDelegated \<in> metric_keys"
  "AttributeCopyBatchFlushReason \<in> metric_keys"
  by (simp_all add: metric_keys_def)

lemma keys_ok_attrs [simp]:
  "keys_ok (query_attrs a b k)" "keys_ok (physical_attrs a b k r mode)" "keys_ok (copy_batch_base_attrs a b r)"
  by (auto simp: keys_ok_def metric_keys_def query_attrs_def physical_attrs_def copy_batch_base_attrs_def shard_attr_def)

lemma keys_ok_error: "(\<And>e. fst (ErrorType e) = ''error.type'') \<Longrightarrow> keys_ok (error_attr ErrorType err)"
  by (auto simp: keys_ok_def metric_keys_def error_attr_def split: option.split)

text \<open>
  The invariant of a run: the open spans carry the instruments of the mesh, the in-flight counter is
  the number of open physical spans, and the attributes of every measurement have known keys.
\<close>

definition tel_inv :: "('tp, 'mp, 'lg) meshTelemetry \<Rightarrow> 'mp instrument \<Rightarrow> ('tp, 'mp, 'lg) tel_state \<Rightarrow> bool" where
  "tel_inv t i s \<longleftrightarrow>
     (\<forall>l \<in> set (t_logical s). ls_physicalInFlight l = Some i \<and> ls_logicalDuration l = logicalDuration t \<and> keys_ok (ls_attributes l)) \<and>
     (\<forall>x \<in> set (t_store s). keys_ok (ss_attributes x)) \<and>
     (\<forall>p \<in> set (t_physical s). ps_physicalInFlight p = Some i \<and> keys_ok (ps_metricAttributes p)) \<and>
     (\<forall>as. counter_value i as (w_events (t_world s)) = int (count (mset (map ps_metricAttributes (t_physical s))) as)) \<and>
     (\<forall>e \<in> set (w_events (t_world s)). keys_ok (measured e))"

text \<open>Events that neither measure with unknown keys nor touch the in-flight counter.\<close>

definition quiet :: "'mp instrument \<Rightarrow> 'mp tel_event list \<Rightarrow> bool" where
  "quiet i es \<longleftrightarrow> (\<forall>as. counter_value i as es = 0) \<and> (\<forall>e \<in> set es. keys_ok (measured e))"

lemma quiet_append [simp]: "quiet i es \<Longrightarrow> quiet i fs \<Longrightarrow> quiet i (es @ fs)"
  by (auto simp: quiet_def counter_value_append)

lemma quiet_simps [simp]:
  "quiet i []" "quiet i [SpanStarted n a as]" "quiet i [SpanAttributes n as]" "quiet i [SpanError n e]"
  "quiet i [SpanStatus n e]" "quiet i [SpanEnded n]" "quiet i [Logged a as]"
  "quiet i [Recorded j v as] \<longleftrightarrow> keys_ok as" "i \<noteq> j \<Longrightarrow> quiet i [Added j v as] \<longleftrightarrow> keys_ok as"
  by (auto simp: quiet_def)

text \<open>A step that only appends quiet events to the world.\<close>

definition quietly :: "'mp instrument \<Rightarrow> 'mp tel_world \<Rightarrow> 'mp tel_world \<Rightarrow> bool" where
  "quietly i w w' \<longleftrightarrow> (\<exists>es. w_events w' = w_events w @ es \<and> quiet i es)"

lemma quietly_refl [simp]: "quietly i w w"
  by (auto simp: quietly_def)

lemma quietly_trans: "quietly i w w1 \<Longrightarrow> quietly i w1 w2 \<Longrightarrow> quietly i w w2"
  unfolding quietly_def by (metis append_assoc quiet_append)

lemma quietly_emit [simp]: "quiet i es \<Longrightarrow> quietly i w (emit es w)"
  by (auto simp: quietly_def emit_def)

lemma quietly_log_debug [simp]: "quietly i w (log_debug enabled lg msg as w)"
  by (auto simp: log_debug_def split: option.split)

lemma quietly_span_failure [simp]: "quietly i w (span_failure ErrorType span err w)"
proof -
  have "quiet i ([SpanError span e] @ [SpanAttributes span [ErrorType e]] @ [SpanStatus span e])" for e
    by (intro quiet_append) simp_all
  then show ?thesis by (auto simp: span_failure_def split: option.split)
qed

lemma quietly_finish [simp]: "quietly i w (emit [SpanEnded n] (log_debug enabled lg msg as w))"
  by (rule quietly_trans [OF quietly_log_debug quietly_emit]) simp

lemma quietly_use_instrument:
  "use_instrument j f w = Some w' \<Longrightarrow> (\<And>x. j = Some x \<Longrightarrow> quiet i [f x]) \<Longrightarrow> quietly i w w'"
  by (auto simp: use_instrument_def)

lemma quietly_mark_execution [simp]: "quietly i w (mark_execution m ctx w)"
  by (auto simp: mark_execution_def quietly_def split: option.split)

lemma quietly_tracer_Start:
  "tracer_Start tr ctx name as w = Some (ctx', n, w') \<Longrightarrow> quietly i w w'"
  by (auto simp: tracer_Start_def quietly_def emit_def split: option.splits)

lemma tel_inv_quietly:
  assumes "tel_inv t i s" and "quietly i (t_world s) w"
  shows "(\<forall>as. counter_value i as (w_events w) = int (count (mset (map ps_metricAttributes (t_physical s))) as)) \<and>
    (\<forall>e \<in> set (w_events w). keys_ok (measured e))"
  using assms by (auto simp: tel_inv_def quietly_def quiet_def counter_value_append)

lemma StartStoreQuerySpan_quietly:
  assumes "StartStoreQuerySpan m t now ctx a b k w = Some (ctx', x, w')"
  shows "quietly i w w' \<and> keys_ok (ss_attributes x)"
proof -
  from assms obtain ctx1 n w1 where st: "tracer_Start (tracer t) ctx (''pgmesh.query.store.'' @ a @ ''.'' @ b) (query_attrs a b k) w = Some (ctx1, n, w1)"
    and w': "w' = w1\<lparr>w_executions := w_executions w1 @ [(m, False)]\<rparr>" and x: "ss_attributes x = query_attrs a b k"
    by (auto simp: StartStoreQuerySpan_def Let_def)
  from quietly_tracer_Start [OF st, of i] w' x show ?thesis by (simp add: quietly_def)
qed

lemma StartLogicalQuerySpan_quietly:
  assumes "StartLogicalQuerySpan m t now ctx a b k w = Some (ctx', l, w')"
  shows "quietly i w w' \<and> keys_ok (ls_attributes l) \<and> ls_physicalInFlight l = physicalInFlight t \<and>
    ls_logicalDuration l = logicalDuration t"
proof -
  let ?as = "query_attrs a b k @ [(AttributeRouteMode, StringValue (routeMode_text RouteModeUnresolved)),
             (AttributeRouteScope, StringValue (routeScope_text RouteScopeUnresolved))]"
  from assms obtain n where st: "tracer_Start (tracer t) ctx (''pgmesh.query.logical.'' @ a @ ''.'' @ b) ?as
      (mark_execution m ctx w) = Some (ctx', n, w')"
    and l: "ls_attributes l = query_attrs a b k" "ls_physicalInFlight l = physicalInFlight t" "ls_logicalDuration l = logicalDuration t"
    by (auto simp: StartLogicalQuerySpan_def Let_def query_attrs_def)
  have "quietly i (mark_execution m ctx w) w'" using quietly_tracer_Start [OF st] .
  with quietly_trans [OF quietly_mark_execution this] l show ?thesis by simp
qed

lemma SetRoute_quietly:
  assumes "SetRoute mode n l w = (l', w')"
  shows "quietly i w w' \<and> ls_attributes l' = ls_attributes l \<and> ls_physicalInFlight l' = ls_physicalInFlight l \<and>
    ls_logicalDuration l' = ls_logicalDuration l"
  using assms by (auto simp: SetRoute_def Let_def)

lemma logical_End_quietly:
  assumes "logical_End ErrorType enabled now err l w = Some w'" and "keys_ok (ls_attributes l)"
    and "\<And>e. fst (ErrorType e) = ''error.type''"
  shows "quietly i w w'"
proof -
  let ?w1 = "span_failure ErrorType (ls_span l) err w"
  from assms(1) obtain w2 where u: "use_instrument (ls_logicalDuration l) (\<lambda>j. Recorded j (now - ls_started l) (ls_attributes l @
        [(AttributeRouteMode, StringValue (routeMode_text (ls_routeMode l))),
         (AttributeRouteScope, StringValue (routeScope_text (ls_routeScope l)))] @ error_attr ErrorType err)) ?w1 = Some w2"
    and w': "quietly i w2 w'"
    by (auto simp: logical_End_def Let_def)
  have "quietly i ?w1 w2" using u by (rule quietly_use_instrument) (simp add: assms(2) keys_ok_error [OF assms(3)])
  from quietly_trans [OF quietly_trans [OF quietly_span_failure this] w'] show ?thesis .
qed

lemma store_End_quietly:
  assumes "store_End ErrorType enabled now err x w = Some w'" and "keys_ok (ss_attributes x)"
    and "\<And>e. fst (ErrorType e) = ''error.type''"
  shows "quietly i w w'"
proof -
  let ?d = "(AttributeStoreDelegated, BoolValue (snd (w_executions w ! ss_execution x)))"
  let ?w0 = "emit [SpanAttributes (ss_span x) [?d]] w"
  let ?w1 = "span_failure ErrorType (ss_span x) err ?w0"
  from assms(1) obtain w2 where u: "use_instrument (ss_storeDuration x) (\<lambda>j. Recorded j (now - ss_started x)
        (ss_attributes x @ [?d] @ error_attr ErrorType err)) ?w1 = Some w2" and w': "quietly i w2 w'"
    by (auto simp: store_End_def Let_def)
  have "quietly i ?w1 w2" using u by (rule quietly_use_instrument) (simp add: assms(2) keys_ok_error [OF assms(3)])
  note w0 = quietly_trans [OF quietly_trans [OF quietly_span_failure this] w']
  have "quietly i w ?w0" by simp
  from quietly_trans [OF this w0] show ?thesis .
qed

lemma observer_quietly:
  assumes "NewCopyBatchObserver ErrorType t a b r obs w = Some w'" and "instruments_from p t"
    and "\<And>e. fst (ErrorType e) = ''error.type''"
  shows "quietly (p, MetricPhysicalQueryInFlight) w w'"
proof -
  let ?i = "(p, MetricPhysicalQueryInFlight)"
  let ?as = "copy_batch_base_attrs a b r @ [(AttributeCopyBatchFlushReason, StringValue (flushReason_text (Reason obs)))] @
            error_attr ErrorType (Err obs)"
  have k: "keys_ok ?as" by (simp add: keys_ok_error [OF assms(3)])
  from assms(1) obtain w1 w2 w3 w4 where u:
    "use_instrument (copyBatchRows t) (\<lambda>i. Recorded i (RowCount obs) ?as) w = Some w1"
    "use_instrument (copyBatchSubmissions t) (\<lambda>i. Recorded i (SubmissionCount obs) ?as) w1 = Some w2"
    "use_instrument (copyBatchFlushes t) (\<lambda>i. Added i 1 ?as) w2 = Some w3"
    "use_instrument (copyBatchDuration t) (\<lambda>i. Recorded i (ExecutionDuration obs) ?as) w3 = Some w4"
    "use_instrument (copyBatchQueueDuration t) (\<lambda>i. Recorded i (QueueDuration obs) ?as) w4 = Some w'"
    by (auto simp: NewCopyBatchObserver_def Let_def bind_eq_Some_conv)
  have "copyBatchFlushes t = Some j \<Longrightarrow> quiet ?i [Added j 1 ?as]" for j
    using assms(2) k by (auto simp: instruments_from_def metric_name_defs)
  note q = quietly_use_instrument [OF u(3) this]
  have r: "quiet ?i [Recorded j v ?as]" for j v using k by simp
  note r1 = quietly_use_instrument [OF u(1) r] and r2 = quietly_use_instrument [OF u(2) r]
    and r4 = quietly_use_instrument [OF u(4) r] and r5 = quietly_use_instrument [OF u(5) r]
  from quietly_trans [OF quietly_trans [OF quietly_trans [OF quietly_trans [OF r1 r2] q] r4] r5] show ?thesis .
qed

text \<open>Starting a physical span adds one to its attributes' counter, ending it subtracts one.\<close>

lemma counter_quietly: "quietly i w w' \<Longrightarrow> counter_value i as (w_events w') = counter_value i as (w_events w)"
  by (auto simp: quietly_def quiet_def counter_value_append)

lemma measured_quietly:
  "quietly i w w' \<Longrightarrow> \<forall>e \<in> set (w_events w). keys_ok (measured e) \<Longrightarrow> \<forall>e \<in> set (w_events w'). keys_ok (measured e)"
  by (auto simp: quietly_def quiet_def)

lemma startPhysical_counts:
  assumes "startPhysicalQuerySpan ctx tr d (Some i) lg now a b k r mode w = Some (ctx', p, w')"
  shows "ps_physicalInFlight p = Some i \<and> ps_metricAttributes p = physical_attrs a b k r mode \<and>
    counter_value i as (w_events w') = counter_value i as (w_events w) + (if as = ps_metricAttributes p then 1 else 0) \<and>
    ((\<forall>e \<in> set (w_events w). keys_ok (measured e)) \<longrightarrow> (\<forall>e \<in> set (w_events w'). keys_ok (measured e)))"
proof -
  let ?as = "physical_attrs a b k r mode"
  from assms obtain n w1 where st: "tracer_Start tr ctx (''pgmesh.query.physical.'' @ a @ ''.'' @ b) ?as w = Some (ctx', n, w1)"
    and w': "w' = emit [Added i 1 ?as] w1" and p: "ps_physicalInFlight p = Some i" "ps_metricAttributes p = ?as"
    by (auto simp: startPhysicalQuerySpan_def Let_def bind_eq_Some_conv use_instrument_def)
  have q: "quietly i w w1" by (rule quietly_tracer_Start [OF st])
  show ?thesis using counter_quietly [OF q, of as] measured_quietly [OF q] w' p
    by (auto simp: emit_def counter_value_append)
qed

lemma physical_End_counts:
  assumes "physical_End ErrorType enabled now err p w = Some w'" and "ps_physicalInFlight p = Some i"
    and "keys_ok (ps_metricAttributes p)" and "\<And>e. fst (ErrorType e) = ''error.type''"
  shows "counter_value i as (w_events w') = counter_value i as (w_events w) - (if as = ps_metricAttributes p then 1 else 0) \<and>
    ((\<forall>e \<in> set (w_events w). keys_ok (measured e)) \<longrightarrow> (\<forall>e \<in> set (w_events w'). keys_ok (measured e)))"
proof -
  let ?w1 = "emit [Added i (- 1) (ps_metricAttributes p)] w"
  from assms(1,2) obtain w2 where u: "use_instrument (ps_physicalDuration p) (\<lambda>j. Recorded j (now - ps_started p)
        (ps_metricAttributes p @ error_attr ErrorType err)) (span_failure ErrorType (ps_span p) err ?w1) = Some w2"
    and w': "quietly i w2 w'"
    by (auto simp: physical_End_def Let_def bind_eq_Some_conv use_instrument_def [of "Some i"])
  have "quietly i (span_failure ErrorType (ps_span p) err ?w1) w2"
    using u by (rule quietly_use_instrument) (simp add: assms(3) keys_ok_error [OF assms(4)])
  from quietly_trans [OF quietly_trans [OF quietly_span_failure this] w'] have q: "quietly i ?w1 w'" .
  show ?thesis using counter_quietly [OF q, of as] measured_quietly [OF q] assms(3)
    by (auto simp: emit_def counter_value_append)
qed

lemma tel_inv_world:
  assumes "tel_inv t i s" and "quietly i (t_world s) w"
  shows "tel_inv t i (s\<lparr>t_world := w\<rparr>)"
  using assms tel_inv_quietly [OF assms] by (simp add: tel_inv_def)

lemma tel_run_inv:
  assumes "tel_run ErrorType enabled m t s" and ins: "instruments_from p t" and et: "\<And>e. fst (ErrorType e) = ''error.type''"
  shows "tel_inv t (p, MetricPhysicalQueryInFlight) s" (is "tel_inv t ?i s")
  using assms(1)
proof induction
  case run_initial
  then show ?case by (simp add: tel_inv_def tel_initial_def)
next
  case (run_store s now ctx storeName queryName kind ctx' x w)
  then show ?case using StartStoreQuerySpan_quietly [OF run_store(2)] tel_inv_quietly [of t ?i s w]
    by (auto simp: tel_inv_def)
next
  case (run_logical s now ctx storeName queryName kind ctx' l w)
  then show ?case using StartLogicalQuerySpan_quietly [OF run_logical(2)] tel_inv_quietly [of t ?i s w] ins
    by (auto simp: tel_inv_def instruments_from_def)
next
  case (run_route s as l bs mode n l' w)
  then show ?case using SetRoute_quietly [OF run_route(3)] tel_inv_quietly [of t ?i s w]
    by (auto simp: tel_inv_def)
next
  case (run_physical s l ctx now r mode ctx' q w)
  have "ls_physicalInFlight l = Some ?i" using run_physical(2,4) by (auto simp: tel_inv_def)
  with run_physical(3) have "startPhysicalQuerySpan ctx (ls_tracer l) (ls_physicalDuration l) (Some ?i) (ls_logger l) now
      (ls_storeName l) (ls_queryName l) (ls_kind l) r mode (t_world s) = Some (ctx', q, w)"
    by (simp add: logical_StartPhysicalQuerySpan_def)
  from startPhysical_counts [OF this] run_physical(4) show ?case by (simp add: tel_inv_def)
next
  case (run_mesh_physical s ctx now storeName queryName kind r mode ctx' q w)
  have "physicalInFlight t = Some ?i" using ins by (simp add: instruments_from_def)
  with run_mesh_physical(2) have "startPhysicalQuerySpan ctx (tracer t) (physicalDuration t) (Some ?i) (logger t) now
      storeName queryName kind r mode (t_world s) = Some (ctx', q, w)"
    by (simp add: mesh_StartPhysicalQuerySpan_def)
  from startPhysical_counts [OF this] run_mesh_physical(3) show ?case by (simp add: tel_inv_def)
next
  case (run_logical_end s as l bs now err w)
  have "keys_ok (ls_attributes l)" using run_logical_end(2,4) by (simp add: tel_inv_def)
  from logical_End_quietly [OF run_logical_end(3) this et] have q: "quietly ?i (t_world s) w" .
  from tel_inv_quietly [OF run_logical_end(4) q] run_logical_end(2,4) show ?case by (simp add: tel_inv_def)
next
  case (run_physical_end s as q bs now err w)
  have "ps_physicalInFlight q = Some ?i" "keys_ok (ps_metricAttributes q)" using run_physical_end(2,4) by (simp_all add: tel_inv_def)
  from physical_End_counts [OF run_physical_end(3) this et] run_physical_end(2,4) show ?case by (simp add: tel_inv_def)
next
  case (run_store_end s as x bs now err w)
  have "keys_ok (ss_attributes x)" using run_store_end(2,4) by (simp add: tel_inv_def)
  from store_End_quietly [OF run_store_end(3) this et] have q: "quietly ?i (t_world s) w" .
  from tel_inv_quietly [OF run_store_end(4) q] run_store_end(2,4) show ?case by (simp add: tel_inv_def)
next
  case (run_observe s storeName queryName r obs w)
  from observer_quietly [OF run_observe(2) ins et] run_observe(3) show ?case by (rule tel_inv_world [rotated])
qed

section \<open>Properties\<close>

text \<open>A mesh telemetry with the process-wide providers, and the error attribute of the SDK.\<close>

definition sample_telemetry :: "(unit, unit, unit) meshTelemetry" where
  "sample_telemetry = fst (newMeshTelemetry (\<lambda>_ _. None) None None)"

definition sample_error_type :: "go_error \<Rightarrow> attr" where
  "sample_error_type e = (''error.type'', StringValue ''error'')"

definition sample_route :: routeMetadata where
  "sample_route = \<lparr>VirtualShardIndex = 7, HasVirtualShard = True, ReplicaSetName = ''a'', NodeName = ''replica-0'',
     NodeRole = NodeRoleReadReplica\<rparr>"

lemma sample_telemetry_instruments: "instruments_from GlobalProvider sample_telemetry"
proof -
  obtain u where "newMeshTelemetry (\<lambda>_ _. None) None None = (sample_telemetry, u)" and "u = None"
    by (auto simp: sample_telemetry_def newMeshTelemetry_def setMeterProvider_def instrument_steps_def)
  then show ?thesis using newMeshTelemetry_success [of "\<lambda>_ _. None" None None sample_telemetry]
    by (simp add: provider_or_global_def)
qed

lemma sample_run:
  "\<exists>s. tel_run sample_error_type (\<lambda>_. True) 0 sample_telemetry s \<and>
    map ps_metricAttributes (t_physical s) = [physical_attrs ''Accounts'' ''Get'' QueryKindRead sample_route RouteModeRead]"
proof -
  have tr: "tracer sample_telemetry \<noteq> None" "physicalInFlight sample_telemetry \<noteq> None"
    by (simp_all add: sample_telemetry_def newMeshTelemetry_def setMeterProvider_def instrument_steps_def setTracerProvider_def)
  let ?s0 = "tel_initial :: (unit, unit, unit) tel_state"
  let ?w = "t_world ?s0"
  obtain ctx q w where q: "mesh_StartPhysicalQuerySpan sample_telemetry \<lparr>x_span = None, x_execution = None\<rparr> 0 ''Accounts'' ''Get''
      QueryKindRead sample_route RouteModeRead ?w = Some (ctx, q, w)"
    "ps_metricAttributes q = physical_attrs ''Accounts'' ''Get'' QueryKindRead sample_route RouteModeRead"
    using tr by (auto simp: mesh_StartPhysicalQuerySpan_def startPhysicalQuerySpan_def tracer_Start_def use_instrument_def Let_def)
  have "tel_run sample_error_type (\<lambda>_. True) 0 sample_telemetry (?s0\<lparr>t_world := w, t_physical := t_physical ?s0 @ [q]\<rparr>)"
    by (rule run_mesh_physical [OF run_initial q(1)])
  moreover have "map ps_metricAttributes (t_physical (?s0\<lparr>t_world := w, t_physical := t_physical ?s0 @ [q]\<rparr>)) =
      [physical_attrs ''Accounts'' ''Get'' QueryKindRead sample_route RouteModeRead]"
    using q(2) by (simp add: tel_initial_def)
  ultimately show ?thesis by (intro exI conjI)
qed

text \<open>
  C20: whatever queries a mesh has started and ended, in whatever order, the in-flight counter stands
  for every set of attributes at the number of physical spans with these attributes that are still
  open. It is never negative, and zero once all of them have ended.
\<close>

theorem inflight_counts_open_spans:
  assumes "tel_run ErrorType enabled m t s" and "instruments_from p t" and "\<And>e. fst (ErrorType e) = ''error.type''"
  shows "counter_value (p, MetricPhysicalQueryInFlight) as (w_events (t_world s)) =
    int (length (filter (\<lambda>q. ps_metricAttributes q = as) (t_physical s)))"
proof -
  have "count (mset (map ps_metricAttributes ps)) as = length (filter (\<lambda>q. ps_metricAttributes q = as) ps)" for ps
    by (induction ps) auto
  with tel_run_inv [OF assms] show ?thesis by (simp add: tel_inv_def)
qed

theorem inflight_counts_open_spans_witness:
  "\<exists>s. counter_value (GlobalProvider, MetricPhysicalQueryInFlight)
     (physical_attrs ''Accounts'' ''Get'' QueryKindRead sample_route RouteModeRead)
     (w_events (t_world (s :: (unit, unit, unit) tel_state))) = 1"
proof -
  obtain s where s: "tel_run sample_error_type (\<lambda>_. True) 0 sample_telemetry s"
    "map ps_metricAttributes (t_physical s) = [physical_attrs ''Accounts'' ''Get'' QueryKindRead sample_route RouteModeRead]"
    using sample_run by (elim exE conjE) (rule that)
  have "length (filter (\<lambda>q. ps_metricAttributes q = physical_attrs ''Accounts'' ''Get'' QueryKindRead sample_route RouteModeRead) (t_physical s)) = 1"
    using s(2) by auto
  moreover have "fst (sample_error_type e) = ''error.type''" for e by (simp add: sample_error_type_def)
  ultimately show ?thesis
    using inflight_counts_open_spans [OF s(1) sample_telemetry_instruments] by (intro exI [of _ s]) simp
qed

text \<open>
  C21: no measurement ever carries the number of replica sets of a route, which the code keeps out of
  the metrics to bound their cardinality; its attributes are among eleven fixed keys and the error
  type.
\<close>

theorem metrics_bounded_keys:
  assumes "tel_run ErrorType enabled m t s" and "instruments_from p t" and "\<And>e. fst (ErrorType e) = ''error.type''"
    and "e \<in> set (w_events (t_world s))"
  shows "fst ` set (measured e) \<subseteq> metric_keys \<and> AttributeRouteReplicaSetCount \<notin> fst ` set (measured e)"
proof -
  have "AttributeRouteReplicaSetCount \<notin> metric_keys" by (simp add: metric_keys_def attribute_defs)
  moreover have "fst ` set (measured e) \<subseteq> metric_keys"
    using tel_run_inv [OF assms(1-3)] assms(4) by (simp add: tel_inv_def keys_ok_def)
  ultimately show ?thesis by blast
qed

theorem metrics_bounded_keys_witness:
  "\<exists>s :: (unit, unit, unit) tel_state. t_physical s \<noteq> [] \<and>
     \<not> (\<exists>e. e \<in> set (w_events (t_world s)) \<and> AttributeRouteReplicaSetCount \<in> fst ` set (measured e))"
proof -
  obtain s where s: "tel_run sample_error_type (\<lambda>_. True) 0 sample_telemetry s" "t_physical s \<noteq> []"
    using sample_run by auto
  moreover have "fst (sample_error_type e) = ''error.type''" for e by (simp add: sample_error_type_def)
  ultimately show ?thesis
    using metrics_bounded_keys [OF s(1) sample_telemetry_instruments] by (intro exI [of _ s]) simp
qed

end
