(* ===== verification/Generated_Wrappers.thy ===== *)
theory Generated_Wrappers
  imports Replica_Set
begin

text \<open>
  The query wrappers that the sqlc plugin emits, as they stand in the sharded example
  (\<^verbatim>\<open>zz_generated_store_read.go\<close>, \<^verbatim>\<open>zz_generated_store_write.go\<close>, the first part of
  \<^verbatim>\<open>zz_generated_store.go\<close>, and \<^verbatim>\<open>zz_generated_db.go\<close>). The methods of one wrapper differ only in the
  query they run, so each is an instance of one definition. A database handle answers a query with
  a value and an error, and the answer may depend on all calls made before: it is the parameter
  \<open>answer\<close>, and a run keeps the list of its calls.
\<close>

section \<open>Queries\<close>

record 'd queries =
  db :: 'd

definition New :: "'d \<Rightarrow> 'd queries" where
  "New d = \<lparr>db = d\<rparr>"

definition Queries_WithTx :: "'d \<Rightarrow> 'd queries \<Rightarrow> 'd queries" where
  "Queries_WithTx transaction q = \<lparr>db = transaction\<rparr>"

record ('d, 'q, 'r) call =
  c_db :: 'd
  c_query :: 'q
  c_result :: "'r \<times> go_error option"

type_synonym ('d, 'q, 'r) answers = "('d, 'q, 'r) call list \<Rightarrow> 'd \<Rightarrow> 'q \<Rightarrow> 'r \<times> go_error option"

definition execute ::
  "('d, 'q, 'r) answers \<Rightarrow> 'd queries \<Rightarrow> 'q \<Rightarrow> ('d, 'q, 'r) call list \<Rightarrow>
   ('r \<times> go_error option) \<times> ('d, 'q, 'r) call list" where
  "execute answer q query cs =
     (let r = answer cs (db q) query in (r, cs @ [\<lparr>c_db = db q, c_query = query, c_result = r\<rparr>]))"

section \<open>Read queries\<close>

record 'd readQueries =
  rd_main :: "'d queries"

definition newReadQueries :: "'d queries \<Rightarrow> 'd readQueries" where
  "newReadQueries q = \<lparr>rd_main = q\<rparr>"

definition readQueries_WithTx :: "'d \<Rightarrow> 'd readQueries \<Rightarrow> 'd readQueries" where
  "readQueries_WithTx transaction q = newReadQueries (Queries_WithTx transaction (rd_main q))"

definition read_query ::
  "('d, 'q, 'r) answers \<Rightarrow> 'r \<Rightarrow> 'd readQueries \<Rightarrow> 'q \<Rightarrow> ('d, 'q, 'r) call list \<Rightarrow>
   ('r \<times> go_error option) \<times> ('d, 'q, 'r) call list" where
  "read_query answer zero q query cs =
     (case execute answer (rd_main q) query cs of
        ((rv0, Some e), cs') \<Rightarrow> ((zero, Some e), cs')
      | ((rv0, None), cs') \<Rightarrow> ((rv0, None), cs'))"

section \<open>Write queries\<close>

record 'd writeQueries =
  wr_main :: "'d queries"
  wr_mirrors :: "'d queries list"

definition newWriteQueries :: "'d queries \<Rightarrow> 'd queries list \<Rightarrow> 'd writeQueries" where
  "newWriteQueries q mirrors = \<lparr>wr_main = q, wr_mirrors = mirrors\<rparr>"

definition writeQueries_WithTx :: "'d \<Rightarrow> 'd writeQueries \<Rightarrow> 'd writeQueries" where
  "writeQueries_WithTx transaction q = newWriteQueries (Queries_WithTx transaction (wr_main q)) []"

text \<open>The loop that collects the mirrors of the wrappers that are not nil.\<close>

fun collect_mirrors :: "'d queries list \<Rightarrow> 'd writeQueries option list \<Rightarrow> 'd queries list" where
  "collect_mirrors mirrors [] = mirrors"
| "collect_mirrors mirrors (None # qs) = collect_mirrors mirrors qs"
| "collect_mirrors mirrors (Some m # qs) =
     collect_mirrors ((mirrors @ [wr_main m]) @ wr_mirrors m) qs"

definition writeQueries_WithMirrors ::
  "'d writeQueries \<Rightarrow> 'd writeQueries option list \<Rightarrow> 'd writeQueries" where
  "writeQueries_WithMirrors q qs = newWriteQueries (wr_main q) (collect_mirrors (wr_mirrors q) qs)"

text \<open>\<open>noRows\<close> is \<^verbatim>\<open>sql.ErrNoRows\<close>: a mirror without the row is skipped.\<close>

fun mirror ::
  "go_error \<Rightarrow> ('d queries \<Rightarrow> 's \<Rightarrow> go_error option \<times> 's) \<Rightarrow> 'd queries list \<Rightarrow> 's \<Rightarrow> go_error option \<times> 's"
  where
  "mirror noRows fn [] s = (None, s)"
| "mirror noRows fn (m # ms) s =
     (case fn m s of
        (None, s') \<Rightarrow> mirror noRows fn ms s'
      | (Some e, s') \<Rightarrow> if errors_is e noRows then mirror noRows fn ms s' else (Some e, s'))"

definition write_query ::
  "go_error \<Rightarrow> ('d, 'q, 'r) answers \<Rightarrow> 'r \<Rightarrow> 'd writeQueries \<Rightarrow> 'q \<Rightarrow> ('d, 'q, 'r) call list \<Rightarrow>
   ('r \<times> go_error option) \<times> ('d, 'q, 'r) call list" where
  "write_query noRows answer zero q query cs =
     (case execute answer (wr_main q) query cs of
        ((rv0, Some e), cs') \<Rightarrow> ((zero, Some e), cs')
      | ((rv0, None), cs') \<Rightarrow>
          (case mirror noRows (\<lambda>m cs. case execute answer m query cs of ((_, err), cs') \<Rightarrow> (err, cs'))
                  (wr_mirrors q) cs' of
             (mirrorErr, cs'') \<Rightarrow> ((rv0, mirrorErr), cs'')))"

section \<open>The query store\<close>

text \<open>
  A query store embeds a read and a write wrapper. It is only made by \<open>newQueryStore\<close>, which sets
  both, so a nil wrapper in the list of mirrors stands for a nil store and for a store without a
  write wrapper.
\<close>

record 'd queryStore =
  qs_read :: "'d readQueries"
  qs_write :: "'d writeQueries"

definition newQueryStore :: "'d queries \<Rightarrow> 'd queries list \<Rightarrow> 'd queryStore" where
  "newQueryStore q mirrors = \<lparr>qs_read = newReadQueries q, qs_write = newWriteQueries q mirrors\<rparr>"

definition queryStore_WithTx :: "'d \<Rightarrow> 'd queryStore \<Rightarrow> 'd queryStore" where
  "queryStore_WithTx transaction q = newQueryStore (Queries_WithTx transaction (wr_main (qs_write q))) []"

definition queryStore_WithMirrors :: "'d queryStore \<Rightarrow> 'd queryStore option list \<Rightarrow> 'd queryStore" where
  "queryStore_WithMirrors q qs =
     newQueryStore (wr_main (qs_write q)) (collect_mirrors (wr_mirrors (qs_write q)) (map (map_option qs_write) qs))"

definition newStoreNode :: "'d \<Rightarrow> ('d readQueries, 'd queryStore) node" where
  "newStoreNode database =
     (let queries = New database in NewNode (newReadQueries queries) (newQueryStore queries []))"

text \<open>The argument list as \<^verbatim>\<open>ReplicaSet\<close> passes it: writers that are not nil.\<close>

definition store_mirrors :: "'d queryStore \<Rightarrow> 'd queryStore list \<Rightarrow> 'd queryStore" where
  "store_mirrors q qs = queryStore_WithMirrors q (map Some qs)"

section \<open>Options of one call\<close>

record 'd queryOptions =
  opt_primary :: bool
  opt_tx :: "'d option"

definition ReadFromPrimary :: "'d queryOptions \<Rightarrow> 'd queryOptions" where
  "ReadFromPrimary options = options\<lparr>opt_primary := True\<rparr>"

definition WithTx :: "'d option \<Rightarrow> 'd queryOptions \<Rightarrow> 'd queryOptions" where
  "WithTx transaction options = options\<lparr>opt_tx := transaction\<rparr>"

definition applyQueryOptions :: "('d queryOptions \<Rightarrow> 'd queryOptions) option list \<Rightarrow> 'd queryOptions" where
  "applyQueryOptions options =
     foldl (\<lambda>result opt. case opt of None \<Rightarrow> result | Some f \<Rightarrow> f result) \<lparr>opt_primary = False, opt_tx = None\<rparr> options"

section \<open>The row source of a COPY\<close>

text \<open>
  The iterator that sqlc emits for a COPY. The driver calls \<^verbatim>\<open>Next\<close> and, as long as it returns true,
  \<^verbatim>\<open>Values\<close>; \<open>None\<close> is the panic of an index out of range.
\<close>

record 'a copyIterator =
  it_rows :: "'a list"
  it_skippedFirstNextCall :: bool

definition iterator_Next :: "'a copyIterator \<Rightarrow> bool \<times> 'a copyIterator" where
  "iterator_Next r =
     (if it_rows r = [] then (False, r)
      else if \<not> it_skippedFirstNextCall r then (True, r\<lparr>it_skippedFirstNextCall := True\<rparr>)
      else (tl (it_rows r) \<noteq> [], r\<lparr>it_rows := tl (it_rows r)\<rparr>))"

definition iterator_Values :: "'a copyIterator \<Rightarrow> 'a option" where
  "iterator_Values r = (case it_rows r of [] \<Rightarrow> None | x # _ \<Rightarrow> Some x)"

text \<open>What a consumer of the iterator reads in at most \<open>fuel\<close> rounds.\<close>

fun iterator_drain :: "nat \<Rightarrow> 'a copyIterator \<Rightarrow> 'a option list option" where
  "iterator_drain 0 r = None"
| "iterator_drain (Suc fuel) r =
     (case iterator_Next r of
        (False, _) \<Rightarrow> Some []
      | (True, r') \<Rightarrow> map_option (\<lambda>xs. iterator_Values r' # xs) (iterator_drain fuel r'))"

lemma iterator_drain_rest:
  "length xs \<le> n \<Longrightarrow> xs \<noteq> [] \<Longrightarrow>
     iterator_drain n \<lparr>it_rows = xs, it_skippedFirstNextCall = True\<rparr> = Some (map Some (tl xs))"
proof (induction xs arbitrary: n)
  case (Cons x xs)
  then obtain k where k: "n = Suc k" "length xs \<le> k" by (cases n) auto
  show ?case
  proof (cases xs)
    case Nil
    then show ?thesis using k by (simp add: iterator_Next_def)
  next
    case (Cons y ys)
    with Cons.IH [OF k(2)] k show ?thesis by (simp add: iterator_Next_def iterator_Values_def)
  qed
qed simp

section \<open>The databases a write reaches\<close>

definition written :: "'d queryStore \<Rightarrow> 'd list" where
  "written q = db (wr_main (qs_write q)) # map db (wr_mirrors (qs_write q))"

lemma collect_mirrors_Some:
  "collect_mirrors ms (map Some qs) = ms @ concat (map (\<lambda>q. wr_main q # wr_mirrors q) qs)"
  by (induction qs arbitrary: ms) simp_all

lemma written_store_mirrors: "written (store_mirrors w ms) = written w @ concat (map written ms)"
proof -
  have "collect_mirrors xs (map (map_option qs_write \<circ> Some) ms) =
      xs @ concat (map (\<lambda>q. wr_main (qs_write q) # wr_mirrors (qs_write q)) ms)" for xs
    using collect_mirrors_Some [of xs "map qs_write ms"] by (simp add: comp_def)
  then show ?thesis
    by (simp add: written_def [abs_def] store_mirrors_def queryStore_WithMirrors_def newQueryStore_def newWriteQueries_def
        map_concat comp_def)
qed

interpretation stores: mirrorable_writer store_mirrors written
  by unfold_locales (rule written_store_mirrors)

lemma written_WithTx [simp]: "written (queryStore_WithTx transaction q) = [transaction]"
  by (simp add: written_def queryStore_WithTx_def newQueryStore_def newWriteQueries_def Queries_WithTx_def)

lemma written_newStoreNode [simp]: "written (writer (newStoreNode d)) = [d]"
  by (simp add: written_def newStoreNode_def NewNode_def newQueryStore_def newWriteQueries_def New_def Let_def)

text \<open>The reads of a store go to the database of its write wrapper.\<close>

definition store_ok :: "'d queryStore \<Rightarrow> bool" where
  "store_ok q \<longleftrightarrow> rd_main (qs_read q) = wr_main (qs_write q)"

lemma store_ok_simps [simp]:
  "store_ok (newQueryStore q ms)" "store_ok (queryStore_WithTx transaction s)" "store_ok (store_mirrors s ss)"
  "store_ok (writer (newStoreNode d))"
  by (simp_all add: store_ok_def newQueryStore_def newReadQueries_def newWriteQueries_def queryStore_WithTx_def
      store_mirrors_def queryStore_WithMirrors_def newStoreNode_def NewNode_def Let_def)

section \<open>The calls of a read and of a write\<close>

lemma read_query_calls:
  assumes "read_query answer zero q query cs = (r, cs')"
  shows "cs' = cs @ [\<lparr>c_db = db (rd_main q), c_query = query, c_result = answer cs (db (rd_main q)) query\<rparr>]
    \<and> snd r = snd (answer cs (db (rd_main q)) query)
    \<and> fst r = (if snd r = None then fst (answer cs (db (rd_main q)) query) else zero)"
proof -
  obtain a e where a: "answer cs (db (rd_main q)) query = (a, e)" by (cases "answer cs (db (rd_main q)) query")
  show ?thesis using assms by (cases e) (auto simp: a read_query_def execute_def Let_def)
qed

text \<open>An answer that lets the mirroring go on.\<close>

definition tolerated :: "go_error \<Rightarrow> ('d, 'q, 'r) call \<Rightarrow> bool" where
  "tolerated noRows c \<longleftrightarrow> (case snd (c_result c) of None \<Rightarrow> True | Some e \<Rightarrow> errors_is e noRows)"

lemma mirror_calls:
  assumes "mirror noRows (\<lambda>m cs. case execute answer m query cs of ((_, err), cs') \<Rightarrow> (err, cs')) ms cs = (err, cs')"
  shows "\<exists>rest. cs' = cs @ rest \<and> map c_db rest = take (length rest) (map db ms) \<and> (\<forall>c \<in> set rest. c_query c = query)
    \<and> (case err of None \<Rightarrow> length rest = length ms \<and> (\<forall>c \<in> set rest. tolerated noRows c)
       | Some e \<Rightarrow> rest \<noteq> [] \<and> snd (c_result (last rest)) = Some e \<and> \<not> errors_is e noRows
           \<and> (\<forall>c \<in> set (butlast rest). tolerated noRows c))"
  using assms
proof (induction ms arbitrary: cs)
  case Nil
  then show ?case by simp
next
  case (Cons m ms)
  let ?c = "\<lparr>c_db = db m, c_query = query, c_result = answer cs (db m) query\<rparr>"
  show ?case
  proof (cases "tolerated noRows ?c")
    case True
    then have "mirror noRows (\<lambda>m cs. case execute answer m query cs of ((_, err), cs') \<Rightarrow> (err, cs')) ms (cs @ [?c]) = (err, cs')"
      using Cons.prems by (auto simp: tolerated_def execute_def Let_def split: prod.splits option.splits)
    from Cons.IH [OF this] obtain rest where r: "cs' = (cs @ [?c]) @ rest" "map c_db rest = take (length rest) (map db ms)"
      "\<forall>c \<in> set rest. c_query c = query"
      "case err of None \<Rightarrow> length rest = length ms \<and> (\<forall>c \<in> set rest. tolerated noRows c)
       | Some e \<Rightarrow> rest \<noteq> [] \<and> snd (c_result (last rest)) = Some e \<and> \<not> errors_is e noRows
           \<and> (\<forall>c \<in> set (butlast rest). tolerated noRows c)" by blast
    then show ?thesis using True by (intro exI [of _ "?c # rest"]) (auto split: option.splits)
  next
    case False
    then obtain e where "snd (answer cs (db m) query) = Some e" "\<not> errors_is e noRows" "err = Some e" "cs' = cs @ [?c]"
      using Cons.prems by (auto simp: tolerated_def execute_def Let_def split: prod.splits option.splits)
    then show ?thesis by (intro exI [of _ "[?c]"]) auto
  qed
qed

text \<open>What a write has done: the calls it made and its result.\<close>

definition write_outcome ::
  "go_error \<Rightarrow> 'r \<Rightarrow> 'd writeQueries \<Rightarrow> 'q \<Rightarrow> 'r \<times> go_error option \<Rightarrow> ('d, 'q, 'r) call list \<Rightarrow> bool" where
  "write_outcome noRows zero q query r new \<longleftrightarrow>
     (\<exists>main rest. new = main # rest \<and> c_db main = db (wr_main q)
      \<and> map c_db rest = take (length rest) (map db (wr_mirrors q)) \<and> (\<forall>c \<in> set (main # rest). c_query c = query)
      \<and> (case snd (c_result main) of
           Some e \<Rightarrow> rest = [] \<and> fst r = zero \<and> snd r = Some e
         | None \<Rightarrow> fst r = fst (c_result main)
             \<and> (case snd r of
                  None \<Rightarrow> length rest = length (wr_mirrors q) \<and> (\<forall>c \<in> set rest. tolerated noRows c)
                | Some e \<Rightarrow> rest \<noteq> [] \<and> snd (c_result (last rest)) = Some e \<and> \<not> errors_is e noRows
                    \<and> (\<forall>c \<in> set (butlast rest). tolerated noRows c))))"

lemma write_query_calls:
  assumes "write_query noRows answer zero q query cs = (r, cs')"
  shows "\<exists>new. cs' = cs @ new \<and> write_outcome noRows zero q query r new"
proof -
  let ?r = "answer cs (db (wr_main q)) query"
  let ?c = "\<lparr>c_db = db (wr_main q), c_query = query, c_result = ?r\<rparr>"
  show ?thesis
  proof (cases "snd ?r")
    case None
    then have "mirror noRows (\<lambda>m cs. case execute answer m query cs of ((_, err), cs') \<Rightarrow> (err, cs'))
        (wr_mirrors q) (cs @ [?c]) = (snd r, cs')" and v: "fst r = fst ?r"
      using assms by (auto simp: write_query_def execute_def Let_def split: prod.splits)
    from mirror_calls [OF this(1)] obtain rest where "cs' = (cs @ [?c]) @ rest"
      "map c_db rest = take (length rest) (map db (wr_mirrors q))" "\<forall>c \<in> set rest. c_query c = query"
      "case snd r of None \<Rightarrow> length rest = length (wr_mirrors q) \<and> (\<forall>c \<in> set rest. tolerated noRows c)
       | Some e \<Rightarrow> rest \<noteq> [] \<and> snd (c_result (last rest)) = Some e \<and> \<not> errors_is e noRows
           \<and> (\<forall>c \<in> set (butlast rest). tolerated noRows c)" by blast
    then show ?thesis using None v by (intro exI [of _ "?c # rest"]) (simp add: write_outcome_def)
  next
    case (Some e)
    then show ?thesis using assms
      by (intro exI [of _ "[?c]"]) (auto simp: write_outcome_def write_query_def execute_def Let_def split: prod.splits)
  qed
qed

section \<open>Properties\<close>

text \<open>
  C22: what a generated write does. It runs on the main database first. When that fails, the zero
  value and the error are returned and no mirror is touched. Otherwise the mirrors are written one
  after the other in their order; a mirror that answers \<^verbatim>\<open>sql.ErrNoRows\<close> is passed over, the first
  other error ends the loop and is returned with the value of the main database, and without such
  an error every mirror has been written.
\<close>

theorem write_query_mirrors:
  assumes "write_query noRows answer zero q query cs = ((value, err), cs')"
  shows "\<exists>main rest. cs' = cs @ main # rest \<and> c_db main = db (wr_main q)
    \<and> map c_db rest = take (length rest) (map db (wr_mirrors q)) \<and> (\<forall>c \<in> set (main # rest). c_query c = query)
    \<and> (case snd (c_result main) of
         Some e \<Rightarrow> rest = [] \<and> value = zero \<and> err = Some e
       | None \<Rightarrow> value = fst (c_result main)
           \<and> (case err of
                None \<Rightarrow> length rest = length (wr_mirrors q) \<and> (\<forall>c \<in> set rest. tolerated noRows c)
              | Some e \<Rightarrow> rest \<noteq> [] \<and> snd (c_result (last rest)) = Some e \<and> \<not> errors_is e noRows
                  \<and> (\<forall>c \<in> set (butlast rest). tolerated noRows c)))"
  using write_query_calls [OF assms] unfolding write_outcome_def fst_conv snd_conv by blast

theorem write_query_mirrors_witness:
  "\<exists>main rest. snd (write_query (Foreign 0) (\<lambda>cs d q. if d = 2 then ((), Some (Wrap ''%w'' [] (Foreign 0))) else ((), None)) ()
       (newWriteQueries (New (1::nat)) [New 2, New 3]) ''q'' []) = main # rest \<and> map c_db rest = [2, 3]"
proof -
  let ?a = "\<lambda>cs d (q :: string). if d = 2 then ((), Some (Wrap ''%w'' [] (Foreign 0))) else ((), None)"
  have "write_query (Foreign 0) ?a () (newWriteQueries (New (1::nat)) [New 2, New 3]) ''q'' [] =
      (((), None), snd (write_query (Foreign 0) ?a () (newWriteQueries (New (1::nat)) [New 2, New 3]) ''q'' []))"
    by (simp add: write_query_def execute_def Let_def newWriteQueries_def New_def)
  from write_query_mirrors [OF this] show ?thesis
    by (simp add: write_query_def execute_def Let_def newWriteQueries_def New_def)
qed

text \<open>
  The row source of a COPY hands out exactly the rows of the call, in order, and reports its end
  after the last of them: reading it never runs past the slice, and no row is skipped by the first
  call of \<^verbatim>\<open>Next\<close>, which does not advance.
\<close>

lemma iterator_yields_rows:
  "iterator_drain (Suc (length rows)) \<lparr>it_rows = rows, it_skippedFirstNextCall = False\<rparr> = Some (map Some rows)"
proof (cases rows)
  case Nil
  then show ?thesis by (simp add: iterator_Next_def)
next
  case (Cons x xs)
  then show ?thesis using iterator_drain_rest [of rows "length rows"]
    by (simp add: iterator_Next_def iterator_Values_def)
qed

end
