(* ===== verification/Hasher.thy ===== *)
theory Hasher
  imports Mesh_Prelude
begin

text \<open>
  \<^verbatim>\<open>hasher.go\<close>: the constant and the modulo shard hasher. The contract the mesh needs from
  any hasher, that an index is below the virtual shard count, is the locale
  \<open>shard_hasher\<close>; the three hashers the code can build are its interpretations.
\<close>

section \<open>The hashers\<close>

record constantShardHasher =
  virtualShardIndex :: uint64

definition constant_Hash :: "constantShardHasher \<Rightarrow> 'k \<Rightarrow> uint64" where
  "constant_Hash h key = virtualShardIndex h"

definition NewConstantShardHasher :: "uint64 \<Rightarrow> constantShardHasher" where
  "NewConstantShardHasher index = \<lparr>virtualShardIndex = index\<rparr>"

record moduloShardHasher =
  virtualShardCount :: uint64

text \<open>
  \<^verbatim>\<open>IntegerShardKey\<close> ranges over the signed and the unsigned integer types of width 8 to 64.
  A key is a word of that width; \<open>issigned\<close> says how the type reads it. The conversion to
  \<^verbatim>\<open>uint64\<close> extends the sign of a signed key and pads an unsigned one with zeros, and
  \<open>- (key + 1)\<close> is computed at the width of the key, where it wraps.
\<close>

definition key_negative :: "bool \<Rightarrow> 'n::len word \<Rightarrow> bool" where
  "key_negative issigned key \<longleftrightarrow> issigned \<and> sint key < 0"

definition key_uint64 :: "bool \<Rightarrow> 'n::len word \<Rightarrow> uint64" where
  "key_uint64 issigned key = (if issigned then scast key else ucast key)"

definition key_value :: "bool \<Rightarrow> 'n::len word \<Rightarrow> int" where
  "key_value issigned key = (if issigned then sint key else uint key)"

definition modulo_Hash :: "bool \<Rightarrow> moduloShardHasher \<Rightarrow> 'n::len word \<Rightarrow> uint64" where
  "modulo_Hash issigned h key =
     (if key_negative issigned key then
        let magnitudeRemainder = (key_uint64 issigned (- (key + 1)) + 1) mod virtualShardCount h
        in if magnitudeRemainder = 0 then 0 else virtualShardCount h - magnitudeRemainder
      else key_uint64 issigned key mod virtualShardCount h)"

text \<open>\<open>None\<close> is the panic on a zero count.\<close>

definition NewModuloShardHasher :: "uint64 \<Rightarrow> moduloShardHasher option" where
  "NewModuloShardHasher n = (if n = 0 then None else Some \<lparr>virtualShardCount = n\<rparr>)"

section \<open>The modulo hasher computes the Euclidean remainder\<close>

lemma word_mod_less: "c \<noteq> 0 \<Longrightarrow> (w :: uint64) mod c < c"
proof -
  assume "c \<noteq> 0"
  then have "0 < uint c" by (simp add: uint_0_iff order_less_le)
  then show ?thesis by (simp add: word_less_def uint_mod)
qed

lemma uint_key_uint64_nonneg:
  assumes "LENGTH('n::len) \<le> 64" and "\<not> key_negative issigned (key :: 'n word)"
  shows "uint (key_uint64 issigned key) = key_value issigned key"
proof (cases issigned)
  case True
  with assms have "0 \<le> sint key" by (simp add: key_negative_def)
  moreover have "sint key < 2 ^ (LENGTH('n) - 1)" by (rule sint_lt)
  moreover have "(2::int) ^ (LENGTH('n) - 1) \<le> 2 ^ 64"
    using assms(1) by (intro power_increasing) auto
  ultimately have "take_bit 64 (sint key) = sint key"
    by (intro take_bit_int_eq_self) auto
  moreover have "uint (scast key :: uint64) = take_bit 64 (sint key)"
    unfolding scast_eq [of key] uint_word_of_int_eq by simp
  ultimately show ?thesis using True by (simp add: key_uint64_def key_value_def)
next
  case False
  have "uint key < 2 ^ LENGTH('n)" by simp
  moreover have "(2::int) ^ LENGTH('n) \<le> 2 ^ 64"
    using assms(1) by (intro power_increasing) auto
  ultimately have "uint key < 2 ^ 64" by (rule less_le_trans)
  then have "take_bit 64 (uint key) = uint key"
    by (intro take_bit_int_eq_self) auto
  with False show ?thesis
    by (simp add: key_uint64_def key_value_def unsigned_ucast_eq)
qed

text \<open>The magnitude of a negative key, computed without overflow even at the minimum value.\<close>

lemma sint_negate_Suc:
  assumes "sint (key :: 'n::len word) < 0"
  shows "sint (- (key + 1)) = - sint key - 1"
proof -
  let ?m = "2 ^ (LENGTH('n) - 1) :: int"
  have "- ?m \<le> sint key" by (rule sint_ge)
  with assms have "- ?m \<le> - sint key - 1" "- sint key - 1 < ?m" by auto
  then have "signed_take_bit (LENGTH('n) - 1) (- sint key - 1) = - sint key - 1"
    by (intro signed_take_bit_int_eq_self) auto
  moreover have "- (key + 1) = word_of_int (- sint key - 1)"
    by simp
  ultimately show ?thesis by (simp only: sint_sbintrunc')
qed

lemma modulo_Hash_nonneg:
  assumes "LENGTH('n::len) \<le> 64" and "\<not> key_negative issigned (key :: 'n word)"
  shows "uint (modulo_Hash issigned h key) = key_value issigned key mod uint (virtualShardCount h)"
  using assms by (simp add: modulo_Hash_def uint_mod uint_key_uint64_nonneg)

lemma magnitude_exact:
  assumes "LENGTH('n::len) \<le> 64" and neg: "sint (key :: 'n word) < 0"
  shows "uint (key_uint64 True (- (key + 1)) + 1) = - sint key"
proof -
  have v: "sint (- (key + 1)) = - sint key - 1" by (rule sint_negate_Suc [OF neg])
  with neg have "\<not> key_negative True (- (key + 1))" by (simp add: key_negative_def)
  then have u: "uint (key_uint64 True (- (key + 1))) = - sint key - 1"
    using uint_key_uint64_nonneg [OF assms(1)] v by (simp add: key_value_def)
  have "- (2 ^ (LENGTH('n) - 1)) \<le> sint key" by (rule sint_ge)
  moreover have "(2::int) ^ (LENGTH('n) - 1) \<le> 2 ^ 63"
    using assms(1) by (intro power_increasing) auto
  ultimately have "- sint key < 2 ^ 64" by simp
  with u neg show ?thesis by (simp add: uint_word_ariths)
qed

lemma modulo_Hash_neg:
  assumes len: "LENGTH('n::len) \<le> 64" and neg: "key_negative issigned (key :: 'n word)"
    and c: "virtualShardCount h \<noteq> 0"
  shows "uint (modulo_Hash issigned h key) = key_value issigned key mod uint (virtualShardCount h)"
proof -
  let ?c = "virtualShardCount h"
  define r where "r = (key_uint64 True (- (key + 1)) + 1) mod ?c"
  from neg have s: "issigned" and k: "sint key < 0" by (auto simp: key_negative_def)
  have r: "uint r = (- sint key) mod uint ?c"
    using magnitude_exact [OF len k] by (simp add: r_def uint_mod)
  have e: "sint key mod uint ?c = (if uint r = 0 then 0 else uint ?c - uint r)"
    using zmod_zminus1_eq_if [of "- sint key" "uint ?c"] r by auto
  have "r < ?c" unfolding r_def by (rule word_mod_less [OF c])
  then have "uint (?c - r) = uint ?c - uint r" by (simp add: uint_sub_if' word_less_def)
  moreover have "modulo_Hash issigned h key = (if r = 0 then 0 else ?c - r)"
    using s neg unfolding modulo_Hash_def Let_def r_def by (simp only: if_True)
  ultimately show ?thesis using s e by (simp add: key_value_def uint_0_iff)
qed

lemma modulo_Hash_euclidean:
  assumes "LENGTH('n::len) \<le> 64" and "virtualShardCount h \<noteq> 0"
  shows "uint (modulo_Hash issigned h (key :: 'n word)) =
    key_value issigned key mod uint (virtualShardCount h)"
  using assms modulo_Hash_neg modulo_Hash_nonneg by blast

lemma modulo_Hash_less:
  assumes "virtualShardCount h \<noteq> 0"
  shows "modulo_Hash issigned h (key :: 'n::len word) < virtualShardCount h"
proof -
  let ?c = "virtualShardCount h"
  have *: "?c - r < ?c" if "r \<noteq> 0" "r < ?c" for r
  proof -
    from that(1) have "0 < uint r" by (simp add: uint_0_iff order_less_le)
    with that(2) show ?thesis by (simp add: word_less_def uint_sub_if')
  qed
  show ?thesis
    unfolding modulo_Hash_def Let_def
    using assms word_mod_less [OF assms] * by (simp add: word_greater_zero_iff)
qed

section \<open>The contract of a shard hasher\<close>

text \<open>
  A hasher value \<open>h\<close> that the program accepts (\<open>valid\<close>) sends every key below
  \<open>count h\<close>.
\<close>

locale shard_hasher =
  fixes Hash :: "'h \<Rightarrow> 'k \<Rightarrow> uint64"
    and shard_count :: "'h \<Rightarrow> uint64"
    and valid :: "'h \<Rightarrow> bool"
  assumes Hash_in_range: "valid h \<Longrightarrow> Hash h key < shard_count h"
begin

lemma Hash_index: "valid h \<Longrightarrow> unat (shard_count h) \<le> n \<Longrightarrow> unat (Hash h key) < n"
  using Hash_in_range [of h key] by (simp add: word_less_nat_alt)

end

text \<open>The constant hasher of a singleton topology selects virtual shard 0 of 1.\<close>

interpretation singleton_hasher: shard_hasher constant_Hash "\<lambda>_. 1"
  "\<lambda>h. h = NewConstantShardHasher 0"
  by unfold_locales (simp add: constant_Hash_def NewConstantShardHasher_def)

interpretation signed_modulo: shard_hasher "modulo_Hash True" virtualShardCount
  "\<lambda>h. NewModuloShardHasher (virtualShardCount h) = Some h"
  by unfold_locales (auto simp: NewModuloShardHasher_def intro: modulo_Hash_less split: if_splits)

interpretation unsigned_modulo: shard_hasher "modulo_Hash False" virtualShardCount
  "\<lambda>h. NewModuloShardHasher (virtualShardCount h) = Some h"
  by unfold_locales (auto simp: NewModuloShardHasher_def intro: modulo_Hash_less split: if_splits)

section \<open>Properties\<close>

text \<open>
  C10: for every integer key type of at most 64 bits, signed or unsigned, and every key, the most
  negative one included, the modulo hasher returns the Euclidean remainder of the key by the
  virtual shard count, so the index is between 0 and the count.
\<close>

theorem modulo_Hash_is_remainder:
  assumes "LENGTH('n::len) \<le> 64" and "NewModuloShardHasher n = Some h"
  shows "uint (modulo_Hash issigned h (key :: 'n word)) = key_value issigned key mod uint n
    \<and> modulo_Hash issigned h key < n"
  using assms modulo_Hash_euclidean [of h issigned key] modulo_Hash_less [of h issigned key]
  by (auto simp: NewModuloShardHasher_def split: if_splits)

theorem modulo_Hash_is_remainder_witness:
  "NewModuloShardHasher 5 = Some \<lparr>virtualShardCount = 5\<rparr> \<and>
   uint (modulo_Hash True \<lparr>virtualShardCount = 5\<rparr> (128 :: 8 word)) = (- 128) mod 5"
proof -
  have n: "NewModuloShardHasher 5 = Some \<lparr>virtualShardCount = 5\<rparr>" by (simp add: NewModuloShardHasher_def)
  have "key_value True (128 :: 8 word) = - 128" by code_simp
  with modulo_Hash_is_remainder [of 5 "\<lparr>virtualShardCount = 5\<rparr>" True "128 :: 8 word", OF _ n] n
  show ?thesis by simp
qed

end
