(* ===== verification/Mesh_Builder.thy ===== *)
theory Mesh_Builder
  imports Replica_Set Hasher Mesh_Telemetry
begin

text \<open>
  \<^verbatim>\<open>builder.go\<close> and \<^verbatim>\<open>mesh.go\<close>: assembling a mesh from existing replica sets, and resolving a key
  in it.
\<close>

section \<open>The builder\<close>

record ('k, 'tp, 'mp, 'lg) meshBuilder =
  b_virtualShards :: "rs_ptr option list"
  b_hasher :: "('k \<Rightarrow> uint64) option"
  b_telemetry :: "('tp, 'mp, 'lg) meshTelemetry"
  b_err :: "go_error option"

record ('k, 'tp, 'mp, 'lg) mesh =
  m_virtualShards :: "rs_ptr list"
  m_replicaSets :: "rs_ptr list"
  m_hasher :: "'k \<Rightarrow> uint64"
  m_telemetry :: "('tp, 'mp, 'lg) meshTelemetry"

definition NewMeshBuilder ::
  "('mp providerRef \<Rightarrow> string \<Rightarrow> go_error option) \<Rightarrow> uint64 \<Rightarrow> ('k, 'tp, 'mp, 'lg) meshBuilder" where
  "NewMeshBuilder E n =
     (case newMeshTelemetry E None None of
        (t, e) \<Rightarrow> \<lparr>b_virtualShards = replicate (unat n) None, b_hasher = None,
                   b_telemetry = t, b_err = e\<rparr>)"

definition WithTracerProvider ::
  "'tp option \<Rightarrow> ('k, 'tp, 'mp, 'lg) meshBuilder \<Rightarrow> ('k, 'tp, 'mp, 'lg) meshBuilder" where
  "WithTracerProvider provider b = b\<lparr>b_telemetry := setTracerProvider provider (b_telemetry b)\<rparr>"

definition WithMeterProvider ::
  "('mp providerRef \<Rightarrow> string \<Rightarrow> go_error option) \<Rightarrow> 'mp option \<Rightarrow>
   ('k, 'tp, 'mp, 'lg) meshBuilder \<Rightarrow> ('k, 'tp, 'mp, 'lg) meshBuilder" where
  "WithMeterProvider E provider b =
     (case setMeterProvider E provider (b_telemetry b) of
        (Some e, t) \<Rightarrow>
          b\<lparr>b_telemetry := t,
            b_err := (case b_err b of
                        None \<Rightarrow> Some (Wrap ''configure OpenTelemetry metrics: %w'' [] e)
                      | Some e0 \<Rightarrow> Some e0)\<rparr>
      | (None, t) \<Rightarrow> b\<lparr>b_telemetry := t\<rparr>)"

definition WithLogger ::
  "'lg option \<Rightarrow> ('k, 'tp, 'mp, 'lg) meshBuilder \<Rightarrow> ('k, 'tp, 'mp, 'lg) meshBuilder" where
  "WithLogger lg b = b\<lparr>b_telemetry := (b_telemetry b)\<lparr>logger := lg\<rparr>\<rparr>"

definition WithShardHasher ::
  "('k \<Rightarrow> uint64) option \<Rightarrow> ('k, 'tp, 'mp, 'lg) meshBuilder \<Rightarrow> ('k, 'tp, 'mp, 'lg) meshBuilder"
  where
  "WithShardHasher hasher b = b\<lparr>b_hasher := hasher\<rparr>"

definition MapVirtualShard ::
  "uint64 \<Rightarrow> rs_ptr option \<Rightarrow> ('k, 'tp, 'mp, 'lg) meshBuilder \<Rightarrow> ('k, 'tp, 'mp, 'lg) meshBuilder"
  where
  "MapVirtualShard index p b =
     (if b_err b \<noteq> None then b
      else if index \<ge> of_nat (length (b_virtualShards b)) then
        b\<lparr>b_err := Some (Wrap ''%w: %d'' [ArgNat (unat index)] (Sentinel ErrVirtualShardOutOfRange))\<rparr>
      else if p = None then
        b\<lparr>b_err := Some (Wrap ''%w: virtual shard %d'' [ArgNat (unat index)] (Sentinel ErrNilReplicaSet))\<rparr>
      else if b_virtualShards b ! unat index \<noteq> None then
        b\<lparr>b_err := Some (Wrap ''%w: %d'' [ArgNat (unat index)] (Sentinel ErrVirtualShardAlreadyMapped))\<rparr>
      else b\<lparr>b_virtualShards := (b_virtualShards b)[unat index := p]\<rparr>)"

text \<open>The name of a replica set. A pointer of the builder is never dangling.\<close>

definition rs_name_at :: "('r, 'w) mesh_heap \<Rightarrow> rs_ptr \<Rightarrow> string" where
  "rs_name_at h p = (case rs_at h p of None \<Rightarrow> [] | Some s \<Rightarrow> rs_name s)"

record build_state =
  bs_virtualShards :: "rs_ptr list"
  bs_replicaSets :: "rs_ptr list"
  bs_seen :: "rs_ptr set"
  bs_seenNames :: "string \<rightharpoonup> rs_ptr"

definition build_step ::
  "('r, 'w) mesh_heap \<Rightarrow> build_state \<Rightarrow> nat \<times> rs_ptr option \<Rightarrow> build_state result" where
  "build_step h st e =
     (case e of
        (index, None) \<Rightarrow>
          Inl (Wrap ''%w: %d'' [ArgNat index] (Sentinel ErrVirtualShardNotMapped))
      | (index, Some p) \<Rightarrow>
          let name = rs_name_at h p in
          if TrimSpace name = [] then
            Inl (Wrap ''%w: virtual shard %d'' [ArgNat index] (Sentinel ErrEmptyReplicaSetName))
          else if (case bs_seenNames st name of None \<Rightarrow> False | Some previous \<Rightarrow> previous \<noteq> p) then
            Inl (Wrap ''%w: %q'' [ArgStr name] (Sentinel ErrDuplicateReplicaSet))
          else
            Inr \<lparr>bs_virtualShards = bs_virtualShards st @ [p],
                 bs_replicaSets =
                   (if p \<in> bs_seen st then bs_replicaSets st else bs_replicaSets st @ [p]),
                 bs_seen = insert p (bs_seen st),
                 bs_seenNames = (bs_seenNames st)(name \<mapsto> p)\<rparr>)"

definition build_init :: build_state where
  "build_init = \<lparr>bs_virtualShards = [], bs_replicaSets = [], bs_seen = {}, bs_seenNames = Map.empty\<rparr>"

definition Build ::
  "('r, 'w) mesh_heap \<Rightarrow> ('k, 'tp, 'mp, 'lg) meshBuilder \<Rightarrow> ('k, 'tp, 'mp, 'lg) mesh result" where
  "Build h b =
     (case b_err b of Some e \<Rightarrow> Inl e
      | None \<Rightarrow>
          if b_virtualShards b = [] then Inl (Sentinel ErrNoVirtualShards)
          else (case b_hasher b of None \<Rightarrow> Inl (Sentinel ErrNilShardHasher)
          | Some hasher \<Rightarrow>
              and_then (foldM (build_step h) build_init (enumerate 0 (b_virtualShards b)))
                (\<lambda>st. Inr \<lparr>m_virtualShards = bs_virtualShards st,
                           m_replicaSets = bs_replicaSets st,
                           m_hasher = hasher, m_telemetry = b_telemetry b\<rparr>)))"

section \<open>The mesh\<close>

definition Resolve :: "('k, 'tp, 'mp, 'lg) mesh \<Rightarrow> 'k \<Rightarrow> resolvedShard result" where
  "Resolve m key =
     (let index = m_hasher m key in
      if index \<ge> of_nat (length (m_virtualShards m)) then
        Inl (Wrap ''%w: got %d, valid range is [0,%d)''
          [ArgNat (unat index), ArgNat (length (m_virtualShards m))]
          (Sentinel ErrVirtualShardOutOfRange))
      else Inr \<lparr>sh_virtualShardIndex = index,
                sh_replicaSet = m_virtualShards m ! unat index\<rparr>)"

definition ReplicaSets :: "('k, 'tp, 'mp, 'lg) mesh \<Rightarrow> rs_ptr list" where
  "ReplicaSets m = m_replicaSets m"

section \<open>What Build accepts and returns\<close>

text \<open>The elements of a list in the order of their first occurrences.\<close>

fun first_occurrences :: "'a list \<Rightarrow> 'a list" where
  "first_occurrences xs = rev (remdups (rev xs))"

declare first_occurrences.simps [simp del]

lemma first_occurrences_Nil [simp]: "first_occurrences [] = []"
  by (simp add: first_occurrences.simps)

lemma first_occurrences_snoc:
  "first_occurrences (xs @ [x]) =
     (if x \<in> set xs then first_occurrences xs else first_occurrences xs @ [x])"
  by (simp add: first_occurrences.simps)

lemma set_first_occurrences [simp]: "set (first_occurrences xs) = set xs"
  by (simp add: first_occurrences.simps)

lemma distinct_first_occurrences [simp]: "distinct (first_occurrences xs)"
  by (simp add: first_occurrences.simps)

text \<open>Names that are not blank and that no two different sets share.\<close>

definition names_ok :: "('r, 'w) mesh_heap \<Rightarrow> rs_ptr list \<Rightarrow> bool" where
  "names_ok h ps \<longleftrightarrow> (\<forall>p \<in> set ps. TrimSpace (rs_name_at h p) \<noteq> []) \<and> inj_on (rs_name_at h) (set ps)"

definition built :: "('r, 'w) mesh_heap \<Rightarrow> rs_ptr list \<Rightarrow> build_state" where
  "built h ps = \<lparr>bs_virtualShards = ps, bs_replicaSets = first_occurrences ps, bs_seen = set ps,
     bs_seenNames = map_of (rev (map (\<lambda>p. (rs_name_at h p, p)) ps))\<rparr>"

lemma built_Nil: "built h [] = build_init"
  by (simp add: built_def build_init_def)

lemma map_of_names:
  "inj_on (rs_name_at h) (set ps) \<Longrightarrow>
     map_of (rev (map (\<lambda>p. (rs_name_at h p, p)) ps)) name = Some q \<longleftrightarrow>
     q \<in> set ps \<and> rs_name_at h q = name"
proof (induction ps rule: rev_induct)
  case Nil
  then show ?case by simp
next
  case (snoc p ps)
  from snoc.prems have i: "inj_on (rs_name_at h) (set ps)" by (auto intro: inj_on_subset)
  have "q = p" if "q \<in> set ps" "rs_name_at h q = rs_name_at h p" for q
    using inj_onD [OF snoc.prems that(2)] that(1) by simp
  then show ?case using snoc.IH [OF i] by auto
qed

lemma build_step_built:
  assumes "names_ok h ps"
  shows "build_step h (built h ps) (i, Some p) = Inr st \<longleftrightarrow>
    names_ok h (ps @ [p]) \<and> st = built h (ps @ [p])"
proof -
  let ?n = "rs_name_at h p"
  have inj: "inj_on (rs_name_at h) (set ps)" using assms by (simp add: names_ok_def)
  let ?dup = "\<exists>q \<in> set ps. rs_name_at h q = ?n \<and> q \<noteq> p"
  have dup: "(case bs_seenNames (built h ps) ?n of None \<Rightarrow> False | Some q \<Rightarrow> q \<noteq> p) \<longleftrightarrow> ?dup"
  proof (cases "bs_seenNames (built h ps) ?n")
    case None
    with map_of_names [OF inj, of ?n] show ?thesis by (auto simp: built_def)
  next
    case (Some q)
    with map_of_names [OF inj, of ?n q] have q: "q \<in> set ps" "rs_name_at h q = ?n"
      by (simp_all add: built_def)
    have "r = q" if "r \<in> set ps" "rs_name_at h r = ?n" for r
      using inj_onD [OF inj, of r q] that q by simp
    with q have "?dup \<longleftrightarrow> q \<noteq> p" by blast
    with Some show ?thesis by simp
  qed
  have ok: "names_ok h (ps @ [p]) \<longleftrightarrow> TrimSpace ?n \<noteq> [] \<and> \<not> ?dup"
  proof -
    have "rs_name_at h p \<notin> rs_name_at h ` (set ps - {p}) \<longleftrightarrow> \<not> ?dup"
      unfolding image_iff by (metis DiffE DiffI insertI1 singletonD)
    with assms show ?thesis by (simp add: names_ok_def inj_on_insert)
  qed
  have new: "built h (ps @ [p]) =
    \<lparr>bs_virtualShards = bs_virtualShards (built h ps) @ [p],
     bs_replicaSets = (if p \<in> bs_seen (built h ps) then bs_replicaSets (built h ps)
                       else bs_replicaSets (built h ps) @ [p]),
     bs_seen = insert p (bs_seen (built h ps)),
     bs_seenNames = (bs_seenNames (built h ps))(?n \<mapsto> p)\<rparr>"
    by (simp add: built_def first_occurrences_snoc)
  have step: "build_step h (built h ps) (i, Some p) =
      (if TrimSpace ?n = [] then
         Inl (Wrap ''%w: virtual shard %d'' [ArgNat i] (Sentinel ErrEmptyReplicaSetName))
       else if ?dup then Inl (Wrap ''%w: %q'' [ArgStr ?n] (Sentinel ErrDuplicateReplicaSet))
       else Inr (built h (ps @ [p])))"
    unfolding new build_step_def Let_def prod.case option.case dup ..
  show ?thesis unfolding ok step by auto
qed

lemma names_ok_Nil [simp]: "names_ok h []"
  by (simp add: names_ok_def)

lemma names_ok_prefix: "names_ok h (ps @ qs) \<Longrightarrow> names_ok h ps"
  unfolding names_ok_def set_append by (blast intro: inj_on_subset)

lemma build_loop:
  assumes "names_ok h ps"
  shows "foldM (build_step h) (built h ps) (enumerate k xs) = Inr st \<longleftrightarrow>
    None \<notin> set xs \<and> names_ok h (ps @ map the xs) \<and> st = built h (ps @ map the xs)"
  using assms
proof (induction xs arbitrary: ps k)
  case Nil
  then show ?case by auto
next
  case (Cons x xs)
  show ?case
  proof (cases x)
    case None
    then show ?thesis by (simp add: build_step_def)
  next
    case (Some p)
    show ?thesis
    proof (cases "names_ok h (ps @ [p])")
      case True
      then have "build_step h (built h ps) (k, Some p) = Inr (built h (ps @ [p]))"
        using build_step_built [OF Cons.prems] by blast
      with Some True Cons.IH [OF True, of "Suc k"] show ?thesis by simp
    next
      case False
      then have "\<not> (\<exists>st. build_step h (built h ps) (k, Some p) = Inr st)"
        using build_step_built [OF Cons.prems] by blast
      moreover have "\<not> names_ok h (ps @ p # map the xs)"
        using False names_ok_prefix [of h "ps @ [p]" "map the xs"] by auto
      ultimately show ?thesis using Some by (auto simp: result_simps)
    qed
  qed
qed

lemma Build_iff:
  "Build h b = Inr m \<longleftrightarrow>
     b_err b = None \<and> b_virtualShards b \<noteq> [] \<and> None \<notin> set (b_virtualShards b) \<and>
     names_ok h (map the (b_virtualShards b)) \<and>
     (\<exists>hasher. b_hasher b = Some hasher \<and>
        m = \<lparr>m_virtualShards = map the (b_virtualShards b),
             m_replicaSets = first_occurrences (map the (b_virtualShards b)),
             m_hasher = hasher, m_telemetry = b_telemetry b\<rparr>)"
proof (cases "b_err b = None \<and> b_virtualShards b \<noteq> [] \<and> b_hasher b \<noteq> None")
  case True
  then obtain hasher where hs: "b_hasher b = Some hasher" by auto
  let ?vs = "b_virtualShards b"
  have loop: "foldM (build_step h) build_init (enumerate 0 ?vs) = Inr st \<longleftrightarrow>
      None \<notin> set ?vs \<and> names_ok h (map the ?vs) \<and> st = built h (map the ?vs)" for st
    using build_loop [of h "[]" 0 ?vs st] by (simp add: built_Nil)
  have "Build h b = and_then (foldM (build_step h) build_init (enumerate 0 ?vs))
      (\<lambda>st. Inr \<lparr>m_virtualShards = bs_virtualShards st, m_replicaSets = bs_replicaSets st,
                 m_hasher = hasher, m_telemetry = b_telemetry b\<rparr>)"
    using True hs by (simp add: Build_def)
  then show ?thesis using True hs by (auto simp: and_then_eq_Inr loop built_def)
next
  case False
  then show ?thesis by (auto simp: Build_def split: option.splits)
qed

lemma MapVirtualShard_keeps:
  "length (b_virtualShards (MapVirtualShard i p b)) = length (b_virtualShards b)"
  "b_hasher (MapVirtualShard i p b) = b_hasher b"
  "b_telemetry (MapVirtualShard i p b) = b_telemetry b"
  "b_err b = Some e \<Longrightarrow> MapVirtualShard i p b = b"
  by (auto simp: MapVirtualShard_def)

section \<open>Resolution in a mesh\<close>

lemma Resolve_Inr:
  assumes "length (m_virtualShards m) < 2 ^ 64"
  shows "Resolve m key = Inr sh \<longleftrightarrow>
    unat (m_hasher m key) < length (m_virtualShards m) \<and>
    sh = \<lparr>sh_virtualShardIndex = m_hasher m key,
          sh_replicaSet = m_virtualShards m ! unat (m_hasher m key)\<rparr>"
proof -
  have "unat (of_nat (length (m_virtualShards m)) :: uint64) = length (m_virtualShards m)"
    using assms by (simp add: unat_of_nat)
  then have "of_nat (length (m_virtualShards m)) \<le> m_hasher m key \<longleftrightarrow>
      length (m_virtualShards m) \<le> unat (m_hasher m key)"
    by (simp add: word_le_nat_alt)
  then show ?thesis by (auto simp: Resolve_def Let_def)
qed

context shard_hasher
begin

text \<open>A hasher that keeps its contract resolves every key of a mesh with as many virtual shards.\<close>

lemma Resolve_total:
  assumes "valid h" and "m_hasher m = Hash h"
    and "unat (shard_count h) \<le> length (m_virtualShards m)" and "length (m_virtualShards m) < 2 ^ 64"
  shows "\<exists>sh. Resolve m key = Inr sh \<and> sh_replicaSet sh \<in> set (m_virtualShards m)"
  using Hash_index [OF assms(1,3), of key] assms(2) by (simp add: Resolve_Inr [OF assms(4)])

end

section \<open>Properties\<close>

text \<open>
  C6: \<^verbatim>\<open>Build\<close> succeeds exactly when no earlier builder call failed, there is a virtual shard and
  a hasher, every virtual shard is mapped, no set has a blank name, and no two different sets
  share a name. The mesh keeps the mapping, and lists its sets without repetition in the order of
  their first virtual shards.
\<close>

theorem Build_accepts:
  "Build h b = Inr m \<longleftrightarrow>
     b_err b = None \<and> b_virtualShards b \<noteq> [] \<and> None \<notin> set (b_virtualShards b) \<and>
     (\<forall>p \<in> set (b_virtualShards b). TrimSpace (rs_name_at h (the p)) \<noteq> []) \<and>
     inj_on (rs_name_at h) (the ` set (b_virtualShards b)) \<and>
     b_hasher b = Some (m_hasher m) \<and> m_telemetry m = b_telemetry b \<and>
     m_virtualShards m = map the (b_virtualShards b) \<and>
     ReplicaSets m = first_occurrences (m_virtualShards m)"
  unfolding Build_iff names_ok_def ReplicaSets_def by (cases m) auto

theorem Build_accepts_witness:
  "\<exists>m. Build \<lparr>h_rr = [], h_rs = [\<lparr>rs_name = ''a'', rs_primary = NewNode () (), rs_readTargets = 0, rs_writeMirrors = []\<rparr>]\<rparr>
     \<lparr>b_virtualShards = [Some 0, Some 0], b_hasher = Some (\<lambda>k :: uint64. k),
      b_telemetry = (zeroTelemetry :: (unit, unit, unit) meshTelemetry), b_err = None\<rparr> = Inr m \<and> ReplicaSets m = [0]"
  using Build_accepts [of "\<lparr>h_rr = [], h_rs = [\<lparr>rs_name = ''a'', rs_primary = NewNode () (), rs_readTargets = 0, rs_writeMirrors = []\<rparr>]\<rparr>"
    "\<lparr>b_virtualShards = [Some 0, Some 0], b_hasher = Some (\<lambda>k :: uint64. k),
      b_telemetry = (zeroTelemetry :: (unit, unit, unit) meshTelemetry), b_err = None\<rparr>"
    "\<lparr>m_virtualShards = [0, 0], m_replicaSets = [0], m_hasher = (\<lambda>k :: uint64. k), m_telemetry = zeroTelemetry\<rparr>"]
  by (auto simp: rs_name_at_def rs_at_def TrimSpace_def is_space_def ReplicaSets_def first_occurrences.simps)

text \<open>The calls that can be chained on a builder.\<close>

datatype ('k, 'tp, 'mp, 'lg) builder_op =
    OpMapVirtualShard uint64 "rs_ptr option"
  | OpShardHasher "('k \<Rightarrow> uint64) option"
  | OpTracerProvider "'tp option"
  | OpMeterProvider "'mp option"
  | OpLogger "'lg option"

fun builder_call ::
  "('mp providerRef \<Rightarrow> string \<Rightarrow> go_error option) \<Rightarrow> ('k, 'tp, 'mp, 'lg) meshBuilder \<Rightarrow>
   ('k, 'tp, 'mp, 'lg) builder_op \<Rightarrow> ('k, 'tp, 'mp, 'lg) meshBuilder" where
  "builder_call E b (OpMapVirtualShard i p) = MapVirtualShard i p b"
| "builder_call E b (OpShardHasher hs) = WithShardHasher hs b"
| "builder_call E b (OpTracerProvider tp) = WithTracerProvider tp b"
| "builder_call E b (OpMeterProvider mp) = WithMeterProvider E mp b"
| "builder_call E b (OpLogger lg) = WithLogger lg b"

lemma builder_call_err: "b_err b = Some e \<Longrightarrow> b_err (builder_call E b x) = Some e"
  by (cases x) (auto simp: MapVirtualShard_def WithShardHasher_def WithTracerProvider_def
        WithMeterProvider_def WithLogger_def split: prod.split option.split)

lemma builder_calls_err: "b_err b = Some e \<Longrightarrow> b_err (foldl (builder_call E) b xs) = Some e"
  by (induction xs arbitrary: b) (simp_all add: builder_call_err)

text \<open>
  C7: the first error of a builder is the one \<^verbatim>\<open>Build\<close> returns, whatever calls follow it.
\<close>

theorem builder_error_sticky:
  assumes "b_err b = Some e"
  shows "Build h (foldl (builder_call E) b xs) = Inl e"
  using builder_calls_err [OF assms] by (simp add: Build_def)

theorem builder_error_sticky_witness:
  "Build (empty_heap :: (unit, unit) mesh_heap)
     (foldl (builder_call (\<lambda>_ _. None)) (MapVirtualShard 9 (Some 0) (NewMeshBuilder (\<lambda>_ _. None) 2))
       [OpMapVirtualShard 0 None, OpShardHasher (Some (\<lambda>k :: uint64. k)), OpLogger (Some ()), OpTracerProvider (Some ())]) =
   Inl (Wrap ''%w: %d'' [ArgNat 9] (Sentinel ErrVirtualShardOutOfRange))"
  by (rule builder_error_sticky)
    (simp add: MapVirtualShard_def NewMeshBuilder_def newMeshTelemetry_def setMeterProvider_def instrument_steps_def)

end
