(* ===== verification/Generated_Store.thy ===== *)
theory Generated_Store
  imports Generated_Wrappers Query_Telemetry Mesh_Builder "HOL-Library.Monad_Syntax"
begin

text \<open>
  The store methods that the plugin emits for routed queries, as they stand in the sharded example
  (\<^verbatim>\<open>zz_generated_store_accounts.go\<close>, \<^verbatim>\<open>zz_generated_store_reports.go\<close>): single-shard reads and writes,
  the read of all shards, the grouped COPY and the grouped lookup. Each kind of method is one
  definition over the names, the parameters and the query, and the methods are its instances.

  A call changes the read selectors of the replica sets, the telemetry and the databases, so the
  state has these three parts. Time is the clock at the number of telemetry calls made so far. The
  goroutines of a fan-out write to slots of their own; they run one after the other in the order
  given by the argument \<open>order\<close>, which is arbitrary. \<open>None\<close> is a panic.
\<close>

section \<open>State\<close>

record ('lg, 'd, 'q, 'r) runtime =
  rt_ErrorType :: "go_error \<Rightarrow> attr"
  rt_enabled :: "'lg \<Rightarrow> bool"
  rt_clock :: "nat \<Rightarrow> int"
  rt_answer :: "('d, 'q, 'r) answers"
  rt_noRows :: go_error

text \<open>A store over a mesh: \<open>ms_id\<close> is the address of the mesh, \<open>ms_zeroKey\<close> the zero value of a shard key.\<close>

record ('k, 'sk, 'tp, 'mp, 'lg) meshStore =
  ms_id :: nat
  ms_mesh :: "('sk, 'tp, 'mp, 'lg) mesh"
  ms_resolver :: "('k \<Rightarrow> 'sk) option"
  ms_zeroKey :: 'sk

record ('mp, 'd, 'q, 'r) store_state =
  st_heap :: "('d readQueries, 'd queryStore) mesh_heap"
  st_world :: "'mp tel_world"
  st_calls :: "('d, 'q, 'r) call list"

section \<open>The calls a method makes\<close>

definition now :: "('lg, 'd, 'q, 'r) runtime \<Rightarrow> ('mp, 'd, 'q, 'r) store_state \<Rightarrow> int" where
  "now rt st = rt_clock rt (length (w_events (st_world st)))"

definition shardKey_of :: "('k, 'sk, 'tp, 'mp, 'lg) meshStore \<Rightarrow> 'k \<Rightarrow> 'sk" where
  "shardKey_of s key = (case ms_resolver s of None \<Rightarrow> ms_zeroKey s | Some f \<Rightarrow> f key)"

definition start_logical ::
  "('lg, 'd, 'q, 'r) runtime \<Rightarrow> ('k, 'sk, 'tp, 'mp, 'lg) meshStore \<Rightarrow> tel_context \<Rightarrow> string \<Rightarrow> string \<Rightarrow> queryKind \<Rightarrow>
   ('mp, 'd, 'q, 'r) store_state \<Rightarrow> (tel_context \<times> ('tp, 'mp, 'lg) logicalQuerySpan \<times> ('mp, 'd, 'q, 'r) store_state) option" where
  "start_logical rt s ctx storeName queryName kind st =
     map_option (\<lambda>(ctx', l, w). (ctx', l, st\<lparr>st_world := w\<rparr>))
       (StartLogicalQuerySpan (ms_id s) (m_telemetry (ms_mesh s)) (now rt st) ctx storeName queryName kind (st_world st))"

definition set_route ::
  "routeMode \<Rightarrow> nat \<Rightarrow> ('tp, 'mp, 'lg) logicalQuerySpan \<Rightarrow> ('mp, 'd, 'q, 'r) store_state \<Rightarrow>
   ('tp, 'mp, 'lg) logicalQuerySpan \<times> ('mp, 'd, 'q, 'r) store_state" where
  "set_route mode n l st = (case SetRoute mode (int n) l (st_world st) of (l', w) \<Rightarrow> (l', st\<lparr>st_world := w\<rparr>))"

definition end_logical ::
  "('lg, 'd, 'q, 'r) runtime \<Rightarrow> go_error option \<Rightarrow> ('tp, 'mp, 'lg) logicalQuerySpan \<Rightarrow> ('mp, 'd, 'q, 'r) store_state \<Rightarrow>
   ('mp, 'd, 'q, 'r) store_state option" where
  "end_logical rt err l st =
     map_option (\<lambda>w. st\<lparr>st_world := w\<rparr>)
       (logical_End (rt_ErrorType rt) (rt_enabled rt) (now rt st) err l (st_world st))"

text \<open>A query between the start and the end of its physical span.\<close>

definition physical_run ::
  "('lg, 'd, 'q, 'r) runtime \<Rightarrow> tel_context \<Rightarrow> routeMetadata \<Rightarrow> routeMode \<Rightarrow> ('tp, 'mp, 'lg) logicalQuerySpan \<Rightarrow>
   (('d, 'q, 'r) call list \<Rightarrow> ('r \<times> go_error option) \<times> ('d, 'q, 'r) call list) \<Rightarrow>
   ('mp, 'd, 'q, 'r) store_state \<Rightarrow> (('r \<times> go_error option) \<times> ('mp, 'd, 'q, 'r) store_state) option" where
  "physical_run rt ctx r mode l query st = do {
     (_, p, w) \<leftarrow> logical_StartPhysicalQuerySpan ctx (now rt st) r mode l (st_world st);
     let (res, cs) = query (st_calls st);
     let st1 = st\<lparr>st_world := w, st_calls := cs\<rparr>;
     w' \<leftarrow> physical_End (rt_ErrorType rt) (rt_enabled rt) (now rt st1) (snd res) p (st_world st1);
     Some (res, st1\<lparr>st_world := w'\<rparr>)
   }"

definition read_route ::
  "resolvedShard \<Rightarrow> ('mp, 'd, 'q, 'r) store_state \<Rightarrow> ('d readQueries route \<times> ('mp, 'd, 'q, 'r) store_state) option" where
  "read_route shard st = map_option (\<lambda>(r, h). (r, st\<lparr>st_heap := h\<rparr>)) (shard_ReadRoute shard (st_heap st))"

section \<open>Single-shard queries\<close>

text \<open>\<^verbatim>\<open>GetAccount\<close> and \<^verbatim>\<open>CountAccounts\<close>.\<close>

definition routed_read ::
  "('lg, 'd, 'q, 'r) runtime \<Rightarrow> ('k, 'sk, 'tp, 'mp, 'lg) meshStore \<Rightarrow> tel_context \<Rightarrow> string \<Rightarrow> string \<Rightarrow> 'r \<Rightarrow> 'k \<Rightarrow> 'q \<Rightarrow>
   ('d queryOptions \<Rightarrow> 'd queryOptions) option list \<Rightarrow> ('mp, 'd, 'q, 'r) store_state \<Rightarrow>
   (('r \<times> go_error option) \<times> ('mp, 'd, 'q, 'r) store_state) option" where
  "routed_read rt s ctx storeName queryName zero key query storeOptions st = do {
     (ctx1, l, st1) \<leftarrow> start_logical rt s ctx storeName queryName QueryKindRead st;
     case Resolve (ms_mesh s) (shardKey_of s key) of
       Inl e \<Rightarrow> do {
         st2 \<leftarrow> end_logical rt (Some e) l st1;
         Some ((zero, Some e), st2)
       }
     | Inr shard \<Rightarrow>
         let options = applyQueryOptions storeOptions in
         (case opt_tx options of
            Some transaction \<Rightarrow> do {
              let (l2, st2) = set_route RouteModeTransaction 1 l st1;
              route \<leftarrow> shard_WriteRoute store_mirrors shard (st_heap st2);
              let target = queryStore_WithTx transaction (Target route);
              (res, st3) \<leftarrow> physical_run rt ctx1 (metadata route) RouteModeTransaction l2
                (read_query (rt_answer rt) zero (qs_read target) query) st2;
              st4 \<leftarrow> end_logical rt (snd res) l2 st3;
              Some (res, st4)
            }
          | None \<Rightarrow>
              if opt_primary options then do {
                let (l2, st2) = set_route RouteModePrimary 1 l st1;
                route \<leftarrow> shard_WriteRoute store_mirrors shard (st_heap st2);
                (res, st3) \<leftarrow> physical_run rt ctx1 (metadata route) RouteModePrimary l2
                  (read_query (rt_answer rt) zero (qs_read (Target route)) query) st2;
                st4 \<leftarrow> end_logical rt (snd res) l2 st3;
                Some (res, st4)
              }
              else do {
                let (l2, st2) = set_route RouteModeRead 1 l st1;
                (route, st3) \<leftarrow> read_route shard st2;
                (res, st4) \<leftarrow> physical_run rt ctx1 (metadata route) RouteModeRead l2
                  (read_query (rt_answer rt) zero (Target route) query) st3;
                st5 \<leftarrow> end_logical rt (snd res) l2 st4;
                Some (res, st5)
              })
   }"

text \<open>\<^verbatim>\<open>UpdateAccountName\<close> and \<^verbatim>\<open>UpsertAccount\<close>.\<close>

definition routed_write ::
  "('lg, 'd, 'q, 'r) runtime \<Rightarrow> ('k, 'sk, 'tp, 'mp, 'lg) meshStore \<Rightarrow> tel_context \<Rightarrow> string \<Rightarrow> string \<Rightarrow> 'r \<Rightarrow> 'k \<Rightarrow> 'q \<Rightarrow>
   ('d queryOptions \<Rightarrow> 'd queryOptions) option list \<Rightarrow> ('mp, 'd, 'q, 'r) store_state \<Rightarrow>
   (('r \<times> go_error option) \<times> ('mp, 'd, 'q, 'r) store_state) option" where
  "routed_write rt s ctx storeName queryName zero key query storeOptions st = do {
     (ctx1, l, st1) \<leftarrow> start_logical rt s ctx storeName queryName QueryKindWrite st;
     case Resolve (ms_mesh s) (shardKey_of s key) of
       Inl e \<Rightarrow> do {
         st2 \<leftarrow> end_logical rt (Some e) l st1;
         Some ((zero, Some e), st2)
       }
     | Inr shard \<Rightarrow> do {
         let options = applyQueryOptions storeOptions;
         route \<leftarrow> shard_WriteRoute store_mirrors shard (st_heap st1);
         let (target, mode) = (case opt_tx options of
                 None \<Rightarrow> (Target route, RouteModePrimary)
               | Some transaction \<Rightarrow> (queryStore_WithTx transaction (Target route), RouteModeTransaction));
         let (l2, st2) = set_route mode 1 l st1;
         (res, st3) \<leftarrow> physical_run rt ctx1 (metadata route) mode l2
           (write_query (rt_noRows rt) (rt_answer rt) zero (qs_write target) query) st2;
         st4 \<leftarrow> end_logical rt (snd res) l2 st3;
         Some (res, st4)
       }
   }"

section \<open>Fan-out\<close>

text \<open>The goroutines of a wait group, each filling its slot.\<close>

fun run_tasks ::
  "(nat \<Rightarrow> 's \<Rightarrow> ('a \<times> 's) option) \<Rightarrow> nat list \<Rightarrow> 'a list \<Rightarrow> 's \<Rightarrow> ('a list \<times> 's) option" where
  "run_tasks task [] slots st = Some (slots, st)"
| "run_tasks task (i # order) slots st = do {
     (r, st') \<leftarrow> task i st;
     run_tasks task order (slots[i := r]) st'
   }"

text \<open>The errors of the slots, each with the name of its replica set.\<close>

definition slot_errors :: "string \<Rightarrow> string list \<Rightarrow> ('a \<times> go_error option) list \<Rightarrow> go_error list" where
  "slot_errors queryName names slots =
     List.map_filter (\<lambda>(name, (_, err)).
       map_option (Wrap (''query '' @ queryName @ '' on replica set %q: %w'') [ArgStr name]) err) (zip names slots)"

text \<open>\<^verbatim>\<open>ListAllAccounts\<close>.\<close>

definition all_shards_task ::
  "('lg, 'd, 'q, 'x list) runtime \<Rightarrow> tel_context \<Rightarrow> routeMode \<Rightarrow> ('tp, 'mp, 'lg) logicalQuerySpan \<Rightarrow> 'q \<Rightarrow> bool \<Rightarrow> rs_ptr list \<Rightarrow> nat \<Rightarrow>
   ('mp, 'd, 'q, 'x list) store_state \<Rightarrow> (('x list \<times> go_error option) \<times> ('mp, 'd, 'q, 'x list) store_state) option" where
  "all_shards_task rt ctx mode l query primary sets index st =
     (if primary then do {
        route \<leftarrow> WriteRoute store_mirrors (sets ! index) (st_heap st);
        physical_run rt ctx (metadata route) mode l (read_query (rt_answer rt) [] (qs_read (Target route)) query) st
      }
      else do {
        (route, h) \<leftarrow> ReadRoute (sets ! index) (st_heap st);
        physical_run rt ctx (metadata route) mode l (read_query (rt_answer rt) [] (Target route) query) (st\<lparr>st_heap := h\<rparr>)
      })"

definition all_shards_read ::
  "('lg, 'd, 'q, 'x list) runtime \<Rightarrow> ('k, 'sk, 'tp, 'mp, 'lg) meshStore \<Rightarrow> tel_context \<Rightarrow> string \<Rightarrow> string \<Rightarrow> 'q \<Rightarrow>
   ('d queryOptions \<Rightarrow> 'd queryOptions) option list \<Rightarrow> nat list \<Rightarrow> ('mp, 'd, 'q, 'x list) store_state \<Rightarrow>
   (('x list \<times> go_error option) \<times> ('mp, 'd, 'q, 'x list) store_state) option" where
  "all_shards_read rt s ctx storeName queryName query storeOptions order st = do {
     (ctx1, l, st1) \<leftarrow> start_logical rt s ctx storeName queryName QueryKindRead st;
     let options = applyQueryOptions storeOptions;
     let sets = ReplicaSets (ms_mesh s);
     if opt_tx options \<noteq> None then do {
       let (l2, st2) = set_route RouteModeTransaction (length sets) l st1;
       st3 \<leftarrow> end_logical rt (Some (Sentinel ErrCrossShardTransaction)) l2 st2;
       Some (([], Some (Sentinel ErrCrossShardTransaction)), st3)
     }
     else do {
       let mode = (if opt_primary options then RouteModePrimary else RouteModeRead);
       let (l2, st2) = set_route mode (length sets) l st1;
       (slots, st3) \<leftarrow> run_tasks (all_shards_task rt ctx1 mode l2 query (opt_primary options) sets) order
         (replicate (length sets) ([], None)) st2;
       let err = errors_join (slot_errors queryName (map (rs_name_at (st_heap st3)) sets) slots);
       let result = (if err = None then concat (map fst slots) else []);
       st4 \<leftarrow> end_logical rt err l2 st3;
       Some ((result, err), st4)
     }
   }"

section \<open>Groups of rows\<close>

record 'p shardGroup =
  sg_shard :: resolvedShard
  sg_args :: "'p list"

text \<open>
  The routing loop of \<^verbatim>\<open>CopyAccounts\<close>. A nil item is dereferenced for its key when there is a
  resolver, and for its parameters after it has been routed.
\<close>

definition add_row :: "resolvedShard \<Rightarrow> 'p \<Rightarrow> string \<Rightarrow> (string \<rightharpoonup> 'p shardGroup) \<Rightarrow> (string \<rightharpoonup> 'p shardGroup)" where
  "add_row shard p name groups =
     (let g = (case groups name of None \<Rightarrow> \<lparr>sg_shard = shard, sg_args = []\<rparr> | Some g \<Rightarrow> g)
      in groups(name \<mapsto> g\<lparr>sg_args := sg_args g @ [p]\<rparr>))"

fun group_rows ::
  "('k, 'sk, 'tp, 'mp, 'lg) meshStore \<Rightarrow> ('r, 'w) mesh_heap \<Rightarrow> string \<Rightarrow> ('i \<Rightarrow> 'k) \<Rightarrow> ('i \<Rightarrow> 'p) \<Rightarrow> nat \<Rightarrow> 'i option list \<Rightarrow>
   (string \<rightharpoonup> 'p shardGroup) \<Rightarrow> (string \<rightharpoonup> 'p shardGroup) result option" where
  "group_rows s h queryName key params index [] groups = Some (Inr groups)"
| "group_rows s h queryName key params index (item # items) groups =
     (if item = None \<and> ms_resolver s \<noteq> None then None
      else case Resolve (ms_mesh s) (case item of None \<Rightarrow> ms_zeroKey s | Some i \<Rightarrow> shardKey_of s (key i)) of
        Inl e \<Rightarrow> Some (Inl (Wrap (''route '' @ queryName @ '' input %d: %w'') [ArgNat index] e))
      | Inr shard \<Rightarrow> do {
          name \<leftarrow> shard_ReplicaSetName shard h;
          i \<leftarrow> item;
          group_rows s h queryName key params (Suc index) items (add_row shard (params i) name groups)
        })"

definition ordered_groups :: "('sk, 'tp, 'mp, 'lg) mesh \<Rightarrow> ('r, 'w) mesh_heap \<Rightarrow> (string \<rightharpoonup> 'g) \<Rightarrow> 'g list" where
  "ordered_groups m h groups = List.map_filter (\<lambda>p. groups (rs_name_at h p)) (ReplicaSets m)"

definition copy_task ::
  "('lg, 'd, 'p list, int64) runtime \<Rightarrow> tel_context \<Rightarrow> 'd option \<Rightarrow> routeMode \<Rightarrow> ('tp, 'mp, 'lg) logicalQuerySpan \<Rightarrow> 'p shardGroup list \<Rightarrow> nat \<Rightarrow>
   ('mp, 'd, 'p list, int64) store_state \<Rightarrow> ((int64 \<times> go_error option) \<times> ('mp, 'd, 'p list, int64) store_state) option" where
  "copy_task rt ctx transaction mode l groups index st = do {
     route \<leftarrow> shard_WriteRoute store_mirrors (sg_shard (groups ! index)) (st_heap st);
     let target = (case transaction of None \<Rightarrow> Target route | Some t \<Rightarrow> queryStore_WithTx t (Target route));
     physical_run rt ctx (WithoutVirtualShard (metadata route)) mode l
       (write_query (rt_noRows rt) (rt_answer rt) 0 (qs_write target) (sg_args (groups ! index))) st
   }"

text \<open>\<^verbatim>\<open>CopyAccounts\<close>.\<close>

definition grouped_copy ::
  "('lg, 'd, 'p list, int64) runtime \<Rightarrow> ('k, 'sk, 'tp, 'mp, 'lg) meshStore \<Rightarrow> tel_context \<Rightarrow> string \<Rightarrow> string \<Rightarrow> ('i \<Rightarrow> 'k) \<Rightarrow> ('i \<Rightarrow> 'p) \<Rightarrow>
   'i option list \<Rightarrow> ('d queryOptions \<Rightarrow> 'd queryOptions) option list \<Rightarrow> nat list \<Rightarrow> ('mp, 'd, 'p list, int64) store_state \<Rightarrow>
   ((int64 \<times> go_error option) \<times> ('mp, 'd, 'p list, int64) store_state) option" where
  "grouped_copy rt s ctx storeName queryName key params arg storeOptions order st = do {
     (ctx1, l, st1) \<leftarrow> start_logical rt s ctx storeName queryName QueryKindWrite st;
     let options = applyQueryOptions storeOptions;
     routed \<leftarrow> group_rows s (st_heap st1) queryName key params 0 arg Map.empty;
     case routed of
       Inl e \<Rightarrow> do {
         st2 \<leftarrow> end_logical rt (Some e) l st1;
         Some ((0, Some e), st2)
       }
     | Inr groupsByName \<Rightarrow>
         let groups = ordered_groups (ms_mesh s) (st_heap st1) groupsByName in
         if opt_tx options \<noteq> None \<and> length groups > 1 then do {
           let (l2, st2) = set_route RouteModeTransaction (length groups) l st1;
           st3 \<leftarrow> end_logical rt (Some (Sentinel ErrCrossShardTransaction)) l2 st2;
           Some ((0, Some (Sentinel ErrCrossShardTransaction)), st3)
         }
         else do {
           let mode = (if opt_tx options \<noteq> None then RouteModeTransaction else RouteModePrimary);
           let (l2, st2) = set_route mode (length groups) l st1;
           if groups = [] then do {
             st3 \<leftarrow> end_logical rt None l2 st2;
             Some ((0, None), st3)
           }
           else do {
             (slots, st3) \<leftarrow> run_tasks (copy_task rt ctx1 (opt_tx options) mode l2 groups) order
               (replicate (length groups) (0, None)) st2;
             names \<leftarrow> those (map (\<lambda>g. shard_ReplicaSetName (sg_shard g) (st_heap st3)) groups);
             let err = errors_join (slot_errors queryName names slots);
             let result = (if err = None then sum_list (map fst slots) else 0);
             st4 \<leftarrow> end_logical rt err l2 st3;
             Some ((result, err), st4)
           }
         }
   }"

section \<open>Groups of lookups\<close>

record 'v manyGroup =
  mg_shard :: resolvedShard
  mg_args :: "'v list"
  mg_requested :: "'v set"

text \<open>
  The routing loop of \<^verbatim>\<open>ListAccountsByIDs\<close>: the groups, and the lookups in the order of their first
  occurrence in a group. \<open>comparable\<close> and \<open>typeName\<close> are what reflection says about a key.
\<close>

fun group_lookups ::
  "('k, 'sk, 'tp, 'mp, 'lg) meshStore \<Rightarrow> ('r, 'w) mesh_heap \<Rightarrow> string \<Rightarrow> ('i \<Rightarrow> 'k) \<Rightarrow> ('i \<Rightarrow> 'v) \<Rightarrow> ('v \<Rightarrow> bool) \<Rightarrow> ('v \<Rightarrow> string) \<Rightarrow>
   nat \<Rightarrow> 'i option list \<Rightarrow> (string \<rightharpoonup> 'v manyGroup) \<Rightarrow> (string \<times> 'v) list \<Rightarrow>
   ((string \<rightharpoonup> 'v manyGroup) \<times> (string \<times> 'v) list) result option" where
  "group_lookups s h queryName key lookup comparable typeName index [] groups ordered = Some (Inr (groups, ordered))"
| "group_lookups s h queryName key lookup comparable typeName index (None # items) groups ordered =
     Some (Inl (Errorf (''route '' @ queryName @ '' input %d: shard parameter is nil'') [ArgNat index]))"
| "group_lookups s h queryName key lookup comparable typeName index (Some item # items) groups ordered =
     (if \<not> comparable (lookup item) then
        Some (Inl (Errorf (''route '' @ queryName @ '' input %d: lookup key type %T is not comparable'')
          [ArgNat index, ArgStr (typeName (lookup item))]))
      else case Resolve (ms_mesh s) (shardKey_of s (key item)) of
        Inl e \<Rightarrow> Some (Inl (Wrap (''route '' @ queryName @ '' input %d: %w'') [ArgNat index] e))
      | Inr shard \<Rightarrow> do {
          name \<leftarrow> shard_ReplicaSetName shard h;
          let g = (case groups name of None \<Rightarrow> \<lparr>mg_shard = shard, mg_args = [], mg_requested = {}\<rparr> | Some g \<Rightarrow> g);
          if lookup item \<in> mg_requested g
          then group_lookups s h queryName key lookup comparable typeName (Suc index) items (groups(name \<mapsto> g)) ordered
          else group_lookups s h queryName key lookup comparable typeName (Suc index) items
            (groups(name \<mapsto> g\<lparr>mg_requested := insert (lookup item) (mg_requested g), mg_args := mg_args g @ [lookup item]\<rparr>))
            (ordered @ [(name, lookup item)])
        })"

definition many_task ::
  "('lg, 'd, 'v list, 'x list) runtime \<Rightarrow> tel_context \<Rightarrow> 'd queryOptions \<Rightarrow> routeMode \<Rightarrow> ('tp, 'mp, 'lg) logicalQuerySpan \<Rightarrow> 'v manyGroup list \<Rightarrow> nat \<Rightarrow>
   ('mp, 'd, 'v list, 'x list) store_state \<Rightarrow> (('x list \<times> go_error option) \<times> ('mp, 'd, 'v list, 'x list) store_state) option" where
  "many_task rt ctx options mode l groups index st =
     (case opt_tx options of
        Some transaction \<Rightarrow> do {
          route \<leftarrow> shard_WriteRoute store_mirrors (mg_shard (groups ! index)) (st_heap st);
          physical_run rt ctx (WithoutVirtualShard (metadata route)) mode l
            (read_query (rt_answer rt) [] (qs_read (queryStore_WithTx transaction (Target route))) (mg_args (groups ! index))) st
        }
      | None \<Rightarrow>
          if opt_primary options then do {
            route \<leftarrow> shard_WriteRoute store_mirrors (mg_shard (groups ! index)) (st_heap st);
            physical_run rt ctx (WithoutVirtualShard (metadata route)) mode l
              (read_query (rt_answer rt) [] (qs_read (Target route)) (mg_args (groups ! index))) st
          }
          else do {
            (route, st1) \<leftarrow> read_route (mg_shard (groups ! index)) st;
            physical_run rt ctx (WithoutVirtualShard (metadata route)) mode l
              (read_query (rt_answer rt) [] (Target route) (mg_args (groups ! index))) st1
          })"

text \<open>The rows of one group by their key, and the errors of the rows that do not belong there.\<close>

fun index_rows ::
  "string \<Rightarrow> string \<Rightarrow> 'v set \<Rightarrow> ('x \<Rightarrow> 'v) \<Rightarrow> ('v \<Rightarrow> bool) \<Rightarrow> ('v \<Rightarrow> string) \<Rightarrow> nat \<Rightarrow> 'x option list \<Rightarrow>
   go_error list \<times> ('v \<Rightarrow> 'x option list) \<Rightarrow> go_error list \<times> ('v \<Rightarrow> 'x option list)" where
  "index_rows queryName name requested rowKey comparable typeName index [] acc = acc"
| "index_rows queryName name requested rowKey comparable typeName index (None # rows) (errs, byKey) =
     index_rows queryName name requested rowKey comparable typeName (Suc index) rows
       (errs @ [Errorf (''query '' @ queryName @ '' on replica set %q returned nil row at result %d'') [ArgStr name, ArgNat index]], byKey)"
| "index_rows queryName name requested rowKey comparable typeName index (Some row # rows) (errs, byKey) =
     index_rows queryName name requested rowKey comparable typeName (Suc index) rows
       (if \<not> comparable (rowKey row) then
          (errs @ [Errorf (''query '' @ queryName @ '' on replica set %q result %d has non-comparable lookup key type %T'')
             [ArgStr name, ArgNat index, ArgStr (typeName (rowKey row))]], byKey)
        else if rowKey row \<notin> requested then
          (errs @ [Errorf (''query '' @ queryName @ '' on replica set %q result %d has an unrequested lookup key'')
             [ArgStr name, ArgNat index]], byKey)
        else (errs, byKey(rowKey row := byKey (rowKey row) @ [Some row])))"

fun index_groups ::
  "string \<Rightarrow> ('x \<Rightarrow> 'v) \<Rightarrow> ('v \<Rightarrow> bool) \<Rightarrow> ('v \<Rightarrow> string) \<Rightarrow> (string \<times> 'v manyGroup \<times> 'x option list) list \<Rightarrow>
   go_error list \<times> (string \<Rightarrow> 'v \<Rightarrow> 'x option list) \<Rightarrow> go_error list \<times> (string \<Rightarrow> 'v \<Rightarrow> 'x option list)" where
  "index_groups queryName rowKey comparable typeName [] acc = acc"
| "index_groups queryName rowKey comparable typeName ((name, g, rows) # rest) (errs, byGroup) =
     (case index_rows queryName name (mg_requested g) rowKey comparable typeName 0 rows (errs, \<lambda>_. []) of
        (errs', byKey) \<Rightarrow> index_groups queryName rowKey comparable typeName rest (errs', byGroup(name := byKey)))"

text \<open>\<^verbatim>\<open>ListAccountsByIDs\<close>.\<close>

definition grouped_many ::
  "('lg, 'd, 'v list, 'x option list) runtime \<Rightarrow> ('k, 'sk, 'tp, 'mp, 'lg) meshStore \<Rightarrow> tel_context \<Rightarrow> string \<Rightarrow> string \<Rightarrow> ('i \<Rightarrow> 'k) \<Rightarrow> ('i \<Rightarrow> 'v) \<Rightarrow>
   ('x \<Rightarrow> 'v) \<Rightarrow> ('v \<Rightarrow> bool) \<Rightarrow> ('v \<Rightarrow> string) \<Rightarrow> 'i option list \<Rightarrow> ('d queryOptions \<Rightarrow> 'd queryOptions) option list \<Rightarrow> nat list \<Rightarrow>
   ('mp, 'd, 'v list, 'x option list) store_state \<Rightarrow>
   (('x option list \<times> go_error option) \<times> ('mp, 'd, 'v list, 'x option list) store_state) option" where
  "grouped_many rt s ctx storeName queryName key lookup rowKey comparable typeName arg storeOptions order st = do {
     (ctx1, l, st1) \<leftarrow> start_logical rt s ctx storeName queryName QueryKindRead st;
     let options = applyQueryOptions storeOptions;
     routed \<leftarrow> group_lookups s (st_heap st1) queryName key lookup comparable typeName 0 arg Map.empty [];
     case routed of
       Inl e \<Rightarrow> do {
         st2 \<leftarrow> end_logical rt (Some e) l st1;
         Some (([], Some e), st2)
       }
     | Inr (groupsByName, orderedItems) \<Rightarrow>
         let groups = ordered_groups (ms_mesh s) (st_heap st1) groupsByName in
         if opt_tx options \<noteq> None \<and> length groups > 1 then do {
           let (l2, st2) = set_route RouteModeTransaction (length groups) l st1;
           st3 \<leftarrow> end_logical rt (Some (Sentinel ErrCrossShardTransaction)) l2 st2;
           Some (([], Some (Sentinel ErrCrossShardTransaction)), st3)
         }
         else do {
           let mode = (if opt_tx options \<noteq> None then RouteModeTransaction
                       else if opt_primary options then RouteModePrimary else RouteModeRead);
           let (l2, st2) = set_route mode (length groups) l st1;
           if groups = [] then do {
             st3 \<leftarrow> end_logical rt None l2 st2;
             Some (([], None), st3)
           }
           else do {
             (slots, st3) \<leftarrow> run_tasks (many_task rt ctx1 options mode l2 groups) order
               (replicate (length groups) ([], None)) st2;
             names \<leftarrow> those (map (\<lambda>g. shard_ReplicaSetName (mg_shard g) (st_heap st3)) groups);
             let err = errors_join (slot_errors queryName names slots);
             if err \<noteq> None then do {
               st4 \<leftarrow> end_logical rt err l2 st3;
               Some (([], err), st4)
             }
             else do {
               let (errs, byGroup) = index_groups queryName rowKey comparable typeName
                 (zip names (zip groups (map fst slots))) ([], \<lambda>_ _. []);
               let err = errors_join errs;
               let result = (if err = None then concat (map (\<lambda>(name, v). byGroup name v) orderedItems) else []);
               st4 \<leftarrow> end_logical rt err l2 st3;
               Some ((result, err), st4)
             }
           }
         }
   }"

section \<open>The methods of the example\<close>

record tenantKey =
  TenantID :: int64

record account =
  acc_ID :: int64
  acc_TenantID :: int64
  acc_DisplayName :: string

record getAccountParams =
  gap_TenantID :: int64
  gap_ID :: int64

record getAccountT =
  ga_TenantKey :: tenantKey
  ga_ID :: int64

definition getAccount_sqlcParams :: "getAccountT \<Rightarrow> getAccountParams" where
  "getAccount_sqlcParams arg = \<lparr>gap_TenantID = TenantID (ga_TenantKey arg), gap_ID = ga_ID arg\<rparr>"

record copyAccountsParams =
  cap_ID :: int64
  cap_TenantID :: int64
  cap_DisplayName :: string

record copyAccountsT =
  ca_TenantKey :: tenantKey
  ca_ID :: int64
  ca_DisplayName :: string

definition copyAccounts_sqlcParams :: "copyAccountsT \<Rightarrow> copyAccountsParams" where
  "copyAccounts_sqlcParams arg =
     \<lparr>cap_ID = ca_ID arg, cap_TenantID = TenantID (ca_TenantKey arg), cap_DisplayName = ca_DisplayName arg\<rparr>"

record updateAccountNameParams =
  uap_TenantID :: int64
  uap_ID :: int64
  uap_DisplayName :: string

record updateAccountNameT =
  ua_TenantKey :: tenantKey
  ua_ID :: int64
  ua_DisplayName :: string

definition updateAccountName_sqlcParams :: "updateAccountNameT \<Rightarrow> updateAccountNameParams" where
  "updateAccountName_sqlcParams arg =
     \<lparr>uap_TenantID = TenantID (ua_TenantKey arg), uap_ID = ua_ID arg, uap_DisplayName = ua_DisplayName arg\<rparr>"

record upsertAccountParams =
  upp_ID :: int64
  upp_TenantID :: int64
  upp_DisplayName :: string

record upsertAccountT =
  up_TenantKey :: tenantKey
  up_ID :: int64
  up_DisplayName :: string

definition upsertAccount_sqlcParams :: "upsertAccountT \<Rightarrow> upsertAccountParams" where
  "upsertAccount_sqlcParams arg =
     \<lparr>upp_ID = up_ID arg, upp_TenantID = TenantID (up_TenantKey arg), upp_DisplayName = up_DisplayName arg\<rparr>"

record listAccountsByIDsT =
  la_TenantKey :: tenantKey
  la_ID :: int64

record countAccountsT =
  co_TenantKey :: tenantKey

definition GetAccount where
  "GetAccount rt s ctx arg storeOptions st =
     routed_read rt s ctx ''Accounts'' ''GetAccount'' (None :: account option) (ga_TenantKey arg) (getAccount_sqlcParams arg) storeOptions st"

definition CountAccounts where
  "CountAccounts rt s ctx arg storeOptions st =
     routed_read rt s ctx ''Reports'' ''CountAccounts'' (0 :: int64) (co_TenantKey arg) (TenantID (co_TenantKey arg)) storeOptions st"

definition UpdateAccountName where
  "UpdateAccountName rt s ctx arg storeOptions st =
     routed_write rt s ctx ''Accounts'' ''UpdateAccountName'' (None :: account option) (ua_TenantKey arg) (updateAccountName_sqlcParams arg) storeOptions st"

definition UpsertAccount where
  "UpsertAccount rt s ctx arg storeOptions st =
     routed_write rt s ctx ''Accounts'' ''UpsertAccount'' (None :: account option) (up_TenantKey arg) (upsertAccount_sqlcParams arg) storeOptions st"

definition ListAllAccounts where
  "ListAllAccounts rt s ctx storeOptions order st =
     all_shards_read rt s ctx ''Accounts'' ''ListAllAccounts'' () storeOptions order
       (st :: ('mp, 'd, unit, account option list) store_state)"

definition CopyAccounts where
  "CopyAccounts rt s ctx arg storeOptions order st =
     grouped_copy rt s ctx ''Accounts'' ''CopyAccounts'' ca_TenantKey copyAccounts_sqlcParams arg storeOptions order st"

text \<open>A key of type \<^verbatim>\<open>int64\<close> is always comparable.\<close>

definition ListAccountsByIDs where
  "ListAccountsByIDs rt s ctx arg storeOptions order st =
     grouped_many rt s ctx ''Accounts'' ''ListAccountsByIDs'' la_TenantKey la_ID acc_ID (\<lambda>_. True) (\<lambda>_. ''int64'')
       arg storeOptions order st"

section \<open>The telemetry wrapper of a group\<close>

definition with_store_span ::
  "('lg, 'd, 'q, 'r) runtime \<Rightarrow> ('k, 'sk, 'tp, 'mp, 'lg) meshStore \<Rightarrow> tel_context \<Rightarrow> string \<Rightarrow> string \<Rightarrow> queryKind \<Rightarrow>
   (tel_context \<Rightarrow> ('mp, 'd, 'q, 'r) store_state \<Rightarrow> (('x \<times> go_error option) \<times> ('mp, 'd, 'q, 'r) store_state) option) \<Rightarrow>
   ('mp, 'd, 'q, 'r) store_state \<Rightarrow> (('x \<times> go_error option) \<times> ('mp, 'd, 'q, 'r) store_state) option" where
  "with_store_span rt s ctx storeName queryName kind target st = do {
     (ctx1, x, w) \<leftarrow> StartStoreQuerySpan (ms_id s) (m_telemetry (ms_mesh s)) (now rt st) ctx storeName queryName kind (st_world st);
     (res, st1) \<leftarrow> target ctx1 (st\<lparr>st_world := w\<rparr>);
     w' \<leftarrow> store_End (rt_ErrorType rt) (rt_enabled rt) (now rt st1) (snd res) x (st_world st1);
     Some (res, st1\<lparr>st_world := w'\<rparr>)
   }"

text \<open>The wrapped group is a parameter: the generated group itself or what a factory returned.\<close>

definition telemetry_CopyAccounts where
  "telemetry_CopyAccounts rt s target ctx arg storeOptions st =
     with_store_span rt s ctx ''Accounts'' ''CopyAccounts'' QueryKindWrite (\<lambda>ctx'. target ctx' arg storeOptions) st"

definition telemetry_GetAccount where
  "telemetry_GetAccount rt s target ctx arg storeOptions st =
     with_store_span rt s ctx ''Accounts'' ''GetAccount'' QueryKindRead (\<lambda>ctx'. target ctx' arg storeOptions) st"

definition telemetry_ListAccountsByIDs where
  "telemetry_ListAccountsByIDs rt s target ctx arg storeOptions st =
     with_store_span rt s ctx ''Accounts'' ''ListAccountsByIDs'' QueryKindRead (\<lambda>ctx'. target ctx' arg storeOptions) st"

definition telemetry_UpdateAccountName where
  "telemetry_UpdateAccountName rt s target ctx arg storeOptions st =
     with_store_span rt s ctx ''Accounts'' ''UpdateAccountName'' QueryKindWrite (\<lambda>ctx'. target ctx' arg storeOptions) st"

definition telemetry_UpsertAccount where
  "telemetry_UpsertAccount rt s target ctx arg storeOptions st =
     with_store_span rt s ctx ''Accounts'' ''UpsertAccount'' QueryKindWrite (\<lambda>ctx'. target ctx' arg storeOptions) st"

definition telemetry_CountAccounts where
  "telemetry_CountAccounts rt s target ctx arg storeOptions st =
     with_store_span rt s ctx ''Reports'' ''CountAccounts'' QueryKindRead (\<lambda>ctx'. target ctx' arg storeOptions) st"

definition telemetry_ListAllAccounts where
  "telemetry_ListAllAccounts rt s target ctx storeOptions st =
     with_store_span rt s ctx ''Accounts'' ''ListAllAccounts'' QueryKindRead (\<lambda>ctx'. target ctx' storeOptions) st"

section \<open>Telemetry never stops a method\<close>

text \<open>The telemetry of a built mesh: a tracer, all instruments of one provider, and the error attribute of the SDK.\<close>

definition env_ok :: "('lg, 'd, 'q, 'r) runtime \<Rightarrow> ('k, 'sk, 'tp, 'mp, 'lg) meshStore \<Rightarrow> 'mp providerRef \<Rightarrow> bool" where
  "env_ok rt s p \<longleftrightarrow> (\<forall>e. fst (rt_ErrorType rt e) = ''error.type'') \<and>
     tracer (m_telemetry (ms_mesh s)) \<noteq> None \<and> instruments_from p (m_telemetry (ms_mesh s))"

definition span_ok :: "'mp providerRef \<Rightarrow> ('tp, 'mp, 'lg) logicalQuerySpan \<Rightarrow> bool" where
  "span_ok p l \<longleftrightarrow> ls_tracer l \<noteq> None \<and> ls_physicalInFlight l = Some (p, MetricPhysicalQueryInFlight) \<and>
     ls_physicalDuration l \<noteq> None \<and> ls_logicalDuration l \<noteq> None \<and> keys_ok (ls_attributes l)"

text \<open>The in-flight counter of every set of attributes is the same in both worlds.\<close>

definition settles :: "'mp providerRef \<Rightarrow> 'mp tel_world \<Rightarrow> 'mp tel_world \<Rightarrow> bool" where
  "settles p w w' \<longleftrightarrow> (\<forall>as. counter_value (p, MetricPhysicalQueryInFlight) as (w_events w') =
     counter_value (p, MetricPhysicalQueryInFlight) as (w_events w))"

lemma settles_refl [simp]: "settles p w w"
  by (simp add: settles_def)

lemma settles_trans: "settles p w w1 \<Longrightarrow> settles p w1 w2 \<Longrightarrow> settles p w w2"
  by (simp add: settles_def)

lemma settles_quietly: "quietly (p, MetricPhysicalQueryInFlight) w w' \<Longrightarrow> settles p w w'"
  by (simp add: settles_def counter_quietly)

lemma start_logical_ok:
  assumes "env_ok rt s p"
  shows "\<exists>ctx' l w. start_logical rt s ctx a b k st = Some (ctx', l, st\<lparr>st_world := w\<rparr>) \<and> span_ok p l \<and> settles p (st_world st) w"
proof -
  let ?t = "m_telemetry (ms_mesh s)"
  obtain tr where tr: "tracer ?t = Some tr" using assms by (auto simp: env_ok_def)
  then obtain ctx' l w where st: "StartLogicalQuerySpan (ms_id s) ?t (now rt st) ctx a b k (st_world st) = Some (ctx', l, w)"
    by (auto simp: StartLogicalQuerySpan_def tracer_Start_def Let_def)
  have i: "instruments_from p ?t" using assms by (simp add: env_ok_def)
  have f: "ls_tracer l = tracer ?t" "ls_physicalDuration l = physicalDuration ?t"
    using st tr by (auto simp: StartLogicalQuerySpan_def tracer_Start_def Let_def)
  note q = StartLogicalQuerySpan_quietly [OF st, of "(p, MetricPhysicalQueryInFlight)"]
  have "span_ok p l" using q f tr i by (auto simp: span_ok_def instruments_from_def)
  with st settles_quietly q show ?thesis by (fastforce simp: start_logical_def)
qed

lemma set_route_ok:
  assumes "span_ok p l"
  shows "\<exists>l' w. set_route mode n l st = (l', st\<lparr>st_world := w\<rparr>) \<and> span_ok p l' \<and> settles p (st_world st) w"
proof -
  obtain l' w where s: "SetRoute mode (int n) l (st_world st) = (l', w)" by (cases "SetRoute mode (int n) l (st_world st)")
  have f: "ls_tracer l' = ls_tracer l" "ls_physicalDuration l' = ls_physicalDuration l"
    using s by (auto simp: SetRoute_def Let_def)
  note q = SetRoute_quietly [OF s, of "(p, MetricPhysicalQueryInFlight)"]
  have "span_ok p l'" using q f assms by (auto simp: span_ok_def)
  with s settles_quietly q show ?thesis by (fastforce simp: set_route_def)
qed

lemma end_logical_ok:
  assumes "env_ok rt s p" and "span_ok p l"
  shows "\<exists>w. end_logical rt err l st = Some (st\<lparr>st_world := w\<rparr>) \<and> settles p (st_world st) w"
proof -
  obtain w where e: "logical_End (rt_ErrorType rt) (rt_enabled rt) (now rt st) err l (st_world st) = Some w"
    using assms(2) by (auto simp: logical_End_def use_instrument_def span_ok_def Let_def)
  have "quietly (p, MetricPhysicalQueryInFlight) (st_world st) w"
    using logical_End_quietly [OF e] assms by (simp add: env_ok_def span_ok_def)
  with e settles_quietly show ?thesis by (fastforce simp: end_logical_def)
qed

lemma physical_run_ok:
  assumes "env_ok rt s p" and "span_ok p l" and "query (st_calls st) = (res, cs)"
  shows "\<exists>w. physical_run rt ctx r mode l query st = Some (res, st\<lparr>st_world := w, st_calls := cs\<rparr>) \<and> settles p (st_world st) w"
proof -
  let ?i = "(p, MetricPhysicalQueryInFlight)"
  obtain tr where tr: "ls_tracer l = Some tr" "ls_physicalInFlight l = Some ?i" using assms(2) by (auto simp: span_ok_def)
  then obtain ctx' q w where q: "startPhysicalQuerySpan ctx (ls_tracer l) (ls_physicalDuration l) (Some ?i) (ls_logger l) (now rt st)
      (ls_storeName l) (ls_queryName l) (ls_kind l) r mode (st_world st) = Some (ctx', q, w)"
    by (auto simp: startPhysicalQuerySpan_def tracer_Start_def use_instrument_def Let_def)
  have d: "ps_physicalDuration q \<noteq> None"
    using q assms(2) tr by (auto simp: startPhysicalQuerySpan_def tracer_Start_def use_instrument_def Let_def span_ok_def)
  note c = startPhysical_counts [OF q]
  let ?st1 = "st\<lparr>st_world := w, st_calls := cs\<rparr>"
  obtain w' where w': "physical_End (rt_ErrorType rt) (rt_enabled rt) (now rt ?st1) (snd res) q w = Some w'"
    using c d by (auto simp: physical_End_def use_instrument_def Let_def)
  have "settles p (st_world st) w'"
    using physical_End_counts [OF w'] c assms(1) by (simp add: settles_def env_ok_def)
  moreover have "physical_run rt ctx r mode l query st = Some (res, st\<lparr>st_world := w', st_calls := cs\<rparr>)"
    using q w' tr assms(3) by (simp add: physical_run_def logical_StartPhysicalQuerySpan_def)
  ultimately show ?thesis by blast
qed

section \<open>Single-shard queries\<close>

lemma write_route_of:
  assumes "rs_at h (sh_replicaSet shard) = Some rs"
  shows "\<exists>route. shard_WriteRoute store_mirrors shard h = Some route
    \<and> Target route = store_mirrors (writer (rs_primary rs)) (rs_writeMirrors rs)"
  using assms by (simp add: shard_WriteRoute_def WriteRoute_def route_to_def selectWrite_def withVirtualShard_def)

lemma read_route_of:
  assumes "heap_ok h" and "rs_at h (sh_replicaSet shard) = Some rs"
  shows "\<exists>route h'. ReadRoute (sh_replicaSet shard) h = Some (route, h')
    \<and> shard_ReadRoute shard h = Some (withVirtualShard route (sh_virtualShardIndex shard), h')"
  using ReadRoute_step [OF assms] by (auto simp: shard_ReadRoute_def)

lemma Target_withVirtualShard [simp]: "Target (withVirtualShard r i) = Target r"
  by (simp add: withVirtualShard_def)

text \<open>Routing, running and ending around a query that only adds to the calls.\<close>

lemma route_run_end_ok:
  assumes "env_ok rt s p" and "span_ok p l" and "settles p (st_world st) w1" and "query (st_calls st) = (res, cs)"
  obtains l2 w2 w3 w where "set_route mode n l (st\<lparr>st_world := w1\<rparr>) = (l2, st\<lparr>st_world := w2\<rparr>)"
    and "physical_run rt ctx r mode l2 query (st\<lparr>st_world := w2, st_heap := h\<rparr>) =
        Some (res, st\<lparr>st_heap := h, st_world := w3, st_calls := cs\<rparr>)"
    and "end_logical rt (snd res) l2 (st\<lparr>st_heap := h, st_world := w3, st_calls := cs\<rparr>) =
        Some (st\<lparr>st_heap := h, st_world := w, st_calls := cs\<rparr>)"
    and "settles p (st_world st) w"
proof -
  obtain l2 w2 where l2: "set_route mode n l (st\<lparr>st_world := w1\<rparr>) = (l2, st\<lparr>st_world := w2\<rparr>)" "span_ok p l2" "settles p w1 w2"
    using set_route_ok [OF assms(2), of mode n "st\<lparr>st_world := w1\<rparr>"] by auto
  let ?st2 = "st\<lparr>st_heap := h, st_world := w2\<rparr>"
  have "query (st_calls ?st2) = (res, cs)" using assms(4) by simp
  from physical_run_ok [where st = ?st2 and query = query and ctx = ctx and r = r and mode = mode, OF assms(1) l2(2) this]
  obtain w3 where w3: "physical_run rt ctx r mode l2 query ?st2 = Some (res, ?st2\<lparr>st_world := w3, st_calls := cs\<rparr>)" "settles p w2 w3"
    by auto
  let ?st3 = "?st2\<lparr>st_world := w3, st_calls := cs\<rparr>"
  obtain w where w: "end_logical rt (snd res) l2 ?st3 = Some (?st3\<lparr>st_world := w\<rparr>)" "settles p w3 w"
    using end_logical_ok [OF assms(1) l2(2), of "snd res" ?st3] by auto
  show ?thesis
  proof
    show "set_route mode n l (st\<lparr>st_world := w1\<rparr>) = (l2, st\<lparr>st_world := w2\<rparr>)" by (rule l2(1))
    show "settles p (st_world st) w"
      by (rule settles_trans [OF settles_trans [OF settles_trans [OF assms(3) l2(3)] w3(2)] w(2)])
    have "?st3\<lparr>st_world := w\<rparr> = st\<lparr>st_heap := h, st_world := w, st_calls := cs\<rparr>" by simp
    with w(1) show "end_logical rt (snd res) l2 (st\<lparr>st_heap := h, st_world := w3, st_calls := cs\<rparr>) =
        Some (st\<lparr>st_heap := h, st_world := w, st_calls := cs\<rparr>)" by simp
    have "?st2 = st\<lparr>st_world := w2, st_heap := h\<rparr>" by simp
    with w3(1) show "physical_run rt ctx r mode l2 query (st\<lparr>st_world := w2, st_heap := h\<rparr>) =
        Some (res, st\<lparr>st_heap := h, st_world := w3, st_calls := cs\<rparr>)" by simp
  qed
qed

text \<open>The databases of the read side: the primary of a set, and the target of a read route.\<close>

definition primary_db :: "('d readQueries, 'd queryStore) replicaSet \<Rightarrow> 'd" where
  "primary_db rs = db (wr_main (qs_write (writer (rs_primary rs))))"

lemma read_db_store_mirrors [simp]: "db (rd_main (qs_read (store_mirrors w ms))) = db (wr_main (qs_write w))"
  by (simp add: store_mirrors_def queryStore_WithMirrors_def newQueryStore_def newReadQueries_def)

lemma read_db_WithTx [simp]: "db (rd_main (qs_read (queryStore_WithTx t w))) = t"
  by (simp add: queryStore_WithTx_def newQueryStore_def newReadQueries_def Queries_WithTx_def)

definition read_result :: "'r \<Rightarrow> ('d, 'q, 'r) call \<Rightarrow> 'r \<times> go_error option" where
  "read_result zero c = (if snd (c_result c) = None then c_result c else (zero, snd (c_result c)))"

lemma snd_read_result [simp]: "snd (read_result zero c) = snd (c_result c)"
  by (simp add: read_result_def)

lemma read_query_result:
  "\<exists>c. read_query answer zero q query cs = (read_result zero c, cs @ [c]) \<and> c_db c = db (rd_main q) \<and> c_query c = query"
proof -
  obtain r cs' where r: "read_query answer zero q query cs = (r, cs')" by (cases "read_query answer zero q query cs")
  let ?c = "\<lparr>c_db = db (rd_main q), c_query = query, c_result = answer cs (db (rd_main q)) query\<rparr>"
  have "r = read_result zero ?c" using read_query_calls [OF r] by (auto simp: read_result_def prod_eq_iff)
  with r read_query_calls [OF r] show ?thesis by (intro exI [of _ ?c]) simp
qed

text \<open>Which database a read reaches, and the heap after it.\<close>

definition read_goes_to ::
  "'d queryOptions \<Rightarrow> rs_ptr \<Rightarrow> ('d readQueries, 'd queryStore) mesh_heap \<Rightarrow> 'd \<Rightarrow> ('d readQueries, 'd queryStore) mesh_heap \<Rightarrow> bool" where
  "read_goes_to options q h d h' \<longleftrightarrow>
     (case opt_tx options of
        Some transaction \<Rightarrow> d = transaction \<and> h' = h
      | None \<Rightarrow> if opt_primary options then rs_at h q \<noteq> None \<and> d = primary_db (the (rs_at h q)) \<and> h' = h
                else \<exists>route. ReadRoute q h = Some (route, h') \<and> d = db (rd_main (Target route)))"

lemma routed_read_ok:
  assumes "env_ok rt s p" and "heap_ok (st_heap st)" and res: "Resolve (ms_mesh s) (shardKey_of s key) = Inr shard"
    and rs: "rs_at (st_heap st) (sh_replicaSet shard) = Some rs"
  shows "\<exists>c h w. routed_read rt s ctx a b zero key query storeOptions st =
      Some (read_result zero c, st\<lparr>st_heap := h, st_world := w, st_calls := st_calls st @ [c]\<rparr>)
    \<and> c_query c = query \<and> read_goes_to (applyQueryOptions storeOptions) (sh_replicaSet shard) (st_heap st) (c_db c) h
    \<and> settles p (st_world st) w"
proof -
  let ?o = "applyQueryOptions storeOptions"
  obtain ctx1 l w1 where l: "start_logical rt s ctx a b QueryKindRead st = Some (ctx1, l, st\<lparr>st_world := w1\<rparr>)" "span_ok p l"
    "settles p (st_world st) w1" using start_logical_ok [OF assms(1)] by blast
  obtain wr where wr: "shard_WriteRoute store_mirrors shard (st_heap st) = Some wr"
    "Target wr = store_mirrors (writer (rs_primary rs)) (rs_writeMirrors rs)" using write_route_of [OF rs] by blast
  obtain rr h where rr: "ReadRoute (sh_replicaSet shard) (st_heap st) = Some (rr, h)"
    "shard_ReadRoute shard (st_heap st) = Some (withVirtualShard rr (sh_virtualShardIndex shard), h)"
    using read_route_of [OF assms(2) rs] by blast
  show ?thesis
  proof (cases "opt_tx ?o")
    case (Some t)
    let ?q = "read_query (rt_answer rt) zero (qs_read (queryStore_WithTx t (Target wr))) query"
    obtain c where c: "?q (st_calls st) = (read_result zero c, st_calls st @ [c])" "c_db c = t" "c_query c = query"
      using read_query_result [of "rt_answer rt" zero "qs_read (queryStore_WithTx t (Target wr))"] by auto
    show ?thesis
      by (rule route_run_end_ok [where n = 1 and query = ?q and ctx = ctx1 and r = "metadata wr" and mode = RouteModeTransaction and
            h = "st_heap st", OF assms(1) l(2,3) c(1)])
        (rule exI [of _ c], rule exI [of _ "st_heap st"], use l(1) wr res Some c(2,3) in \<open>auto simp: routed_read_def read_goes_to_def\<close>)
  next
    case None
    show ?thesis
    proof (cases "opt_primary ?o")
      case True
      let ?q = "read_query (rt_answer rt) zero (qs_read (Target wr)) query"
      obtain c where c: "?q (st_calls st) = (read_result zero c, st_calls st @ [c])" "c_db c = primary_db rs" "c_query c = query"
        using read_query_result [of "rt_answer rt" zero "qs_read (Target wr)"] wr(2) by (auto simp: primary_db_def)
      show ?thesis
        by (rule route_run_end_ok [where n = 1 and query = ?q and ctx = ctx1 and r = "metadata wr" and mode = RouteModePrimary and
              h = "st_heap st", OF assms(1) l(2,3) c(1)])
          (rule exI [of _ c], rule exI [of _ "st_heap st"], use l(1) wr(1) res rs None True c(2,3) in \<open>auto simp: routed_read_def read_goes_to_def\<close>)
    next
      case False
      let ?q = "read_query (rt_answer rt) zero (Target rr) query"
      obtain c where c: "?q (st_calls st) = (read_result zero c, st_calls st @ [c])" "c_db c = db (rd_main (Target rr))" "c_query c = query"
        using read_query_result [of "rt_answer rt" zero "Target rr"] by auto
      show ?thesis
        by (rule route_run_end_ok [where n = 1 and query = ?q and ctx = ctx1 and mode = RouteModeRead and h = h and
              r = "metadata (withVirtualShard rr (sh_virtualShardIndex shard))", OF assms(1) l(2,3) c(1)])
          (rule exI [of _ c], rule exI [of _ h], use l(1) rr res None False c(2,3) in \<open>auto simp: routed_read_def read_goes_to_def read_route_def\<close>)
    qed
  qed
qed

text \<open>The target of a write, and the databases it reaches.\<close>

definition write_target :: "'d queryOptions \<Rightarrow> ('d readQueries, 'd queryStore) replicaSet \<Rightarrow> 'd queryStore" where
  "write_target options rs =
     (case opt_tx options of
        None \<Rightarrow> store_mirrors (writer (rs_primary rs)) (rs_writeMirrors rs)
      | Some transaction \<Rightarrow> queryStore_WithTx transaction (store_mirrors (writer (rs_primary rs)) (rs_writeMirrors rs)))"

lemma written_write_target:
  "written (write_target options rs) =
     (case opt_tx options of
        None \<Rightarrow> written (writer (rs_primary rs)) @ concat (map written (rs_writeMirrors rs))
      | Some transaction \<Rightarrow> [transaction])"
  by (simp add: write_target_def written_store_mirrors split: option.split)

lemma routed_write_ok:
  assumes "env_ok rt s p" and res: "Resolve (ms_mesh s) (shardKey_of s key) = Inr shard"
    and rs: "rs_at (st_heap st) (sh_replicaSet shard) = Some rs"
    and q: "write_query (rt_noRows rt) (rt_answer rt) zero (qs_write (write_target (applyQueryOptions storeOptions) rs)) query (st_calls st) = (r, cs)"
  shows "\<exists>w. routed_write rt s ctx a b zero key query storeOptions st = Some (r, st\<lparr>st_world := w, st_calls := cs\<rparr>)
    \<and> settles p (st_world st) w"
proof -
  let ?o = "applyQueryOptions storeOptions"
  obtain ctx1 l w1 where l: "start_logical rt s ctx a b QueryKindWrite st = Some (ctx1, l, st\<lparr>st_world := w1\<rparr>)" "span_ok p l"
    "settles p (st_world st) w1" using start_logical_ok [OF assms(1)] by blast
  obtain wr where wr: "shard_WriteRoute store_mirrors shard (st_heap st) = Some wr"
    "Target wr = store_mirrors (writer (rs_primary rs)) (rs_writeMirrors rs)" using write_route_of [OF rs] by blast
  show ?thesis
    by (rule route_run_end_ok [where n = 1 and ctx = ctx1 and r = "metadata wr" and h = "st_heap st" and
          query = "write_query (rt_noRows rt) (rt_answer rt) zero (qs_write (write_target ?o rs)) query" and
          mode = "if opt_tx ?o = None then RouteModePrimary else RouteModeTransaction", OF assms(1) l(2,3) q])
      (use l(1) wr res in \<open>auto simp: routed_write_def write_target_def split: option.splits\<close>)
qed

lemma routed_error_ok:
  assumes "env_ok rt s p" and "Resolve (ms_mesh s) (shardKey_of s key) = Inl e"
  shows "\<exists>w. routed_read rt s ctx a b zero key query storeOptions st = Some ((zero, Some e), st\<lparr>st_world := w\<rparr>) \<and> settles p (st_world st) w"
    and "\<exists>w. routed_write rt s ctx a b zero key query storeOptions st = Some ((zero, Some e), st\<lparr>st_world := w\<rparr>) \<and> settles p (st_world st) w"
proof -
  have "\<exists>ctx1 l w1 w. start_logical rt s ctx a b k st = Some (ctx1, l, st\<lparr>st_world := w1\<rparr>) \<and>
      end_logical rt (Some e) l (st\<lparr>st_world := w1\<rparr>) = Some (st\<lparr>st_world := w\<rparr>) \<and> settles p (st_world st) w" for k
  proof -
    obtain ctx1 l w1 where l: "start_logical rt s ctx a b k st = Some (ctx1, l, st\<lparr>st_world := w1\<rparr>)" "span_ok p l"
      "settles p (st_world st) w1" using start_logical_ok [OF assms(1)] by blast
    obtain w where w: "end_logical rt (Some e) l (st\<lparr>st_world := w1\<rparr>) = Some (st\<lparr>st_world := w\<rparr>)" "settles p w1 w"
      using end_logical_ok [OF assms(1) l(2), of "Some e" "st\<lparr>st_world := w1\<rparr>"] by auto
    from l w settles_trans [OF l(3) w(2)] show ?thesis by blast
  qed
  note k = this [of QueryKindRead] this [of QueryKindWrite]
  show "\<exists>w. routed_read rt s ctx a b zero key query storeOptions st = Some ((zero, Some e), st\<lparr>st_world := w\<rparr>) \<and> settles p (st_world st) w"
    using k(1) assms(2) by (auto simp: routed_read_def)
  show "\<exists>w. routed_write rt s ctx a b zero key query storeOptions st = Some ((zero, Some e), st\<lparr>st_world := w\<rparr>) \<and> settles p (st_world st) w"
    using k(2) assms(2) by (auto simp: routed_write_def)
qed

section \<open>Properties\<close>

text \<open>
  A store over one set with a primary database 1, a replica 2 and a mirror 3, whose databases
  answer every query with the value \<open>v\<close>.
\<close>

definition sample_heap :: "(nat readQueries, nat queryStore) mesh_heap" where
  "sample_heap = (case NewReplicaSet ''a'' (newStoreNode 1) [newStoreNode 2] empty_heap of
     (p, h) \<Rightarrow> h\<lparr>h_rs := (h_rs h)[p := (h_rs h ! p)\<lparr>rs_writeMirrors := [writer (newStoreNode 3)]\<rparr>]\<rparr>)"

definition sample_store :: "(tenantKey, uint64, unit, unit, unit) meshStore" where
  "sample_store = \<lparr>ms_id = 0,
     ms_mesh = \<lparr>m_virtualShards = [0], m_replicaSets = [0], m_hasher = (\<lambda>k. k mod 1), m_telemetry = sample_telemetry\<rparr>,
     ms_resolver = Some TenantID, ms_zeroKey = 0\<rparr>"

definition sample_runtime :: "'r \<Rightarrow> (unit, nat, 'q, 'r) runtime" where
  "sample_runtime v = \<lparr>rt_ErrorType = sample_error_type, rt_enabled = (\<lambda>_. True), rt_clock = int,
     rt_answer = (\<lambda>_ _ _. (v, None)), rt_noRows = Foreign 0\<rparr>"

definition sample_state :: "(unit, nat, 'q, 'r) store_state" where
  "sample_state = \<lparr>st_heap = sample_heap, st_world = \<lparr>w_events = [], w_spans = 0, w_executions = []\<rparr>, st_calls = []\<rparr>"

definition sample_context :: tel_context where
  "sample_context = \<lparr>x_span = None, x_execution = None\<rparr>"

lemma sample_env: "env_ok (sample_runtime v) sample_store GlobalProvider"
proof -
  have "tracer sample_telemetry \<noteq> None"
    by (simp add: sample_telemetry_def newMeshTelemetry_def setMeterProvider_def instrument_steps_def setTracerProvider_def)
  then show ?thesis using sample_telemetry_instruments
    by (simp add: env_ok_def sample_runtime_def sample_store_def sample_error_type_def)
qed

lemma sample_heap_ok: "heap_ok sample_heap"
  by (simp add: sample_heap_def NewReplicaSet_def empty_heap_def heap_ok_def rr_ok_def newRoundRobin_def readTargets_of_def)

lemma sample_set: "rs_at sample_heap 0 = Some \<lparr>rs_name = ''a'', rs_primary = newStoreNode 1, rs_readTargets = 0,
    rs_writeMirrors = [writer (newStoreNode 3)]\<rparr>"
  by (simp add: sample_heap_def NewReplicaSet_def empty_heap_def rs_at_def)

lemma sample_resolve: "Resolve (ms_mesh sample_store) k = Inr \<lparr>sh_virtualShardIndex = 0, sh_replicaSet = 0\<rparr>"
  by (simp add: Resolve_def sample_store_def Let_def)

text \<open>
  C23: a routed read makes exactly one database call. Inside a transaction it goes to the transaction,
  with \<^verbatim>\<open>ReadFromPrimary\<close> to the primary of the set of the key's virtual shard, and otherwise to the
  target that the read route of that set selects; only then does the selector advance. The value and
  the error are those of the call, with a nil account on error. A key that cannot be resolved makes no
  call. The in-flight counters end as they started.
\<close>

theorem GetAccount_routes:
  assumes "env_ok rt s p" and "heap_ok (st_heap st)"
    and "\<And>shard. Resolve (ms_mesh s) (shardKey_of s (ga_TenantKey arg)) = Inr shard \<Longrightarrow> rs_at (st_heap st) (sh_replicaSet shard) \<noteq> None"
  shows "case Resolve (ms_mesh s) (shardKey_of s (ga_TenantKey arg)) of
      Inl e \<Rightarrow> \<exists>w. GetAccount rt s ctx arg storeOptions st = Some ((None, Some e), st\<lparr>st_world := w\<rparr>) \<and> settles p (st_world st) w
    | Inr shard \<Rightarrow> \<exists>c h w. GetAccount rt s ctx arg storeOptions st =
          Some (if snd (c_result c) = None then c_result c else (None, snd (c_result c)),
                st\<lparr>st_heap := h, st_world := w, st_calls := st_calls st @ [c]\<rparr>)
        \<and> c_query c = \<lparr>gap_TenantID = TenantID (ga_TenantKey arg), gap_ID = ga_ID arg\<rparr>
        \<and> (case opt_tx (applyQueryOptions storeOptions) of
             Some transaction \<Rightarrow> c_db c = transaction \<and> h = st_heap st
           | None \<Rightarrow> if opt_primary (applyQueryOptions storeOptions)
               then c_db c = primary_db (the (rs_at (st_heap st) (sh_replicaSet shard))) \<and> h = st_heap st
               else \<exists>route. ReadRoute (sh_replicaSet shard) (st_heap st) = Some (route, h) \<and> c_db c = db (rd_main (Target route)))
        \<and> settles p (st_world st) w"
proof (cases "Resolve (ms_mesh s) (shardKey_of s (ga_TenantKey arg))")
  case (Inl e)
  then show ?thesis using routed_error_ok(1) [OF assms(1)] by (simp add: GetAccount_def)
next
  case (Inr shard)
  obtain rs where rs: "rs_at (st_heap st) (sh_replicaSet shard) = Some rs" using assms(3) [OF Inr] by blast
  obtain c h w where "GetAccount rt s ctx arg storeOptions st =
      Some (read_result None c, st\<lparr>st_heap := h, st_world := w, st_calls := st_calls st @ [c]\<rparr>)"
    "c_query c = getAccount_sqlcParams arg"
    "read_goes_to (applyQueryOptions storeOptions) (sh_replicaSet shard) (st_heap st) (c_db c) h" "settles p (st_world st) w"
    using routed_read_ok [OF assms(1,2) Inr rs] unfolding GetAccount_def by blast
  then show ?thesis using Inr
    by (auto simp: read_goes_to_def read_result_def getAccount_sqlcParams_def split: option.splits if_splits
        intro!: exI [of _ c] exI [of _ h] exI [of _ w])
qed

theorem GetAccount_routes_witness:
  "\<exists>c h w. GetAccount (sample_runtime (Some \<lparr>acc_ID = 5, acc_TenantID = 7, acc_DisplayName = ''x''\<rparr>)) sample_store sample_context
      \<lparr>ga_TenantKey = \<lparr>TenantID = 7\<rparr>, ga_ID = 5\<rparr> [Some ReadFromPrimary] sample_state =
      Some (if snd (c_result c) = None then c_result c else (None, snd (c_result c)),
            sample_state\<lparr>st_heap := h, st_world := w, st_calls := [c]\<rparr>)
    \<and> c_db c = 1 \<and> c_query c = \<lparr>gap_TenantID = 7, gap_ID = 5\<rparr>"
proof -
  let ?v = "Some \<lparr>acc_ID = 5, acc_TenantID = 7, acc_DisplayName = ''x''\<rparr>"
  let ?st = "sample_state :: (unit, nat, getAccountParams, account option) store_state"
  let ?arg = "\<lparr>ga_TenantKey = \<lparr>TenantID = 7\<rparr>, ga_ID = 5\<rparr> :: getAccountT"
  have h: "heap_ok (st_heap ?st)" using sample_heap_ok by (simp add: sample_state_def)
  have r: "rs_at (st_heap ?st) (sh_replicaSet shard) \<noteq> None"
    if "Resolve (ms_mesh sample_store) (shardKey_of sample_store (ga_TenantKey ?arg)) = Inr shard" for shard
    using that sample_set by (auto simp: sample_resolve sample_state_def)
  have f: "primary_db (the (rs_at sample_heap 0)) = 1" "opt_tx (applyQueryOptions [Some ReadFromPrimary]) = None"
    "opt_primary (applyQueryOptions [Some ReadFromPrimary]) = True" "st_heap ?st = sample_heap" "st_calls ?st = []"
    by (simp_all add: sample_set primary_db_def newStoreNode_def NewNode_def newQueryStore_def newWriteQueries_def New_def Let_def
        applyQueryOptions_def ReadFromPrimary_def sample_state_def)
  show ?thesis
    using GetAccount_routes [where storeOptions = "[Some ReadFromPrimary]" and ctx = sample_context and arg = ?arg and st = ?st,
        OF sample_env [of ?v] h r]
    unfolding sample_resolve sum.case f option.case if_True append_Nil tenantKey.select_convs getAccountT.select_convs
      resolvedShard.select_convs f(1) by blast
qed

lemma routed_write_reaches:
  assumes "env_ok rt s p" and "Resolve (ms_mesh s) (shardKey_of s key) = Inr shard"
    and "rs_at (st_heap st) (sh_replicaSet shard) = Some rs"
  shows "\<exists>r new w target. routed_write rt s ctx a b zero key query storeOptions st = Some (r, st\<lparr>st_world := w, st_calls := st_calls st @ new\<rparr>)
    \<and> written target =
        (case opt_tx (applyQueryOptions storeOptions) of
           None \<Rightarrow> written (writer (rs_primary rs)) @ concat (map written (rs_writeMirrors rs))
         | Some transaction \<Rightarrow> [transaction])
    \<and> write_outcome (rt_noRows rt) zero (qs_write target) query r new
    \<and> settles p (st_world st) w"
proof -
  let ?t = "write_target (applyQueryOptions storeOptions) rs"
  obtain r cs where q: "write_query (rt_noRows rt) (rt_answer rt) zero (qs_write ?t) query (st_calls st) = (r, cs)"
    by (meson surj_pair)
  obtain new where new: "cs = st_calls st @ new" "write_outcome (rt_noRows rt) zero (qs_write ?t) query r new"
    using write_query_calls [OF q] by blast
  obtain w where "routed_write rt s ctx a b zero key query storeOptions st = Some (r, st\<lparr>st_world := w, st_calls := cs\<rparr>)" "settles p (st_world st) w"
    using routed_write_ok [OF assms q] by blast
  with new written_write_target show ?thesis by blast
qed

text \<open>
  C24: a routed write goes to the primary of the set of the key's virtual shard and then to the set's
  mirrors in their order, as far as the rules of the write wrapper let it; inside a transaction it goes
  to the transaction alone. The read selectors stay as they are, and the in-flight counters end as
  they started.
\<close>

theorem UpdateAccountName_writes:
  assumes "env_ok rt s p" and "Resolve (ms_mesh s) (shardKey_of s (ua_TenantKey arg)) = Inr shard"
    and "rs_at (st_heap st) (sh_replicaSet shard) = Some rs"
  shows "\<exists>r new w target. UpdateAccountName rt s ctx arg storeOptions st = Some (r, st\<lparr>st_world := w, st_calls := st_calls st @ new\<rparr>)
    \<and> written target =
        (case opt_tx (applyQueryOptions storeOptions) of
           None \<Rightarrow> written (writer (rs_primary rs)) @ concat (map written (rs_writeMirrors rs))
         | Some transaction \<Rightarrow> [transaction])
    \<and> write_outcome (rt_noRows rt) None (qs_write target) (updateAccountName_sqlcParams arg) r new
    \<and> settles p (st_world st) w"
  unfolding UpdateAccountName_def using routed_write_reaches [OF assms] .

theorem UpdateAccountName_writes_witness:
  "\<exists>r new w target. UpdateAccountName (sample_runtime None) sample_store sample_context
      \<lparr>ua_TenantKey = \<lparr>TenantID = 7\<rparr>, ua_ID = 5, ua_DisplayName = ''x''\<rparr> [] sample_state =
      Some (r, sample_state\<lparr>st_world := w, st_calls := new\<rparr>)
    \<and> written target = [1, 3]
    \<and> write_outcome (Foreign 0) None (qs_write target) \<lparr>uap_TenantID = 7, uap_ID = 5, uap_DisplayName = ''x''\<rparr> r new"
proof -
  let ?st = "sample_state :: (unit, nat, updateAccountNameParams, account option) store_state"
  have rs: "rs_at (st_heap ?st) (sh_replicaSet \<lparr>sh_virtualShardIndex = 0, sh_replicaSet = 0\<rparr>) = Some \<lparr>rs_name = ''a'', rs_primary = newStoreNode 1, rs_readTargets = 0,
    rs_writeMirrors = [writer (newStoreNode 3)]\<rparr>" using sample_set by (simp add: sample_state_def)
  have f: "st_calls ?st = []" "opt_tx (applyQueryOptions []) = None" "rt_noRows (sample_runtime None) = Foreign 0"
    "written (writer (newStoreNode (1 :: nat))) @ concat (map written [writer (newStoreNode 3)]) = [1, 3]"
    by (simp_all add: sample_state_def applyQueryOptions_def sample_runtime_def)
  show ?thesis
    using UpdateAccountName_writes [where st = ?st and storeOptions = "[]" and ctx = sample_context and
        arg = "\<lparr>ua_TenantKey = \<lparr>TenantID = 7\<rparr>, ua_ID = 5, ua_DisplayName = ''x''\<rparr>",
        OF sample_env [of None] sample_resolve rs]
    unfolding updateAccountName_sqlcParams_def replicaSet.select_convs f option.case append_Nil tenantKey.select_convs
      updateAccountNameT.select_convs by blast
qed

end
