(* ===== verification/Generated_Fanout.thy ===== *)
theory Generated_Fanout
  imports Generated_Store
begin

text \<open>
  What the generated methods over several replica sets do: the read of all shards and the grouped
  COPY of \<open>Generated_Store\<close>. The facts hold for a mesh as \<^verbatim>\<open>Build\<close> returns it and for
  every order in which the goroutines of the fan-out run.
\<close>

section \<open>Meshes as Build returns them\<close>

definition mesh_wf :: "('sk, 'tp, 'mp, 'lg) mesh \<Rightarrow> ('r, 'w) mesh_heap \<Rightarrow> bool" where
  "mesh_wf m h \<longleftrightarrow> (\<forall>q \<in> set (ReplicaSets m). rs_at h q \<noteq> None) \<and> inj_on (rs_name_at h) (set (ReplicaSets m)) \<and>
     distinct (ReplicaSets m) \<and> set (m_virtualShards m) \<subseteq> set (ReplicaSets m) \<and> length (m_virtualShards m) < 2 ^ 64"

lemma Build_mesh_wf:
  assumes "Build h b = Inr m" and "length (b_virtualShards b) < 2 ^ 64"
  shows "mesh_wf m h"
proof -
  from assms(1) have n: "names_ok h (map the (b_virtualShards b))"
    and m: "m_virtualShards m = map the (b_virtualShards b)" "m_replicaSets m = first_occurrences (map the (b_virtualShards b))"
    by (auto simp: Build_iff)
  have "rs_at h q \<noteq> None" if "TrimSpace (rs_name_at h q) \<noteq> []" for q
    using that by (auto simp: rs_name_at_def TrimSpace_def split: option.splits)
  then have "\<forall>q \<in> set (map the (b_virtualShards b)). rs_at h q \<noteq> None" using n unfolding names_ok_def by blast
  moreover have "inj_on (rs_name_at h) (set (map the (b_virtualShards b)))" using n unfolding names_ok_def by blast
  ultimately show ?thesis using assms(2)
    unfolding mesh_wf_def ReplicaSets_def m set_first_occurrences length_map
    by (intro conjI) (assumption | rule distinct_first_occurrences subset_refl)+
qed

lemma rs_at_frame: "h_rs h' = h_rs h \<Longrightarrow> rs_at h' = rs_at h"
  by (simp add: rs_at_def fun_eq_iff)

lemma rs_name_at_frame: "h_rs h' = h_rs h \<Longrightarrow> rs_name_at h' = rs_name_at h"
  using rs_at_frame [of h' h] by (simp add: rs_name_at_def fun_eq_iff)

lemma mesh_wf_Resolve:
  assumes "mesh_wf m h" and "Resolve m key = Inr shard"
  shows "sh_replicaSet shard \<in> set (ReplicaSets m) \<and> rs_at h (sh_replicaSet shard) \<noteq> None"
proof -
  have "length (m_virtualShards m) < 2 ^ 64" using assms(1) by (simp add: mesh_wf_def)
  from Resolve_Inr [OF this] assms(2) have "sh_replicaSet shard \<in> set (m_virtualShards m)" by auto
  with assms(1) show ?thesis by (auto simp: mesh_wf_def)
qed

lemma shard_name_at: "rs_at h (sh_replicaSet shard) \<noteq> None \<Longrightarrow> shard_ReplicaSetName shard h = Some (rs_name_at h (sh_replicaSet shard))"
  by (auto simp: shard_ReplicaSetName_def rs_name_at_def)

section \<open>Tasks\<close>

text \<open>
  Tasks that keep an invariant of the state and only add calls: every slot holds the result of its
  task, and the calls are those of the tasks in the order in which they ran.
\<close>

lemma run_tasks_ok:
  assumes "\<And>i st. i \<in> set order \<Longrightarrow> I st \<Longrightarrow>
      \<exists>r st' new. task i st = Some (r, st') \<and> I st' \<and> st_calls st' = st_calls st @ new \<and> Q i r new"
    and "I st" and "distinct order" and "set order \<subseteq> {..<length slots}"
  shows "\<exists>slots' st' ns. run_tasks task order slots st = Some (slots', st') \<and> I st' \<and> length slots' = length slots
    \<and> st_calls st' = st_calls st @ concat (map ns order) \<and> (\<forall>i \<in> set order. Q i (slots' ! i) (ns i))
    \<and> (\<forall>i. i \<notin> set order \<longrightarrow> slots' ! i = slots ! i)"
  using assms
proof (induction order arbitrary: slots st)
  case Nil
  then show ?case by simp
next
  case (Cons i order)
  from Cons.prems(1) [of i st] Cons.prems(2) obtain r st1 new where
    t: "task i st = Some (r, st1)" "I st1" "st_calls st1 = st_calls st @ new" "Q i r new" by auto
  have "\<exists>slots' st' ns. run_tasks task order (slots[i := r]) st1 = Some (slots', st') \<and> I st' \<and> length slots' = length (slots[i := r])
    \<and> st_calls st' = st_calls st1 @ concat (map ns order) \<and> (\<forall>j \<in> set order. Q j (slots' ! j) (ns j))
    \<and> (\<forall>j. j \<notin> set order \<longrightarrow> slots' ! j = slots[i := r] ! j)"
    using Cons.prems t(2) by (intro Cons.IH) auto
  then obtain slots' st' ns where x: "run_tasks task order (slots[i := r]) st1 = Some (slots', st')" "I st'" "length slots' = length slots"
    "st_calls st' = st_calls st1 @ concat (map ns order)" "\<forall>j \<in> set order. Q j (slots' ! j) (ns j)"
    "\<forall>j. j \<notin> set order \<longrightarrow> slots' ! j = slots[i := r] ! j" by auto
  have i: "i \<notin> set order" "i < length slots" using Cons.prems by auto
  define ns' where "ns' = ns(i := new)"
  have "concat (map ns' (i # order)) = new @ concat (map ns order)" using i(1) by (simp add: ns'_def)
  then have "st_calls st' = st_calls st @ concat (map ns' (i # order))" using x(4) t(3) by (simp only: append_assoc)
  moreover have "\<forall>j \<in> set (i # order). Q j (slots' ! j) (ns' j)" using x(5,6) i t(4) by (auto simp: ns'_def)
  moreover have "\<forall>j. j \<notin> set (i # order) \<longrightarrow> slots' ! j = slots ! j" using x(6) by auto
  moreover have "run_tasks task (i # order) slots st = Some (slots', st')" using t(1) x(1) by simp
  ultimately show ?case using x(2,3) by blast
qed

lemma slot_errors_Nil:
  "length names = length slots \<Longrightarrow> slot_errors q names slots = [] \<longleftrightarrow> (\<forall>x \<in> set slots. snd x = None)"
  by (induction names slots rule: list_induct2) (auto simp: slot_errors_def List.map_filter_def split: option.splits prod.splits)

text \<open>Reads only turn the selectors of a heap.\<close>

definition fan_inv ::
  "'mp providerRef \<Rightarrow> ('d readQueries, 'd queryStore) mesh_heap \<Rightarrow> 'mp tel_world \<Rightarrow> ('mp, 'd, 'q, 'r) store_state \<Rightarrow> bool" where
  "fan_inv p h w st \<longleftrightarrow> heap_ok (st_heap st) \<and> h_rs (st_heap st) = h_rs h \<and>
     (\<forall>q. read_targets (st_heap st) q = read_targets h q) \<and> settles p w (st_world st)"

lemma ReadRoute_targets:
  assumes "heap_ok h" and "rs_at h q = Some s"
  shows "\<exists>r h'. ReadRoute q h = Some (r, h') \<and> Target r \<in> nt_value ` set (read_targets h q) \<and> heap_ok h' \<and> h_rs h' = h_rs h
    \<and> (\<forall>q'. read_targets h' q' = read_targets h q')"
proof -
  from ReadRoute_step [OF assms] obtain t r' where
    n: "nextItem (h_rr h ! rs_readTargets s) = Some (t, r')" and
    rd: "ReadRoute q h = Some (route_to (rs_name s) t, h\<lparr>h_rr := (h_rr h)[rs_readTargets s := r']\<rparr>)" and
    t: "t \<in> set (read_targets h q)" by auto
  let ?h = "h\<lparr>h_rr := (h_rr h)[rs_readTargets s := r']\<rparr>"
  have i: "rs_readTargets s < length (h_rr h)" using heap_ok_selector [OF assms] by simp
  have "rr_items ((h_rr h)[rs_readTargets s := r'] ! j) = rr_items (h_rr h ! j)" for j
    using nextItem_keeps [OF n] i by (cases "j = rs_readTargets s") auto
  then have "\<forall>q'. read_targets ?h q' = read_targets h q'" by (simp add: read_targets_def)
  moreover have "Target (route_to (rs_name s) t) \<in> nt_value ` set (read_targets h q)" using t by (simp add: route_to_def)
  ultimately show ?thesis using rd heap_ok_ReadRoute [OF assms(1) rd] by (intro exI conjI) auto
qed

text \<open>The databases a read of a set may go to.\<close>

definition read_dbs :: "'d queryOptions \<Rightarrow> ('d readQueries, 'd queryStore) mesh_heap \<Rightarrow> rs_ptr \<Rightarrow> 'd set" where
  "read_dbs options h q =
     (case opt_tx options of
        Some transaction \<Rightarrow> {transaction}
      | None \<Rightarrow> if opt_primary options then {primary_db (h_rs h ! q)}
                else (\<lambda>t. db (rd_main (nt_value t))) ` set (read_targets h q))"

lemma fan_inv_run:
  assumes "env_ok rt s p" and "span_ok p l" and "fan_inv p h w st" and "heap_ok h'" and "h_rs h' = h_rs h"
    and "\<And>q. read_targets h' q = read_targets h q" and "query (st_calls st) = (res, cs)"
  shows "\<exists>st'. physical_run rt ctx r mode l query (st\<lparr>st_heap := h'\<rparr>) = Some (res, st') \<and> fan_inv p h w st' \<and> st_calls st' = cs"
proof -
  have "query (st_calls (st\<lparr>st_heap := h'\<rparr>)) = (res, cs)" using assms(7) by simp
  from physical_run_ok [where query = query and st = "st\<lparr>st_heap := h'\<rparr>" and ctx = ctx and r = r and mode = mode, OF assms(1,2) this]
  obtain w' where w': "physical_run rt ctx r mode l query (st\<lparr>st_heap := h'\<rparr>) =
      Some (res, st\<lparr>st_heap := h'\<rparr>\<lparr>st_world := w', st_calls := cs\<rparr>)" "settles p (st_world st) w'" by auto
  have "settles p w w'" using assms(3) settles_trans [OF _ w'(2)] by (simp add: fan_inv_def)
  with w'(1) assms(4-6) show ?thesis by (simp add: fan_inv_def)
qed

lemma all_shards_task_ok:
  assumes "env_ok rt s p" and "span_ok p l" and "fan_inv p h w st" and "rs_at h (sets ! i) \<noteq> None" and "opt_tx options = None"
  shows "\<exists>r st' new. all_shards_task rt ctx mode l query (opt_primary options) sets i st = Some (r, st') \<and> fan_inv p h w st'
    \<and> st_calls st' = st_calls st @ new
    \<and> (\<exists>c. new = [c] \<and> r = read_result [] c \<and> c_query c = query \<and> c_db c \<in> read_dbs options h (sets ! i))"
proof -
  have inv: "heap_ok (st_heap st)" "h_rs (st_heap st) = h_rs h" "\<And>q. read_targets (st_heap st) q = read_targets h q"
    using assms(3) by (simp_all add: fan_inv_def)
  have at: "rs_at (st_heap st) (sets ! i) = rs_at h (sets ! i)" using rs_at_frame [OF inv(2)] by simp
  obtain rs where rs: "rs_at h (sets ! i) = Some rs" "rs = h_rs h ! (sets ! i)" using assms(4) by (auto simp: rs_at_def split: if_splits)
  show ?thesis
  proof (cases "opt_primary options")
    case True
    obtain wr where wr: "WriteRoute store_mirrors (sets ! i) (st_heap st) = Some wr"
      "Target wr = store_mirrors (writer (rs_primary rs)) (rs_writeMirrors rs)"
      using at rs by (simp add: WriteRoute_def route_to_def selectWrite_def)
    let ?q = "read_query (rt_answer rt) [] (qs_read (Target wr)) query"
    obtain c where c: "?q (st_calls st) = (read_result [] c, st_calls st @ [c])" "c_db c = primary_db rs" "c_query c = query"
      using read_query_result [of "rt_answer rt" "[]" "qs_read (Target wr)"] wr(2) by (auto simp: primary_db_def)
    have "\<exists>st'. physical_run rt ctx (metadata wr) mode l ?q (st\<lparr>st_heap := st_heap st\<rparr>) = Some (read_result [] c, st') \<and> fan_inv p h w st'
        \<and> st_calls st' = st_calls st @ [c]"
      by (rule fan_inv_run [where query = ?q, OF assms(1-3) inv c(1)])
    then show ?thesis using True wr(1) c(2,3) rs(2) assms(5) by (auto simp: all_shards_task_def read_dbs_def simp del: split_paired_Ex)
  next
    case False
    obtain rr h' where rr: "ReadRoute (sets ! i) (st_heap st) = Some (rr, h')" "Target rr \<in> nt_value ` set (read_targets h (sets ! i))"
      "heap_ok h'" "h_rs h' = h_rs h" "\<And>q. read_targets h' q = read_targets h q"
      using ReadRoute_targets [OF inv(1), of "sets ! i" rs] at rs(1) inv(2,3) by auto
    let ?q = "read_query (rt_answer rt) [] (Target rr) query"
    obtain c where c: "?q (st_calls st) = (read_result [] c, st_calls st @ [c])" "c_db c = db (rd_main (Target rr))" "c_query c = query"
      using read_query_result [of "rt_answer rt" "[]" "Target rr"] by auto
    have "\<exists>st'. physical_run rt ctx (metadata rr) mode l ?q (st\<lparr>st_heap := h'\<rparr>) = Some (read_result [] c, st') \<and> fan_inv p h w st'
        \<and> st_calls st' = st_calls st @ [c]"
      by (rule fan_inv_run [where query = ?q, OF assms(1-3) rr(3-5) c(1)])
    moreover have "c_db c \<in> read_dbs options h (sets ! i)" using c(2) rr(2) False assms(5) by (auto simp: read_dbs_def)
    ultimately show ?thesis using False rr(1) c(3) by (auto simp: all_shards_task_def simp del: split_paired_Ex)
  qed
qed

lemma read_results_ok:
  "\<forall>x \<in> set (map (read_result zero) cs). snd x = None \<Longrightarrow> map (read_result zero) cs = map c_result cs"
proof (rule map_cong)
  fix c assume "\<forall>x \<in> set (map (read_result zero) cs). snd x = None" "c \<in> set cs"
  then have "snd (c_result c) = None" by auto
  then show "read_result zero c = c_result c" by (simp add: read_result_def)
qed simp

text \<open>An order of the tasks of \<open>n\<close> slots.\<close>

definition schedule :: "nat \<Rightarrow> nat list \<Rightarrow> bool" where
  "schedule n order \<longleftrightarrow> distinct order \<and> set order = {..<n}"

text \<open>Reads of which every one makes a single call: the calls in the order of the slots.\<close>

lemma single_calls:
  assumes "schedule n order" and "length slots = n"
    and "\<forall>i < n. \<exists>c. ns i = [c] \<and> slots ! i = read_result [] c \<and> P i c"
  obtains cs where "length cs = n" and "slots = map (read_result []) cs" and "concat (map ns order) = map ((!) cs) order"
    and "\<forall>i < n. P i (cs ! i)"
proof -
  define cs where "cs = map (\<lambda>i. hd (ns i)) [0..<n]"
  have c: "ns i = [cs ! i] \<and> slots ! i = read_result [] (cs ! i) \<and> P i (cs ! i)" if i: "i < n" for i
  proof -
    obtain c where "ns i = [c]" "slots ! i = read_result [] c" "P i c" using assms(3) i by blast
    then show ?thesis using i by (simp add: cs_def)
  qed
  have "concat (map ns order) = concat (map (\<lambda>i. [cs ! i]) order)"
    using c assms(1) by (intro arg_cong [of _ _ concat] map_cong) (auto simp: schedule_def)
  moreover have "slots = map (read_result []) cs" using c assms(2) by (intro nth_equalityI) (auto simp: cs_def)
  ultimately show ?thesis using c that [of cs] by (simp add: cs_def)
qed

text \<open>
  The frame of a fan-out over \<open>n\<close> slots: it starts its logical span, records the route, runs the tasks
  and can end the span.
\<close>

lemma fan_run_ok:
  assumes "env_ok rt s p" and "heap_ok (st_heap st)" and "schedule n order"
    and task: "\<And>ctx1 l i st1. span_ok p l \<Longrightarrow> i < n \<Longrightarrow> fan_inv p (st_heap st) (st_world st) st1 \<Longrightarrow>
      \<exists>r st' new. task ctx1 l i st1 = Some (r, st') \<and> fan_inv p (st_heap st) (st_world st) st' \<and> st_calls st' = st_calls st1 @ new \<and> Q i r new"
  obtains ctx1 l w1 l2 w2 slots st3 ns where "start_logical rt s ctx a b k st = Some (ctx1, l, st\<lparr>st_world := w1\<rparr>)"
    and "set_route mode n l (st\<lparr>st_world := w1\<rparr>) = (l2, st\<lparr>st_world := w2\<rparr>)"
    and "run_tasks (task ctx1 l2) order (replicate n z) (st\<lparr>st_world := w2\<rparr>) = Some (slots, st3)"
    and "fan_inv p (st_heap st) (st_world st) st3" and "length slots = n" and "st_calls st3 = st_calls st @ concat (map ns order)"
    and "\<forall>i < n. Q i (slots ! i) (ns i)"
    and "\<forall>err. \<exists>w4. end_logical rt err l2 st3 = Some (st3\<lparr>st_world := w4\<rparr>) \<and> fan_inv p (st_heap st) (st_world st) (st3\<lparr>st_world := w4\<rparr>)"
proof -
  let ?I = "fan_inv p (st_heap st) (st_world st)"
  obtain ctx1 l w1 where l: "start_logical rt s ctx a b k st = Some (ctx1, l, st\<lparr>st_world := w1\<rparr>)" "span_ok p l"
    "settles p (st_world st) w1" using start_logical_ok [OF assms(1)] by blast
  obtain l2 w2 where l2: "set_route mode n l (st\<lparr>st_world := w1\<rparr>) = (l2, st\<lparr>st_world := w2\<rparr>)" "span_ok p l2" "settles p w1 w2"
    using set_route_ok [OF l(2), of mode n "st\<lparr>st_world := w1\<rparr>"] by auto
  have inv: "?I (st\<lparr>st_world := w2\<rparr>)" using assms(2) settles_trans [OF l(3) l2(3)] by (simp add: fan_inv_def)
  have t: "\<exists>r st' new. task ctx1 l2 i st1 = Some (r, st') \<and> ?I st' \<and> st_calls st' = st_calls st1 @ new \<and> Q i r new"
    if "i \<in> set order" "?I st1" for i st1
    using task [OF l2(2) _ that(2)] that(1) assms(3) by (simp add: schedule_def)
  obtain slots st3 ns where r: "run_tasks (task ctx1 l2) order (replicate n z) (st\<lparr>st_world := w2\<rparr>) = Some (slots, st3)"
    "?I st3" "length slots = n" "st_calls st3 = st_calls st @ concat (map ns order)" "\<forall>i < n. Q i (slots ! i) (ns i)"
    using run_tasks_ok [where order = order and I = ?I and slots = "replicate n z" and Q = Q, OF t inv] assms(3)
    by (auto simp: schedule_def)
  have "\<exists>w4. end_logical rt err l2 st3 = Some (st3\<lparr>st_world := w4\<rparr>) \<and> ?I (st3\<lparr>st_world := w4\<rparr>)" for err
  proof -
    obtain w4 where w4: "end_logical rt err l2 st3 = Some (st3\<lparr>st_world := w4\<rparr>)" "settles p (st_world st3) w4"
      using end_logical_ok [OF assms(1) l2(2)] by blast
    then show ?thesis using r(2) settles_trans [OF _ w4(2)] by (intro exI [of _ w4]) (simp add: fan_inv_def)
  qed
  then show ?thesis using that l(1) l2(1) r by blast
qed

lemma all_shards_read_ok:
  assumes "env_ok rt s p" and "heap_ok (st_heap st)" and "\<forall>q \<in> set (ReplicaSets (ms_mesh s)). rs_at (st_heap st) q \<noteq> None"
    and "opt_tx (applyQueryOptions storeOptions) = None" and ord: "schedule (length (ReplicaSets (ms_mesh s))) order"
  shows "\<exists>cs st'. all_shards_read rt s ctx a b query storeOptions order st =
      Some (case errors_join (slot_errors b (map (rs_name_at (st_heap st)) (ReplicaSets (ms_mesh s))) (map (read_result []) cs)) of
              None \<Rightarrow> (concat (map (\<lambda>c. fst (c_result c)) cs), None) | Some e \<Rightarrow> ([], Some e), st')
    \<and> length cs = length (ReplicaSets (ms_mesh s)) \<and> st_calls st' = st_calls st @ map ((!) cs) order
    \<and> (\<forall>i < length cs. c_query (cs ! i) = query
         \<and> c_db (cs ! i) \<in> read_dbs (applyQueryOptions storeOptions) (st_heap st) (ReplicaSets (ms_mesh s) ! i))
    \<and> fan_inv p (st_heap st) (st_world st) st'"
proof -
  let ?o = "applyQueryOptions storeOptions" and ?sets = "ReplicaSets (ms_mesh s)"
  let ?h = "st_heap st" and ?mode = "if opt_primary (applyQueryOptions storeOptions) then RouteModePrimary else RouteModeRead"
  let ?Q = "\<lambda>i r new. \<exists>c. new = [c] \<and> r = read_result [] c \<and> c_query c = query \<and> c_db c \<in> read_dbs ?o ?h (?sets ! i)"
  have task: "\<exists>r st' new. all_shards_task rt ctx1 ?mode l query (opt_primary ?o) ?sets i st1 = Some (r, st')
      \<and> fan_inv p ?h (st_world st) st' \<and> st_calls st' = st_calls st1 @ new \<and> ?Q i r new"
    if "span_ok p l" "i < length ?sets" "fan_inv p ?h (st_world st) st1" for ctx1 l i st1
    using assms(3) nth_mem [OF that(2)] by (intro all_shards_task_ok [OF assms(1) that(1,3) _ assms(4)]) blast
  obtain ctx1 l w1 l2 w2 slots st3 ns where r: "start_logical rt s ctx a b QueryKindRead st = Some (ctx1, l, st\<lparr>st_world := w1\<rparr>)"
    "set_route ?mode (length ?sets) l (st\<lparr>st_world := w1\<rparr>) = (l2, st\<lparr>st_world := w2\<rparr>)"
    "run_tasks (all_shards_task rt ctx1 ?mode l2 query (opt_primary ?o) ?sets) order (replicate (length ?sets) ([], None)) (st\<lparr>st_world := w2\<rparr>) =
       Some (slots, st3)" "fan_inv p ?h (st_world st) st3" "length slots = length ?sets" "st_calls st3 = st_calls st @ concat (map ns order)"
    "\<forall>i < length ?sets. ?Q i (slots ! i) (ns i)"
    "\<forall>err. \<exists>w4. end_logical rt err l2 st3 = Some (st3\<lparr>st_world := w4\<rparr>) \<and> fan_inv p ?h (st_world st) (st3\<lparr>st_world := w4\<rparr>)"
    by (rule fan_run_ok [where task = "\<lambda>ctx1 l2. all_shards_task rt ctx1 ?mode l2 query (opt_primary ?o) ?sets" and Q = ?Q and
          z = "([], None)" and mode = ?mode and ctx = ctx and a = a and b = b and k = QueryKindRead, OF assms(1,2) ord task])
  obtain cs where cs: "length cs = length ?sets" "slots = map (read_result []) cs" "concat (map ns order) = map ((!) cs) order"
    "\<forall>i < length ?sets. c_query (cs ! i) = query \<and> c_db (cs ! i) \<in> read_dbs ?o ?h (?sets ! i)"
    by (rule single_calls [OF ord r(5,7)])
  define err where "err = errors_join (slot_errors b (map (rs_name_at ?h) ?sets) slots)"
  have n: "rs_name_at (st_heap st3) = rs_name_at ?h" using r(4) by (intro rs_name_at_frame) (simp add: fan_inv_def)
  obtain w4 where w4: "end_logical rt err l2 st3 = Some (st3\<lparr>st_world := w4\<rparr>)" "fan_inv p ?h (st_world st) (st3\<lparr>st_world := w4\<rparr>)"
    using r(8) by blast
  have "concat (map fst slots) = concat (map (\<lambda>c. fst (c_result c)) cs)" if "err = None"
  proof -
    have "\<forall>x \<in> set slots. snd x = None" using that slot_errors_Nil [of "map (rs_name_at ?h) ?sets" slots b] r(5) by (simp add: err_def)
    then have "map (read_result []) cs = map c_result cs" unfolding cs(2) by (rule read_results_ok)
    then have "map fst slots = map fst (map c_result cs)" unfolding cs(2) by (rule arg_cong)
    then show ?thesis by (simp add: comp_def)
  qed
  then have "all_shards_read rt s ctx a b query storeOptions order st =
      Some (case err of None \<Rightarrow> (concat (map (\<lambda>c. fst (c_result c)) cs), None) | Some e \<Rightarrow> ([], Some e), st3\<lparr>st_world := w4\<rparr>)"
    using r(1-3) w4(1) assms(4) by (cases err) (simp_all add: all_shards_read_def Let_def n del: errors_join_None_iff flip: err_def)
  with cs r(6) w4(2) show ?thesis by (intro exI [of _ cs] exI [of _ "st3\<lparr>st_world := w4\<rparr>"]) (simp add: err_def)
qed

section \<open>Groups\<close>

text \<open>The name of the set a key is routed to.\<close>

definition set_name_of :: "('k, 'sk, 'tp, 'mp, 'lg) meshStore \<Rightarrow> ('r, 'w) mesh_heap \<Rightarrow> 'k \<Rightarrow> string" where
  "set_name_of s h k = (case Resolve (ms_mesh s) (shardKey_of s k) of Inl e \<Rightarrow> [] | Inr shard \<Rightarrow> rs_name_at h (sh_replicaSet shard))"

definition routable :: "('k, 'sk, 'tp, 'mp, 'lg) meshStore \<Rightarrow> 'k \<Rightarrow> bool" where
  "routable s k \<longleftrightarrow> (\<exists>shard. Resolve (ms_mesh s) (shardKey_of s k) = Inr shard)"

text \<open>The sets that some key is routed to, in the order of the mesh.\<close>

definition used_sets :: "('k, 'sk, 'tp, 'mp, 'lg) meshStore \<Rightarrow> ('r, 'w) mesh_heap \<Rightarrow> 'k list \<Rightarrow> rs_ptr list" where
  "used_sets s h ks = filter (\<lambda>q. rs_name_at h q \<in> set_name_of s h ` set ks) (ReplicaSets (ms_mesh s))"

lemma subset_image_filter: "A \<subseteq> f ` B \<Longrightarrow> A = f ` {x \<in> B. f x \<in> A}"
  by auto

lemma used_sets_names:
  assumes "mesh_wf (ms_mesh s) h" and "list_all (routable s) ks"
  shows "distinct (map (rs_name_at h) (used_sets s h ks)) \<and> set_name_of s h ` set ks = rs_name_at h ` set (used_sets s h ks)"
proof -
  have "set_name_of s h k \<in> rs_name_at h ` set (ReplicaSets (ms_mesh s))" if "k \<in> set ks" for k
    using that assms mesh_wf_Resolve [OF assms(1)] by (fastforce simp: list_all_iff routable_def set_name_of_def)
  then have "set_name_of s h ` set ks \<subseteq> rs_name_at h ` set (ReplicaSets (ms_mesh s))" by blast
  then have "set_name_of s h ` set ks = rs_name_at h ` set (used_sets s h ks)"
    unfolding used_sets_def set_filter by (rule subset_image_filter)
  moreover have "inj_on (rs_name_at h) (set (used_sets s h ks))" "distinct (used_sets s h ks)"
    using assms(1) by (auto simp: mesh_wf_def used_sets_def inj_on_def)
  ultimately show ?thesis by (simp add: distinct_map)
qed

text \<open>The groups of a list of items: the rows of each set in the order of the items.\<close>

definition groups_for ::
  "('k, 'sk, 'tp, 'mp, 'lg) meshStore \<Rightarrow> ('r, 'w) mesh_heap \<Rightarrow> ('i \<Rightarrow> 'k) \<Rightarrow> ('i \<Rightarrow> 'p) \<Rightarrow> 'i list \<Rightarrow> (string \<rightharpoonup> 'p shardGroup) \<Rightarrow> bool" where
  "groups_for s h key params items groups \<longleftrightarrow>
     (\<forall>name. case groups name of
        None \<Rightarrow> (\<forall>i \<in> set items. set_name_of s h (key i) \<noteq> name)
      | Some g \<Rightarrow> sg_args g = map params (filter (\<lambda>i. set_name_of s h (key i) = name) items)
          \<and> (\<exists>i \<in> set items. set_name_of s h (key i) = name \<and> Resolve (ms_mesh s) (shardKey_of s (key i)) = Inr (sg_shard g)))"

lemma groups_for_step:
  assumes "groups_for s h key params items groups" and "Resolve (ms_mesh s) (shardKey_of s (key i)) = Inr shard"
  shows "groups_for s h key params (items @ [i]) (add_row shard (params i) (rs_name_at h (sh_replicaSet shard)) groups)"
proof -
  let ?n = "rs_name_at h (sh_replicaSet shard)"
  have n: "set_name_of s h (key i) = ?n" using assms(2) by (simp add: set_name_of_def)
  show ?thesis unfolding groups_for_def
  proof
    fix name
    note g = assms(1) [unfolded groups_for_def, rule_format, of name]
    show "case add_row shard (params i) ?n groups name of
        None \<Rightarrow> \<forall>j \<in> set (items @ [i]). set_name_of s h (key j) \<noteq> name
      | Some g \<Rightarrow> sg_args g = map params (filter (\<lambda>j. set_name_of s h (key j) = name) (items @ [i]))
          \<and> (\<exists>j \<in> set (items @ [i]). set_name_of s h (key j) = name \<and> Resolve (ms_mesh s) (shardKey_of s (key j)) = Inr (sg_shard g))"
    proof (cases "name = ?n")
      case False
      then have "add_row shard (params i) ?n groups name = groups name" by (simp add: add_row_def Let_def)
      then show ?thesis using g n False by (auto split: option.splits)
    next
      case True
      show ?thesis
      proof (cases "groups name")
        case None
        then have "filter (\<lambda>j. set_name_of s h (key j) = name) items = []" using g by (simp add: filter_empty_conv)
        then show ?thesis using None True n assms(2) by (auto simp: add_row_def Let_def)
      next
        case (Some x)
        then show ?thesis using g True n by (auto simp: add_row_def Let_def)
      qed
    qed
  qed
qed

lemma group_rows_ok:
  assumes "mesh_wf (ms_mesh s) h" and "list_all (routable s \<circ> key) items" and "groups_for s h key params seen groups"
  shows "\<exists>groups'. group_rows s h q key params k (map Some items) groups = Some (Inr groups') \<and> groups_for s h key params (seen @ items) groups'"
  using assms(2,3)
proof (induction items arbitrary: k seen groups)
  case Nil
  then show ?case by simp
next
  case (Cons i items)
  from Cons.prems(1) obtain shard where r: "Resolve (ms_mesh s) (shardKey_of s (key i)) = Inr shard" by (auto simp: routable_def)
  have "shard_ReplicaSetName shard h = Some (rs_name_at h (sh_replicaSet shard))"
    using mesh_wf_Resolve [OF assms(1) r] by (simp add: shard_name_at)
  moreover from Cons.IH [OF _ groups_for_step [where i = i, OF Cons.prems(2) r], of "Suc k"] Cons.prems(1)
  obtain groups' where "group_rows s h q key params (Suc k) (map Some items) (add_row shard (params i) (rs_name_at h (sh_replicaSet shard)) groups) =
      Some (Inr groups')" "groups_for s h key params ((seen @ [i]) @ items) groups'" by auto
  ultimately show ?case using r by simp
qed

text \<open>The groups of a well-formed mesh, one for each set in use.\<close>

lemma ordered_groups_ok:
  assumes "mesh_wf (ms_mesh s) h" and "groups_for s h key params items groups"
  shows "\<exists>gs. ordered_groups (ms_mesh s) h groups = gs \<and> length gs = length (used_sets s h (map key items))
    \<and> (\<forall>j < length gs. sg_args (gs ! j) = map params (filter (\<lambda>i. set_name_of s h (key i) = rs_name_at h (used_sets s h (map key items) ! j)) items)
         \<and> sh_replicaSet (sg_shard (gs ! j)) = used_sets s h (map key items) ! j)"
proof -
  let ?u = "used_sets s h (map key items)"
  have mem: "groups (rs_name_at h q) \<noteq> None \<longleftrightarrow> rs_name_at h q \<in> set_name_of s h ` set (map key items)" for q
    using assms(2) [unfolded groups_for_def, rule_format, of "rs_name_at h q"] by (force split: option.splits)
  then have "ordered_groups (ms_mesh s) h groups = map (\<lambda>q. the (groups (rs_name_at h q))) ?u"
    unfolding ordered_groups_def used_sets_def List.map_filter_def by (simp add: comp_def)
  moreover have "sg_args (the (groups (rs_name_at h q))) = map params (filter (\<lambda>i. set_name_of s h (key i) = rs_name_at h q) items)
      \<and> sh_replicaSet (sg_shard (the (groups (rs_name_at h q)))) = q" if "q \<in> set ?u" for q
  proof -
    have q: "q \<in> set (ReplicaSets (ms_mesh s))" "groups (rs_name_at h q) \<noteq> None" using that mem by (auto simp: used_sets_def)
    then obtain g where g: "groups (rs_name_at h q) = Some g" by blast
    note x = assms(2) [unfolded groups_for_def, THEN spec, of "rs_name_at h q", unfolded g option.case]
    then have a: "sg_args g = map params (filter (\<lambda>i. set_name_of s h (key i) = rs_name_at h q) items)" by blast
    from x obtain i where i: "rs_name_at h (sh_replicaSet (sg_shard g)) = rs_name_at h q" "Resolve (ms_mesh s) (shardKey_of s (key i)) = Inr (sg_shard g)"
      by (auto simp: set_name_of_def)
    have "sh_replicaSet (sg_shard g) = q"
      using assms(1) i(1) q(1) mesh_wf_Resolve [OF assms(1) i(2)] by (auto simp: mesh_wf_def dest: inj_onD)
    with a g show ?thesis by simp
  qed
  ultimately show ?thesis by (auto simp: set_conv_nth)
qed

section \<open>The grouped COPY\<close>

lemma copy_task_ok:
  assumes "env_ok rt s p" and "span_ok p l" and "fan_inv p h w st" and "rs_at h (sh_replicaSet (sg_shard (gs ! i))) = Some rs"
  shows "\<exists>r st' new. copy_task rt ctx (opt_tx options) mode l gs i st = Some (r, st') \<and> fan_inv p h w st'
    \<and> st_calls st' = st_calls st @ new \<and> write_outcome (rt_noRows rt) 0 (qs_write (write_target options rs)) (sg_args (gs ! i)) r new"
proof -
  have inv: "heap_ok (st_heap st)" "h_rs (st_heap st) = h_rs h" "\<And>q. read_targets (st_heap st) q = read_targets h q"
    using assms(3) by (simp_all add: fan_inv_def)
  obtain wr where wr: "shard_WriteRoute store_mirrors (sg_shard (gs ! i)) (st_heap st) = Some wr"
    "Target wr = store_mirrors (writer (rs_primary rs)) (rs_writeMirrors rs)"
    using write_route_of [of "st_heap st" "sg_shard (gs ! i)" rs] assms(4) rs_at_frame [OF inv(2)] by auto
  let ?q = "write_query (rt_noRows rt) (rt_answer rt) 0 (qs_write (write_target options rs)) (sg_args (gs ! i))"
  obtain r cs where q: "?q (st_calls st) = (r, cs)" by (meson surj_pair)
  obtain new where new: "cs = st_calls st @ new"
    "write_outcome (rt_noRows rt) 0 (qs_write (write_target options rs)) (sg_args (gs ! i)) r new"
    using write_query_calls [OF q] by blast
  have "\<exists>st'. physical_run rt ctx (WithoutVirtualShard (metadata wr)) mode l ?q (st\<lparr>st_heap := st_heap st\<rparr>) = Some (r, st')
      \<and> fan_inv p h w st' \<and> st_calls st' = cs"
    by (rule fan_inv_run [where query = ?q, OF assms(1-3) inv q])
  then obtain st' where st': "physical_run rt ctx (WithoutVirtualShard (metadata wr)) mode l ?q st = Some (r, st')"
    "fan_inv p h w st'" "st_calls st' = cs" by auto
  have "copy_task rt ctx (opt_tx options) mode l gs i st = Some (r, st')"
    using wr st'(1) by (simp add: copy_task_def write_target_def Let_def split: option.splits)
  with st' new show ?thesis by blast
qed

lemma schedule_zero [simp]: "schedule 0 order \<longleftrightarrow> order = []"
  by (auto simp: schedule_def)

text \<open>The result of a fan-out over the sets \<open>used\<close> whose slots are \<open>slots\<close>.\<close>

definition combine :: "string \<Rightarrow> string list \<Rightarrow> 'b \<Rightarrow> ('a list \<Rightarrow> 'b) \<Rightarrow> ('a \<times> go_error option) list \<Rightarrow> 'b \<times> go_error option" where
  "combine queryName names zero f slots =
     (case errors_join (slot_errors queryName names slots) of
        None \<Rightarrow> (f (map fst slots), None)
      | Some e \<Rightarrow> (zero, Some e))"

lemma those_names:
  assumes "mesh_wf m h" and "h_rs h' = h_rs h" and "\<forall>j < length gs. sh_replicaSet (f (gs ! j)) = used ! j" and "length gs = length used"
    and "set used \<subseteq> set (ReplicaSets m)"
  shows "those (map (\<lambda>g. shard_ReplicaSetName (f g) h') gs) = Some (map (rs_name_at h) used)"
proof -
  have "shard_ReplicaSetName (f (gs ! j)) h' = Some (rs_name_at h (used ! j))" if "j < length gs" for j
  proof -
    have "used ! j \<in> set (ReplicaSets m)" using assms(4,5) that by auto
    then have "rs_at h (used ! j) \<noteq> None" using assms(1) unfolding mesh_wf_def by blast
    then show ?thesis using assms(3) that shard_name_at [of h' "f (gs ! j)"] rs_at_frame [OF assms(2)] rs_name_at_frame [OF assms(2)] by simp
  qed
  then have "map (\<lambda>g. shard_ReplicaSetName (f g) h') gs = map Some (map (rs_name_at h) used)"
    using assms(4) by (intro nth_equalityI) auto
  moreover have "those (map Some xs) = Some xs" for xs :: "string list" by (induction xs) auto
  ultimately show ?thesis by metis
qed

lemma mesh_wf_set:
  assumes "mesh_wf m h" and "set used \<subseteq> set (ReplicaSets m)" and "i < length used"
  shows "rs_at h (used ! i) = Some (h_rs h ! (used ! i))"
proof -
  have "used ! i \<in> set (ReplicaSets m)" using assms(2) nth_mem [OF assms(3)] by blast
  then have "rs_at h (used ! i) \<noteq> None" using assms(1) unfolding mesh_wf_def by blast
  then show ?thesis by (auto simp: rs_at_def split: if_splits)
qed

lemma grouped_copy_ok:
  assumes "env_ok rt s p" and "heap_ok (st_heap st)" and wf: "mesh_wf (ms_mesh s) (st_heap st)" and items: "list_all (routable s \<circ> key) items"
    and "used = used_sets s (st_heap st) (map key items)"
    and tx: "opt_tx (applyQueryOptions storeOptions) = None \<or> length used \<le> 1" and ord: "schedule (length used) order"
  shows "\<exists>slots ns st'. grouped_copy rt s ctx a b key params (map Some items) storeOptions order st =
      Some (combine b (map (rs_name_at (st_heap st)) used) 0 sum_list slots, st')
    \<and> length slots = length used \<and> st_calls st' = st_calls st @ concat (map ns order)
    \<and> (\<forall>j < length used. write_outcome (rt_noRows rt) 0
         (qs_write (write_target (applyQueryOptions storeOptions) (h_rs (st_heap st) ! (used ! j))))
         (map params (filter (\<lambda>i. set_name_of s (st_heap st) (key i) = rs_name_at (st_heap st) (used ! j)) items)) (slots ! j) (ns j))
    \<and> fan_inv p (st_heap st) (st_world st) st'"
proof -
  let ?o = "applyQueryOptions storeOptions" and ?h = "st_heap st"
  let ?mode = "if opt_tx ?o \<noteq> None then RouteModeTransaction else RouteModePrimary"
  have "groups_for s ?h key params [] Map.empty" by (simp add: groups_for_def)
  from group_rows_ok [OF wf items this] obtain groups where
    g: "group_rows s ?h b key params 0 (map Some items) Map.empty = Some (Inr groups)" "groups_for s ?h key params items groups" by auto
  obtain gs where gs: "ordered_groups (ms_mesh s) ?h groups = gs" "length gs = length used"
    "\<forall>j < length gs. sg_args (gs ! j) = map params (filter (\<lambda>i. set_name_of s ?h (key i) = rs_name_at ?h (used ! j)) items)
       \<and> sh_replicaSet (sg_shard (gs ! j)) = used ! j" using ordered_groups_ok [OF wf g(2)] unfolding assms(5) by blast
  have sub: "set used \<subseteq> set (ReplicaSets (ms_mesh s))" by (auto simp: assms(5) used_sets_def)
  let ?Q = "\<lambda>i r new. write_outcome (rt_noRows rt) 0 (qs_write (write_target ?o (h_rs ?h ! (used ! i)))) (sg_args (gs ! i)) r new"
  have task: "\<exists>r st' new. copy_task rt ctx1 (opt_tx ?o) ?mode l gs i st1 = Some (r, st') \<and> fan_inv p ?h (st_world st) st'
      \<and> st_calls st' = st_calls st1 @ new \<and> ?Q i r new" if "span_ok p l" "i < length gs" "fan_inv p ?h (st_world st) st1" for ctx1 l i st1
    using mesh_wf_set [OF wf sub] gs that(2) by (intro copy_task_ok [OF assms(1) that(1,3)]) simp
  have ord': "schedule (length gs) order" using ord gs(2) by simp
  obtain ctx1 l w1 l2 w2 slots st3 ns where r: "start_logical rt s ctx a b QueryKindWrite st = Some (ctx1, l, st\<lparr>st_world := w1\<rparr>)"
    "set_route ?mode (length gs) l (st\<lparr>st_world := w1\<rparr>) = (l2, st\<lparr>st_world := w2\<rparr>)"
    "run_tasks (copy_task rt ctx1 (opt_tx ?o) ?mode l2 gs) order (replicate (length gs) (0, None)) (st\<lparr>st_world := w2\<rparr>) = Some (slots, st3)"
    "fan_inv p ?h (st_world st) st3" "length slots = length gs" "st_calls st3 = st_calls st @ concat (map ns order)"
    "\<forall>i < length gs. ?Q i (slots ! i) (ns i)"
    "\<forall>err. \<exists>w4. end_logical rt err l2 st3 = Some (st3\<lparr>st_world := w4\<rparr>) \<and> fan_inv p ?h (st_world st) (st3\<lparr>st_world := w4\<rparr>)"
    by (rule fan_run_ok [where task = "\<lambda>ctx1 l2. copy_task rt ctx1 (opt_tx ?o) ?mode l2 gs" and Q = ?Q and
          z = "(0, None)" and mode = ?mode and ctx = ctx and a = a and b = b and k = QueryKindWrite, OF assms(1,2) ord' task])
  define err where "err = errors_join (slot_errors b (map (rs_name_at ?h) used) slots)"
  have "h_rs (st_heap st3) = h_rs ?h" using r(4) by (simp add: fan_inv_def)
  from those_names [OF wf this _ gs(2) sub, of sg_shard] gs(3)
  have n: "those (map (\<lambda>g. shard_ReplicaSetName (sg_shard g) (st_heap st3)) gs) = Some (map (rs_name_at ?h) used)" by simp
  obtain w4 where w4: "end_logical rt err l2 st3 = Some (st3\<lparr>st_world := w4\<rparr>)" "fan_inv p ?h (st_world st) (st3\<lparr>st_world := w4\<rparr>)"
    using r(8) by blast
  have c: "combine b (map (rs_name_at ?h) used) 0 sum_list slots = (if err = None then sum_list (map fst slots) else 0, err)"
    by (simp add: combine_def del: errors_join_None_iff flip: err_def split: option.split)
  have "grouped_copy rt s ctx a b key params (map Some items) storeOptions order st =
      Some (combine b (map (rs_name_at ?h) used) 0 sum_list slots, st3\<lparr>st_world := w4\<rparr>)"
  proof (cases "gs = []")
    case True
    then have e: "slots = []" "err = None" "order = []" "st3 = st\<lparr>st_world := w2\<rparr>" using r(3,5) gs(2) ord by (auto simp: err_def slot_errors_def List.map_filter_def)
    have "combine b (map (rs_name_at ?h) used) 0 sum_list slots = (0, None)" unfolding c using e(1,2) by simp
    then show ?thesis using r(1,2) g(1) gs(1) w4(1) True e(2-4) tx by (simp add: grouped_copy_def Let_def)
  next
    case False
    then show ?thesis using r(1-3) g(1) gs(1,2) n w4(1) tx unfolding c
      by (auto simp add: grouped_copy_def Let_def simp del: errors_join_None_iff simp flip: err_def)
  qed
  with r(5-7) w4(2) gs(2,3) show ?thesis
    by (intro exI [of _ slots] exI [of _ ns] exI [of _ "st3\<lparr>st_world := w4\<rparr>"]) simp
qed

text \<open>In a transaction, a COPY over several sets stops before any call.\<close>

lemma grouped_copy_rejected:
  assumes "env_ok rt s p" and wf: "mesh_wf (ms_mesh s) (st_heap st)" and items: "list_all (routable s \<circ> key) items"
    and "opt_tx (applyQueryOptions storeOptions) \<noteq> None" and "length (used_sets s (st_heap st) (map key items)) > 1"
  shows "\<exists>w. grouped_copy rt s ctx a b key params (map Some items) storeOptions order st =
      Some ((0, Some (Sentinel ErrCrossShardTransaction)), st\<lparr>st_world := w\<rparr>) \<and> settles p (st_world st) w"
proof -
  have "groups_for s (st_heap st) key params [] Map.empty" by (simp add: groups_for_def)
  from group_rows_ok [OF wf items this] obtain groups where
    g: "group_rows s (st_heap st) b key params 0 (map Some items) Map.empty = Some (Inr groups)" "groups_for s (st_heap st) key params items groups"
    by auto
  obtain gs where gs: "ordered_groups (ms_mesh s) (st_heap st) groups = gs" "length gs > 1"
    using ordered_groups_ok [OF wf g(2)] assms(5) by auto
  obtain ctx1 l w1 where l: "start_logical rt s ctx a b QueryKindWrite st = Some (ctx1, l, st\<lparr>st_world := w1\<rparr>)" "span_ok p l" "settles p (st_world st) w1"
    using start_logical_ok [OF assms(1)] by blast
  obtain l2 w2 where l2: "set_route RouteModeTransaction (length gs) l (st\<lparr>st_world := w1\<rparr>) = (l2, st\<lparr>st_world := w2\<rparr>)" "span_ok p l2" "settles p w1 w2"
    using set_route_ok [OF l(2), of RouteModeTransaction "length gs" "st\<lparr>st_world := w1\<rparr>"] by auto
  obtain w3 where "end_logical rt (Some (Sentinel ErrCrossShardTransaction)) l2 (st\<lparr>st_world := w2\<rparr>) = Some (st\<lparr>st_world := w3\<rparr>)" "settles p w2 w3"
    using end_logical_ok [OF assms(1) l2(2), of "Some (Sentinel ErrCrossShardTransaction)" "st\<lparr>st_world := w2\<rparr>"] by auto
  with l l2 g(1) gs assms(4) show ?thesis
    by (auto simp: grouped_copy_def Let_def intro!: exI [of _ w3] intro: settles_trans)
qed

section \<open>The methods over several sets\<close>

text \<open>Two sets: ''a'' with a replica and a mirror, ''b'' with its primary alone.\<close>

definition pair_heap :: "(nat readQueries, nat queryStore) mesh_heap" where
  "pair_heap = snd (NewReplicaSet ''b'' (newStoreNode 4) [] sample_heap)"

definition pair_store :: "(tenantKey, uint64, unit, unit, unit) meshStore" where
  "pair_store = sample_store\<lparr>ms_mesh := \<lparr>m_virtualShards = [0, 1], m_replicaSets = [0, 1], m_hasher = (\<lambda>k. k mod 2), m_telemetry = sample_telemetry\<rparr>\<rparr>"

definition pair_state :: "(unit, nat, 'q, 'r) store_state" where
  "pair_state = sample_state\<lparr>st_heap := pair_heap\<rparr>"

lemma pair_env: "env_ok (sample_runtime v) pair_store GlobalProvider"
  using sample_env [of v] by (simp add: env_ok_def pair_store_def sample_store_def)

lemma pair_rs:
  "h_rs pair_heap = [\<lparr>rs_name = ''a'', rs_primary = newStoreNode 1, rs_readTargets = 0, rs_writeMirrors = [writer (newStoreNode 3)]\<rparr>,
     \<lparr>rs_name = ''b'', rs_primary = newStoreNode 4, rs_readTargets = 1, rs_writeMirrors = []\<rparr>]"
  by (simp add: pair_heap_def sample_heap_def NewReplicaSet_def empty_heap_def)

lemma pair_sets: "rs_name_at pair_heap 0 = ''a''" "rs_name_at pair_heap 1 = ''b''"
  by (simp_all add: rs_name_at_def rs_at_def pair_rs)

lemma pair_heap_ok: "heap_ok pair_heap"
  by (simp add: pair_heap_def sample_heap_def NewReplicaSet_def empty_heap_def heap_ok_def rr_ok_def newRoundRobin_def readTargets_of_def)

lemma pair_wf: "mesh_wf (ms_mesh pair_store) pair_heap"
  using pair_sets by (simp add: mesh_wf_def pair_store_def ReplicaSets_def rs_at_def pair_rs inj_on_def)

lemma pair_resolve:
  "Resolve (ms_mesh pair_store) 0 = Inr \<lparr>sh_virtualShardIndex = 0, sh_replicaSet = 0\<rparr>"
  "Resolve (ms_mesh pair_store) 1 = Inr \<lparr>sh_virtualShardIndex = 1, sh_replicaSet = 1\<rparr>"
  by (simp_all add: Resolve_def pair_store_def Let_def word_le_nat_alt)

lemma all_shards_rejected:
  assumes "env_ok rt s p" and "opt_tx (applyQueryOptions storeOptions) \<noteq> None"
  shows "\<exists>w. all_shards_read rt s ctx a b query storeOptions order st =
      Some (([], Some (Sentinel ErrCrossShardTransaction)), st\<lparr>st_world := w\<rparr>) \<and> settles p (st_world st) w"
proof -
  let ?n = "length (ReplicaSets (ms_mesh s))"
  obtain ctx1 l w1 where l: "start_logical rt s ctx a b QueryKindRead st = Some (ctx1, l, st\<lparr>st_world := w1\<rparr>)" "span_ok p l" "settles p (st_world st) w1"
    using start_logical_ok [OF assms(1)] by blast
  obtain l2 w2 where l2: "set_route RouteModeTransaction ?n l (st\<lparr>st_world := w1\<rparr>) = (l2, st\<lparr>st_world := w2\<rparr>)" "span_ok p l2" "settles p w1 w2"
    using set_route_ok [OF l(2), of RouteModeTransaction ?n "st\<lparr>st_world := w1\<rparr>"] by auto
  obtain w3 where "end_logical rt (Some (Sentinel ErrCrossShardTransaction)) l2 (st\<lparr>st_world := w2\<rparr>) = Some (st\<lparr>st_world := w3\<rparr>)" "settles p w2 w3"
    using end_logical_ok [OF assms(1) l2(2), of "Some (Sentinel ErrCrossShardTransaction)" "st\<lparr>st_world := w2\<rparr>"] by auto
  with l l2 assms(2) show ?thesis
    by (auto simp: all_shards_read_def Let_def intro!: exI [of _ w3] intro: settles_trans)
qed

text \<open>
  C25: a read of all shards inside a transaction returns \<^verbatim>\<open>ErrCrossShardTransaction\<close> without a database
  call. Outside, for any order in which the goroutines run, it makes exactly one call per replica set,
  to a read target of this set, or to its primary with \<^verbatim>\<open>ReadFromPrimary\<close>. The rows come in the order of the
  mesh's replica sets, whatever the order of the calls; one failed call makes the result empty, with
  the joined errors. The in-flight counters end as they started.
\<close>

theorem ListAllAccounts_reads_every_set:
  assumes "env_ok rt s p" and "heap_ok (st_heap st)" and "mesh_wf (ms_mesh s) (st_heap st)"
    and "schedule (length (ReplicaSets (ms_mesh s))) order"
  shows "if opt_tx (applyQueryOptions storeOptions) \<noteq> None
    then \<exists>w. ListAllAccounts rt s ctx storeOptions order st = Some (([], Some (Sentinel ErrCrossShardTransaction)), st\<lparr>st_world := w\<rparr>)
           \<and> settles p (st_world st) w
    else \<exists>cs st'. ListAllAccounts rt s ctx storeOptions order st =
        Some (case errors_join (slot_errors ''ListAllAccounts'' (map (rs_name_at (st_heap st)) (ReplicaSets (ms_mesh s))) (map (read_result []) cs)) of
                None \<Rightarrow> (concat (map (\<lambda>c. fst (c_result c)) cs), None) | Some e \<Rightarrow> ([], Some e), st')
      \<and> length cs = length (ReplicaSets (ms_mesh s)) \<and> st_calls st' = st_calls st @ map ((!) cs) order
      \<and> (\<forall>i < length cs. c_db (cs ! i) \<in> read_dbs (applyQueryOptions storeOptions) (st_heap st) (ReplicaSets (ms_mesh s) ! i))
      \<and> settles p (st_world st) (st_world st')"
proof (cases "opt_tx (applyQueryOptions storeOptions)")
  case None
  have "\<forall>q \<in> set (ReplicaSets (ms_mesh s)). rs_at (st_heap st) q \<noteq> None" using assms(3) by (simp add: mesh_wf_def)
  from all_shards_read_ok [OF assms(1,2) this None assms(4), where ctx = ctx and a = "''Accounts''" and b = "''ListAllAccounts''" and query = "()"]
  show ?thesis using None unfolding ListAllAccounts_def fan_inv_def by auto
next
  case (Some t)
  then show ?thesis using all_shards_rejected [OF assms(1)] unfolding ListAllAccounts_def by auto
qed

theorem ListAllAccounts_reads_every_set_witness:
  "\<exists>cs st'. ListAllAccounts (sample_runtime [None]) pair_store sample_context [Some ReadFromPrimary] [1, 0] pair_state =
      Some (case errors_join (slot_errors ''ListAllAccounts'' [''a'', ''b''] (map (read_result []) cs)) of
              None \<Rightarrow> (concat (map (\<lambda>c. fst (c_result c)) cs), None) | Some e \<Rightarrow> ([], Some e), st')
    \<and> length cs = 2 \<and> st_calls st' = [cs ! 1, cs ! 0] \<and> c_db (cs ! 0) = 1 \<and> c_db (cs ! 1) = 4"
proof -
  let ?st = "pair_state :: (unit, nat, unit, account option list) store_state"
  have s: "st_heap ?st = pair_heap" "st_calls ?st = []" by (simp_all add: pair_state_def sample_state_def)
  have f: "ReplicaSets (ms_mesh pair_store) = [0, 1]" by (simp add: pair_store_def ReplicaSets_def)
  have sch: "schedule (length (ReplicaSets (ms_mesh pair_store))) [1, 0]" unfolding f by (auto simp: schedule_def)
  have o: "(opt_tx (applyQueryOptions [Some ReadFromPrimary] :: nat queryOptions) \<noteq> None) = False" by (simp add: applyQueryOptions_def ReadFromPrimary_def)
  have d: "read_dbs (applyQueryOptions [Some ReadFromPrimary]) pair_heap 0 = {1}" "read_dbs (applyQueryOptions [Some ReadFromPrimary]) pair_heap 1 = {4}"
    by (simp_all add: applyQueryOptions_def ReadFromPrimary_def pair_rs read_dbs_def primary_db_def newStoreNode_def NewNode_def newQueryStore_def newWriteQueries_def New_def Let_def)
  have n: "map (rs_name_at pair_heap) [0, 1] = [''a'', ''b'']" using pair_sets by simp
  from ListAllAccounts_reads_every_set [where st = ?st and storeOptions = "[Some ReadFromPrimary]" and ctx = sample_context,
      OF pair_env [of "[None]"], unfolded s, OF pair_heap_ok pair_wf sch, unfolded f n o if_False]
  obtain cs st' where "ListAllAccounts (sample_runtime [None]) pair_store sample_context [Some ReadFromPrimary] [1, 0] ?st =
      Some (case errors_join (slot_errors ''ListAllAccounts'' [''a'', ''b''] (map (read_result []) cs)) of
              None \<Rightarrow> (concat (map (\<lambda>c. fst (c_result c)) cs), None) | Some e \<Rightarrow> ([], Some e), st')"
    "length cs = length [0 :: rs_ptr, 1]" "st_calls st' = [] @ map ((!) cs) [1, 0]"
    "\<forall>i < length cs. c_db (cs ! i) \<in> read_dbs (applyQueryOptions [Some ReadFromPrimary]) pair_heap ([0, 1] ! i)" by blast
  then show ?thesis using d by (intro exI [of _ cs] exI [of _ st']) auto
qed

text \<open>
  C26: a COPY of rows is split by the replica set of each row's key: every set that some row is routed to
  gets one write, on its primary and then on its mirrors, of exactly its rows in their order, and no
  other set is written, for any order in which the goroutines run. The result is the sum of the counts,
  or 0 with the joined errors of the sets that failed. Inside a transaction, rows of several sets are
  refused with \<^verbatim>\<open>ErrCrossShardTransaction\<close> before any call, and rows of one set go to the transaction.
\<close>

theorem CopyAccounts_partitions_rows:
  assumes "env_ok rt s p" and "heap_ok (st_heap st)" and "mesh_wf (ms_mesh s) (st_heap st)"
    and "list_all (routable s \<circ> ca_TenantKey) items"
    and "schedule (length (used_sets s (st_heap st) (map ca_TenantKey items))) order"
  shows "let used = used_sets s (st_heap st) (map ca_TenantKey items); options = applyQueryOptions storeOptions in
    if opt_tx options \<noteq> None \<and> length used > 1
    then \<exists>w. CopyAccounts rt s ctx (map Some items) storeOptions order st = Some ((0, Some (Sentinel ErrCrossShardTransaction)), st\<lparr>st_world := w\<rparr>)
           \<and> settles p (st_world st) w
    else \<exists>slots ns st'. CopyAccounts rt s ctx (map Some items) storeOptions order st =
        Some (case errors_join (slot_errors ''CopyAccounts'' (map (rs_name_at (st_heap st)) used) slots) of
                None \<Rightarrow> (sum_list (map fst slots), None) | Some e \<Rightarrow> (0, Some e), st')
      \<and> length slots = length used \<and> st_calls st' = st_calls st @ concat (map ns order)
      \<and> (\<forall>j < length used. write_outcome (rt_noRows rt) 0 (qs_write (write_target options (h_rs (st_heap st) ! (used ! j))))
           (map copyAccounts_sqlcParams (filter (\<lambda>i. set_name_of s (st_heap st) (ca_TenantKey i) = rs_name_at (st_heap st) (used ! j)) items))
           (slots ! j) (ns j))
      \<and> settles p (st_world st) (st_world st')"
proof (cases "opt_tx (applyQueryOptions storeOptions) \<noteq> None \<and> length (used_sets s (st_heap st) (map ca_TenantKey items)) > 1")
  case True
  then show ?thesis using grouped_copy_rejected [OF assms(1,3,4)] unfolding CopyAccounts_def Let_def by auto
next
  case False
  then have "opt_tx (applyQueryOptions storeOptions) = None \<or> length (used_sets s (st_heap st) (map ca_TenantKey items)) \<le> 1" by auto
  from grouped_copy_ok [OF assms(1-4) refl this assms(5), where ctx = ctx and a = "''Accounts''" and b = "''CopyAccounts''" and params = copyAccounts_sqlcParams]
  show ?thesis using False unfolding CopyAccounts_def Let_def combine_def fan_inv_def by auto
qed

theorem CopyAccounts_partitions_rows_witness:
  "\<exists>slots ns st'. CopyAccounts (sample_runtime 1) pair_store sample_context
      (map (\<lambda>(t, i). Some \<lparr>ca_TenantKey = \<lparr>TenantID = t\<rparr>, ca_ID = i, ca_DisplayName = ''x''\<rparr>) [(1, 10), (0, 11), (1, 12)]) [] [1, 0] pair_state =
      Some (case errors_join (slot_errors ''CopyAccounts'' [''a'', ''b''] slots) of
              None \<Rightarrow> (sum_list (map fst slots), None) | Some e \<Rightarrow> (0, Some e), st')
    \<and> st_calls st' = ns (1 :: nat) @ ns 0
    \<and> write_outcome (Foreign 0) 0 (qs_write (write_target (applyQueryOptions []) (h_rs pair_heap ! 0)))
        [\<lparr>cap_ID = 11, cap_TenantID = 0, cap_DisplayName = ''x''\<rparr>] (slots ! 0) (ns 0)
    \<and> write_outcome (Foreign 0) 0 (qs_write (write_target (applyQueryOptions []) (h_rs pair_heap ! 1)))
        [\<lparr>cap_ID = 10, cap_TenantID = 1, cap_DisplayName = ''x''\<rparr>, \<lparr>cap_ID = 12, cap_TenantID = 1, cap_DisplayName = ''x''\<rparr>] (slots ! 1) (ns 1)"
proof -
  let ?st = "pair_state :: (unit, nat, copyAccountsParams list, int64) store_state"
  let ?i = "map (\<lambda>(t, i). \<lparr>ca_TenantKey = \<lparr>TenantID = t\<rparr>, ca_ID = i, ca_DisplayName = ''x''\<rparr> :: copyAccountsT) [(1, 10), (0, 11), (1, 12)]"
  have s: "st_heap ?st = pair_heap" "st_calls ?st = []" "rt_noRows (sample_runtime (1 :: int64)) = Foreign 0"
    by (simp_all add: pair_state_def sample_state_def sample_runtime_def)
  have k: "shardKey_of pair_store \<lparr>TenantID = t\<rparr> = t" for t by (simp add: shardKey_of_def pair_store_def sample_store_def)
  have r: "list_all (routable pair_store \<circ> ca_TenantKey) ?i" using pair_resolve by (simp add: routable_def k)
  have n: "set_name_of pair_store pair_heap \<lparr>TenantID = 0\<rparr> = ''a''" "set_name_of pair_store pair_heap \<lparr>TenantID = 1\<rparr> = ''b''"
    using pair_resolve pair_sets by (simp_all add: set_name_of_def k)
  have u: "used_sets pair_store pair_heap (map ca_TenantKey ?i) = [0, 1]"
    using n pair_sets by (simp add: used_sets_def pair_store_def ReplicaSets_def)
  have sch: "schedule (length (used_sets pair_store pair_heap (map ca_TenantKey ?i))) [1, 0]" unfolding u by (auto simp: schedule_def)
  have o: "(opt_tx (applyQueryOptions [] :: nat queryOptions) \<noteq> None \<and> length [0 :: rs_ptr, 1] > 1) = False" by (simp add: applyQueryOptions_def)
  have m: "map (rs_name_at pair_heap) [0, 1] = [''a'', ''b'']" using pair_sets by simp
  from CopyAccounts_partitions_rows [where st = ?st and storeOptions = "[]" and ctx = sample_context,
      OF pair_env [of 1], unfolded s, OF pair_heap_ok pair_wf r sch, unfolded u Let_def m o if_False]
  obtain slots ns st' where w: "CopyAccounts (sample_runtime 1) pair_store sample_context (map Some ?i) [] [1, 0] ?st =
      Some (case errors_join (slot_errors ''CopyAccounts'' [''a'', ''b''] slots) of
              None \<Rightarrow> (sum_list (map fst slots), None) | Some e \<Rightarrow> (0, Some e), st')"
    "st_calls st' = [] @ concat (map ns [1, 0])"
    "\<forall>j < length [0 :: rs_ptr, 1]. write_outcome (Foreign 0) 0 (qs_write (write_target (applyQueryOptions []) (h_rs pair_heap ! ([0, 1] ! j))))
       (map copyAccounts_sqlcParams (filter (\<lambda>i. set_name_of pair_store pair_heap (ca_TenantKey i) = rs_name_at pair_heap ([0, 1] ! j)) ?i))
       (slots ! j) (ns j)" by blast
  from w(3) have "write_outcome (Foreign 0) 0 (qs_write (write_target (applyQueryOptions []) (h_rs pair_heap ! 0)))
        [\<lparr>cap_ID = 11, cap_TenantID = 0, cap_DisplayName = ''x''\<rparr>] (slots ! 0) (ns 0)"
    "write_outcome (Foreign 0) 0 (qs_write (write_target (applyQueryOptions []) (h_rs pair_heap ! 1)))
        [\<lparr>cap_ID = 10, cap_TenantID = 1, cap_DisplayName = ''x''\<rparr>, \<lparr>cap_ID = 12, cap_TenantID = 1, cap_DisplayName = ''x''\<rparr>] (slots ! 1) (ns 1)"
    using n pair_sets by (auto simp: copyAccounts_sqlcParams_def dest: spec [of _ 0] spec [of _ 1])
  with w(1,2) show ?thesis by (intro exI [of _ slots] exI [of _ ns] exI [of _ st']) simp
qed

end
