(* ===== verification/Generated_Lookup.thy ===== *)
theory Generated_Lookup
  imports Generated_Fanout
begin

text \<open>
  What the grouped lookup of \<open>Generated_Store\<close> does: how the lookup values are spread over the replica
  sets, and how the rows come back in the order of the values.
\<close>

section \<open>The grouped lookup\<close>

text \<open>The lookups of a list of items: each value once per set, in the order of first occurrence.\<close>

definition lookups_for ::
  "('k, 'sk, 'tp, 'mp, 'lg) meshStore \<Rightarrow> ('r, 'w) mesh_heap \<Rightarrow> ('i \<Rightarrow> 'k) \<Rightarrow> ('i \<Rightarrow> 'v) \<Rightarrow> 'i list \<Rightarrow> (string \<rightharpoonup> 'v manyGroup) \<Rightarrow> (string \<times> 'v) list \<Rightarrow> bool" where
  "lookups_for s h key lookup items groups ordered \<longleftrightarrow>
     ordered = first_occurrences (map (\<lambda>i. (set_name_of s h (key i), lookup i)) items) \<and>
     (\<forall>name. case groups name of
        None \<Rightarrow> (\<forall>i \<in> set items. set_name_of s h (key i) \<noteq> name)
      | Some g \<Rightarrow> mg_args g = first_occurrences (map lookup (filter (\<lambda>i. set_name_of s h (key i) = name) items))
          \<and> mg_requested g = set (mg_args g)
          \<and> (\<exists>i \<in> set items. set_name_of s h (key i) = name \<and> Resolve (ms_mesh s) (shardKey_of s (key i)) = Inr (mg_shard g)))"

definition add_lookup :: "resolvedShard \<Rightarrow> 'v \<Rightarrow> 'v manyGroup option \<Rightarrow> 'v manyGroup" where
  "add_lookup shard v g0 =
     (let g = (case g0 of None \<Rightarrow> \<lparr>mg_shard = shard, mg_args = [], mg_requested = {}\<rparr> | Some g \<Rightarrow> g)
      in if v \<in> mg_requested g then g else g\<lparr>mg_requested := insert v (mg_requested g), mg_args := mg_args g @ [v]\<rparr>)"

lemma lookups_for_group:
  assumes "lookups_for s h key lookup items groups ordered" and "Resolve (ms_mesh s) (shardKey_of s (key i)) = Inr shard"
    and "name = rs_name_at h (sh_replicaSet shard)"
  shows "mg_args (add_lookup shard (lookup i) (groups name)) =
      first_occurrences (map lookup (filter (\<lambda>j. set_name_of s h (key j) = name) (items @ [i])))
    \<and> mg_requested (add_lookup shard (lookup i) (groups name)) = set (mg_args (add_lookup shard (lookup i) (groups name)))
    \<and> (\<exists>j \<in> set (items @ [i]). set_name_of s h (key j) = name \<and>
         Resolve (ms_mesh s) (shardKey_of s (key j)) = Inr (mg_shard (add_lookup shard (lookup i) (groups name))))
    \<and> ((name, lookup i) \<in> set ordered \<longleftrightarrow> (\<exists>g. groups name = Some g \<and> lookup i \<in> mg_requested g))"
proof -
  have n: "set_name_of s h (key i) = name" using assms(2,3) by (simp add: set_name_of_def)
  note g = assms(1) [unfolded lookups_for_def, THEN conjunct2, THEN spec, of name]
  have o: "(name, lookup i) \<in> set ordered \<longleftrightarrow> (\<exists>j \<in> set items. set_name_of s h (key j) = name \<and> lookup j = lookup i)"
    using assms(1) unfolding lookups_for_def by auto
  show ?thesis
  proof (cases "groups name")
    case None
    then have "filter (\<lambda>j. set_name_of s h (key j) = name) items = []" using g by (simp add: filter_empty_conv)
    then show ?thesis using None n assms(2) o g first_occurrences_snoc [of "[]" "lookup i"] by (auto simp: add_lookup_def)
  next
    case (Some x)
    let ?ls = "map lookup (filter (\<lambda>j. set_name_of s h (key j) = name) items)"
    have x: "mg_args x = first_occurrences ?ls" "mg_requested x = set ?ls" using g Some by simp_all
    have "(name, lookup i) \<in> set ordered \<longleftrightarrow> lookup i \<in> set ?ls" unfolding o set_map image_iff set_filter by auto
    moreover have "first_occurrences (?ls @ [lookup i]) = (if lookup i \<in> set ?ls then first_occurrences ?ls else first_occurrences ?ls @ [lookup i])"
      by (rule first_occurrences_snoc)
    ultimately show ?thesis using g Some n x by (auto simp: add_lookup_def Let_def)
  qed
qed

lemma lookups_for_step:
  assumes "lookups_for s h key lookup items groups ordered" and "Resolve (ms_mesh s) (shardKey_of s (key i)) = Inr shard"
    and "name = rs_name_at h (sh_replicaSet shard)"
  shows "lookups_for s h key lookup (items @ [i]) (groups(name \<mapsto> add_lookup shard (lookup i) (groups name)))
    (if (name, lookup i) \<in> set ordered then ordered else ordered @ [(name, lookup i)])"
proof -
  have n: "set_name_of s h (key i) = name" using assms(2,3) by (simp add: set_name_of_def)
  note a = lookups_for_group [OF assms]
  have "case (groups(name \<mapsto> add_lookup shard (lookup i) (groups name))) name' of
        None \<Rightarrow> (\<forall>j \<in> set (items @ [i]). set_name_of s h (key j) \<noteq> name')
      | Some g \<Rightarrow> mg_args g = first_occurrences (map lookup (filter (\<lambda>j. set_name_of s h (key j) = name') (items @ [i])))
          \<and> mg_requested g = set (mg_args g)
          \<and> (\<exists>j \<in> set (items @ [i]). set_name_of s h (key j) = name' \<and> Resolve (ms_mesh s) (shardKey_of s (key j)) = Inr (mg_shard g))" for name'
  proof (cases "name' = name")
    case True
    then show ?thesis using a by simp
  next
    case False
    then show ?thesis using assms(1) [unfolded lookups_for_def, THEN conjunct2, THEN spec, of name'] n
      by (auto split: option.splits)
  qed
  moreover have "ordered = first_occurrences (map (\<lambda>i. (set_name_of s h (key i), lookup i)) items)"
    using assms(1) unfolding lookups_for_def by blast
  ultimately show ?thesis using first_occurrences_snoc [of "map (\<lambda>i. (set_name_of s h (key i), lookup i)) items" "(name, lookup i)"] n
    unfolding lookups_for_def by simp
qed

lemma group_lookups_step:
  assumes "lookups_for s h key lookup items groups ordered" and "Resolve (ms_mesh s) (shardKey_of s (key i)) = Inr shard"
    and "name = rs_name_at h (sh_replicaSet shard)" and "shard_ReplicaSetName shard h = Some name"
  shows "group_lookups s h q key lookup (\<lambda>_. True) typeName k (Some i # rest) groups ordered =
    group_lookups s h q key lookup (\<lambda>_. True) typeName (Suc k) rest (groups(name \<mapsto> add_lookup shard (lookup i) (groups name)))
      (if (name, lookup i) \<in> set ordered then ordered else ordered @ [(name, lookup i)])"
proof -
  note a = lookups_for_group [OF assms(1-3)]
  show ?thesis using assms(2,4) a by (cases "groups name") (simp_all add: add_lookup_def Let_def)
qed

lemma group_lookups_ok:
  assumes "mesh_wf (ms_mesh s) h" and "list_all (routable s \<circ> key) items" and "lookups_for s h key lookup seen groups ordered"
  shows "\<exists>groups' ordered'. group_lookups s h q key lookup (\<lambda>_. True) typeName k (map Some items) groups ordered = Some (Inr (groups', ordered'))
    \<and> lookups_for s h key lookup (seen @ items) groups' ordered'"
  using assms(2,3)
proof (induction items arbitrary: k seen groups ordered)
  case Nil
  then show ?case by simp
next
  case (Cons i items)
  from Cons.prems(1) obtain shard where r: "Resolve (ms_mesh s) (shardKey_of s (key i)) = Inr shard" by (auto simp: routable_def)
  have n: "shard_ReplicaSetName shard h = Some (rs_name_at h (sh_replicaSet shard))"
    using mesh_wf_Resolve [OF assms(1) r] by (simp add: shard_name_at)
  define g1 where "g1 = groups(rs_name_at h (sh_replicaSet shard) \<mapsto> add_lookup shard (lookup i) (groups (rs_name_at h (sh_replicaSet shard))))"
  define o1 where "o1 = (if (rs_name_at h (sh_replicaSet shard), lookup i) \<in> set ordered then ordered
    else ordered @ [(rs_name_at h (sh_replicaSet shard), lookup i)])"
  have "lookups_for s h key lookup (seen @ [i]) g1 o1"
    unfolding g1_def o1_def by (rule lookups_for_step [OF Cons.prems(2) r refl])
  moreover have "list_all (routable s \<circ> key) items" using Cons.prems(1) by (simp add: comp_def)
  ultimately have "\<exists>groups' ordered'. group_lookups s h q key lookup (\<lambda>_. True) typeName (Suc k) (map Some items) g1 o1 = Some (Inr (groups', ordered'))
    \<and> lookups_for s h key lookup ((seen @ [i]) @ items) groups' ordered'" by (intro Cons.IH)
  moreover have "group_lookups s h q key lookup (\<lambda>_. True) typeName k (Some i # map Some items) groups ordered =
      group_lookups s h q key lookup (\<lambda>_. True) typeName (Suc k) (map Some items) g1 o1"
    unfolding g1_def o1_def by (rule group_lookups_step [OF Cons.prems(2) r refl n])
  ultimately show ?case by simp
qed

lemma many_groups_ok:
  assumes "mesh_wf (ms_mesh s) h" and "lookups_for s h key lookup items groups ordered"
  shows "\<exists>gs. ordered_groups (ms_mesh s) h groups = gs \<and> length gs = length (used_sets s h (map key items))
    \<and> (\<forall>j < length gs. mg_args (gs ! j) =
           first_occurrences (map lookup (filter (\<lambda>i. set_name_of s h (key i) = rs_name_at h (used_sets s h (map key items) ! j)) items))
         \<and> mg_requested (gs ! j) = set (mg_args (gs ! j)) \<and> sh_replicaSet (mg_shard (gs ! j)) = used_sets s h (map key items) ! j)"
proof -
  let ?u = "used_sets s h (map key items)"
  note l = assms(2) [unfolded lookups_for_def, THEN conjunct2, THEN spec]
  have mem: "groups (rs_name_at h q) \<noteq> None \<longleftrightarrow> rs_name_at h q \<in> set_name_of s h ` set (map key items)" for q
    using l [of "rs_name_at h q"] by (force split: option.splits)
  then have "ordered_groups (ms_mesh s) h groups = map (\<lambda>q. the (groups (rs_name_at h q))) ?u"
    unfolding ordered_groups_def used_sets_def List.map_filter_def by (simp add: comp_def)
  moreover have "mg_args (the (groups (rs_name_at h q))) = first_occurrences (map lookup (filter (\<lambda>i. set_name_of s h (key i) = rs_name_at h q) items))
      \<and> mg_requested (the (groups (rs_name_at h q))) = set (mg_args (the (groups (rs_name_at h q))))
      \<and> sh_replicaSet (mg_shard (the (groups (rs_name_at h q)))) = q" if "q \<in> set ?u" for q
  proof -
    have q: "q \<in> set (ReplicaSets (ms_mesh s))" "groups (rs_name_at h q) \<noteq> None" using that mem by (auto simp: used_sets_def)
    then obtain g where g: "groups (rs_name_at h q) = Some g" by blast
    note x = l [of "rs_name_at h q", unfolded g option.case]
    from x obtain i where i: "rs_name_at h (sh_replicaSet (mg_shard g)) = rs_name_at h q" "Resolve (ms_mesh s) (shardKey_of s (key i)) = Inr (mg_shard g)"
      by (auto simp: set_name_of_def)
    have "sh_replicaSet (mg_shard g) = q"
      using assms(1) i(1) q(1) mesh_wf_Resolve [OF assms(1) i(2)] by (auto simp: mesh_wf_def dest: inj_onD)
    with x g show ?thesis by simp
  qed
  ultimately show ?thesis by (auto simp: set_conv_nth)
qed

lemma many_task_ok:
  assumes "env_ok rt s p" and "span_ok p l" and "fan_inv p h w st" and rs: "rs_at h (sh_replicaSet (mg_shard (gs ! i))) = Some rs"
  shows "\<exists>r st' new. many_task rt ctx options mode l gs i st = Some (r, st') \<and> fan_inv p h w st' \<and> st_calls st' = st_calls st @ new
    \<and> (\<exists>c. new = [c] \<and> r = read_result [] c \<and> c_query c = mg_args (gs ! i) \<and> c_db c \<in> read_dbs options h (sh_replicaSet (mg_shard (gs ! i))))"
proof -
  let ?q = "sh_replicaSet (mg_shard (gs ! i))"
  have inv: "heap_ok (st_heap st)" "h_rs (st_heap st) = h_rs h" "\<And>q. read_targets (st_heap st) q = read_targets h q"
    using assms(3) by (simp_all add: fan_inv_def)
  have at: "rs_at (st_heap st) ?q = Some rs" "rs = h_rs h ! ?q" using rs rs_at_frame [OF inv(2)] by (simp_all add: rs_at_Some)
  obtain wr where wr: "shard_WriteRoute store_mirrors (mg_shard (gs ! i)) (st_heap st) = Some wr"
    "Target wr = store_mirrors (writer (rs_primary rs)) (rs_writeMirrors rs)" using write_route_of [OF at(1)] by blast
  have run: "\<exists>st' c. physical_run rt ctx (WithoutVirtualShard m) mode l (read_query (rt_answer rt) [] target (mg_args (gs ! i))) (st\<lparr>st_heap := h'\<rparr>) =
      Some (read_result [] c, st') \<and> fan_inv p h w st' \<and> st_calls st' = st_calls st @ [c] \<and> c_query c = mg_args (gs ! i) \<and> c_db c = db (rd_main target)"
    if h': "heap_ok h'" "h_rs h' = h_rs h" "\<And>q. read_targets h' q = read_targets h q" for h' target m
  proof -
    obtain c where c: "read_query (rt_answer rt) [] target (mg_args (gs ! i)) (st_calls st) = (read_result [] c, st_calls st @ [c])"
      "c_db c = db (rd_main target)" "c_query c = mg_args (gs ! i)" using read_query_result [of "rt_answer rt" "[]" target] by auto
    from fan_inv_run [where query = "read_query (rt_answer rt) [] target (mg_args (gs ! i))", OF assms(1-3) h' c(1)] c(2,3)
    show ?thesis by blast
  qed
  show ?thesis
  proof (cases "opt_tx options")
    case (Some t)
    from run [where h' = "st_heap st" and target = "qs_read (queryStore_WithTx t (Target wr))" and m = "metadata wr", OF inv] wr(1) Some
    show ?thesis by (auto simp: many_task_def read_dbs_def simp del: split_paired_Ex)
  next
    case None
    show ?thesis
    proof (cases "opt_primary options")
      case True
      from run [where h' = "st_heap st" and target = "qs_read (Target wr)" and m = "metadata wr", OF inv] wr None True at(2)
      show ?thesis by (auto simp: many_task_def read_dbs_def primary_db_def simp del: split_paired_Ex)
    next
      case False
      obtain rr h' where rr: "ReadRoute ?q (st_heap st) = Some (rr, h')" "Target rr \<in> nt_value ` set (read_targets h ?q)"
        "heap_ok h'" "h_rs h' = h_rs h" "\<And>q. read_targets h' q = read_targets h q"
        using ReadRoute_targets [OF inv(1) at(1)] inv(2,3) by auto
      have "read_route (mg_shard (gs ! i)) st = Some (withVirtualShard rr (sh_virtualShardIndex (mg_shard (gs ! i))), st\<lparr>st_heap := h'\<rparr>)"
        using rr(1) by (simp add: read_route_def shard_ReadRoute_def)
      moreover have "db (rd_main (Target rr)) \<in> read_dbs options h ?q" using rr(2) None False by (auto simp: read_dbs_def)
      ultimately show ?thesis
        using run [where h' = h' and target = "Target rr" and m = "metadata (withVirtualShard rr (sh_virtualShardIndex (mg_shard (gs ! i))))", OF rr(3-5)]
          None False by (auto simp: many_task_def simp del: split_paired_Ex)
    qed
  qed
qed

text \<open>A row that belongs to a group, and the rows of a group with a key.\<close>

definition row_ok :: "'v set \<Rightarrow> ('x \<Rightarrow> 'v) \<Rightarrow> 'x option \<Rightarrow> bool" where
  "row_ok requested rowKey x \<longleftrightarrow> (case x of None \<Rightarrow> False | Some r \<Rightarrow> rowKey r \<in> requested)"

definition rows_with :: "('x \<Rightarrow> 'v) \<Rightarrow> 'v \<Rightarrow> 'x option list \<Rightarrow> 'x option list" where
  "rows_with rowKey v rows = filter (\<lambda>x. map_option rowKey x = Some v) rows"

lemma index_rows_ok:
  "\<exists>extra byKey'. index_rows q n requested rowKey (\<lambda>_. True) tn k rows (errs, byKey) = (errs @ extra, byKey')
    \<and> (extra = [] \<longleftrightarrow> list_all (row_ok requested rowKey) rows)
    \<and> (list_all (row_ok requested rowKey) rows \<longrightarrow> byKey' = (\<lambda>v. byKey v @ rows_with rowKey v rows))"
proof (induction rows arbitrary: k errs byKey)
  case Nil
  then show ?case by (simp add: rows_with_def)
next
  case (Cons x rows)
  show ?case
  proof (cases "row_ok requested rowKey x")
    case True
    then obtain r where x: "x = Some r" "rowKey r \<in> requested" by (auto simp: row_ok_def split: option.splits)
    define bk where "bk = byKey(rowKey r := byKey (rowKey r) @ [x])"
    from Cons.IH [of "Suc k" errs bk] obtain extra byKey' where
      i: "index_rows q n requested rowKey (\<lambda>_. True) tn (Suc k) rows (errs, bk) = (errs @ extra, byKey')"
      "extra = [] \<longleftrightarrow> list_all (row_ok requested rowKey) rows"
      "list_all (row_ok requested rowKey) rows \<longrightarrow> byKey' = (\<lambda>v. bk v @ rows_with rowKey v rows)" by blast
    have "(\<lambda>v. bk v @ rows_with rowKey v rows) = (\<lambda>v. byKey v @ rows_with rowKey v (x # rows))"
      by (auto simp: bk_def rows_with_def x)
    with i x True show ?thesis by (simp add: bk_def)
  next
    case False
    then obtain e where e: "index_rows q n requested rowKey (\<lambda>_. True) tn k (x # rows) (errs, byKey) =
        index_rows q n requested rowKey (\<lambda>_. True) tn (Suc k) rows (errs @ [e], byKey)"
      by (cases x) (auto simp: row_ok_def)
    from Cons.IH [of "Suc k" "errs @ [e]" byKey] False show ?thesis unfolding e by auto
  qed
qed

lemma index_groups_ok:
  assumes "distinct (map fst xs)"
  shows "\<exists>extra byGroup'. index_groups q rowKey (\<lambda>_. True) tn xs (errs, byGroup) = (errs @ extra, byGroup')
    \<and> (extra = [] \<longleftrightarrow> (\<forall>(name, g, rows) \<in> set xs. list_all (row_ok (mg_requested g) rowKey) rows))
    \<and> (extra = [] \<longrightarrow> (\<forall>(name, g, rows) \<in> set xs. \<forall>v. byGroup' name v = rows_with rowKey v rows))
    \<and> (\<forall>name. name \<notin> fst ` set xs \<longrightarrow> byGroup' name = byGroup name)"
  using assms
proof (induction xs arbitrary: errs byGroup)
  case Nil
  then show ?case by simp
next
  case (Cons x xs)
  obtain name g rows where x: "x = (name, g, rows)" by (cases x) auto
  obtain ex bk where r: "index_rows q name (mg_requested g) rowKey (\<lambda>_. True) tn 0 rows (errs, \<lambda>_. []) = (errs @ ex, bk)"
    "ex = [] \<longleftrightarrow> list_all (row_ok (mg_requested g) rowKey) rows"
    "list_all (row_ok (mg_requested g) rowKey) rows \<longrightarrow> bk = (\<lambda>v. rows_with rowKey v rows)"
    using index_rows_ok [of q name "mg_requested g" rowKey tn 0 rows errs "\<lambda>_. []"] by auto
  define bg where "bg = byGroup(name := bk)"
  have d: "distinct (map fst xs)" "name \<notin> fst ` set xs" using Cons.prems x by auto
  from Cons.IH [OF d(1), of "errs @ ex" bg] obtain extra byGroup' where
    i: "index_groups q rowKey (\<lambda>_. True) tn xs (errs @ ex, bg) = ((errs @ ex) @ extra, byGroup')"
    "extra = [] \<longleftrightarrow> (\<forall>(name, g, rows) \<in> set xs. list_all (row_ok (mg_requested g) rowKey) rows)"
    "extra = [] \<longrightarrow> (\<forall>(name, g, rows) \<in> set xs. \<forall>v. byGroup' name v = rows_with rowKey v rows)"
    "\<forall>name. name \<notin> fst ` set xs \<longrightarrow> byGroup' name = bg name" by blast
  have "byGroup' name = bk" using i(4) d(2) by (simp add: bg_def)
  moreover have "index_groups q rowKey (\<lambda>_. True) tn (x # xs) (errs, byGroup) = (errs @ (ex @ extra), byGroup')"
    using r(1) i(1) by (simp add: x bg_def)
  ultimately show ?case using i(2-4) r(2,3) x by (intro exI [of _ "ex @ extra"] exI [of _ byGroup']) (auto simp: bg_def)
qed

section \<open>The whole lookup\<close>

text \<open>The rows of the used sets by name, and the rows of the lookups in their order.\<close>

definition looked_up :: "string list \<Rightarrow> 'x option list list \<Rightarrow> ('x \<Rightarrow> 'v) \<Rightarrow> (string \<times> 'v) list \<Rightarrow> 'x option list" where
  "looked_up names rows rowKey ordered = concat (map (\<lambda>(name, v). rows_with rowKey v (the (map_of (zip names rows) name))) ordered)"

text \<open>The result of the lookup from the calls made, in the order of the sets.\<close>

definition many_result ::
  "string \<Rightarrow> string list \<Rightarrow> ('x \<Rightarrow> 'v) \<Rightarrow> (string \<times> 'v) list \<Rightarrow> ('d, 'v list, 'x option list) call list \<Rightarrow> 'x option list \<times> go_error option \<Rightarrow> bool" where
  "many_result b names rowKey ordered cs r \<longleftrightarrow>
     (case errors_join (slot_errors b names (map (read_result []) cs)) of
        Some e \<Rightarrow> r = ([], Some e)
      | None \<Rightarrow> if list_all (\<lambda>c. list_all (row_ok (set (c_query c)) rowKey) (fst (c_result c))) cs
                then r = (looked_up names (map (\<lambda>c. fst (c_result c)) cs) rowKey ordered, None)
                else fst r = [] \<and> snd r \<noteq> None)"

lemma indexed_result:
  assumes "distinct names" and "length gs = length names" and "length cs = length names" and "map fst slots = map (\<lambda>c. fst (c_result c)) cs"
    and "\<forall>j < length gs. mg_requested (gs ! j) = set (c_query (cs ! j))" and "fst ` set ordered \<subseteq> set names"
    and "index_groups b rowKey (\<lambda>_. True) tn (zip names (zip gs (map fst slots))) ([], \<lambda>_ _. []) = (errs, byGroup)"
  shows "if list_all (\<lambda>c. list_all (row_ok (set (c_query c)) rowKey) (fst (c_result c))) cs
    then errs = [] \<and> concat (map (\<lambda>(name, v). byGroup name v) ordered) = looked_up names (map (\<lambda>c. fst (c_result c)) cs) rowKey ordered
    else errs \<noteq> []"
proof -
  let ?xs = "zip names (zip gs (map fst slots))" and ?rows = "map (\<lambda>c. fst (c_result c)) cs"
  have d: "distinct (map fst ?xs)" using assms(1-4) by simp
  have xs: "set ?xs = {(names ! j, gs ! j, fst (c_result (cs ! j))) | j. j < length names}"
    using assms(2,3) unfolding assms(4) by (auto simp: set_zip)
  from index_groups_ok [OF d, of b rowKey tn "[]" "\<lambda>_ _. []"] assms(7) have
    e: "errs = [] \<longleftrightarrow> (\<forall>(name, g, rows) \<in> set ?xs. list_all (row_ok (mg_requested g) rowKey) rows)"
    "errs = [] \<longrightarrow> (\<forall>(name, g, rows) \<in> set ?xs. \<forall>v. byGroup name v = rows_with rowKey v rows)" by auto
  have ok: "errs = [] \<longleftrightarrow> list_all (\<lambda>c. list_all (row_ok (set (c_query c)) rowKey) (fst (c_result c))) cs"
  proof -
    have "errs = [] \<longleftrightarrow> (\<forall>j < length names. list_all (row_ok (mg_requested (gs ! j)) rowKey) (fst (c_result (cs ! j))))"
      unfolding e(1) xs by blast
    also have "\<dots> \<longleftrightarrow> (\<forall>j < length cs. list_all (row_ok (set (c_query (cs ! j))) rowKey) (fst (c_result (cs ! j))))"
      using assms(2,3,5) by simp
    finally show ?thesis by (simp only: list_all_length [of _ cs])
  qed
  have "byGroup name v = rows_with rowKey v (the (map_of (zip names ?rows) name))" if "errs = []" "name \<in> set names" for name v
  proof -
    obtain j where j: "j < length names" "name = names ! j" using \<open>name \<in> set names\<close> by (auto simp: in_set_conv_nth)
    have "map_of (zip names ?rows) name = Some (fst (c_result (cs ! j)))"
      using j assms(1,3) by (simp add: map_of_zip_nth)
    moreover have "(names ! j, gs ! j, fst (c_result (cs ! j))) \<in> set ?xs" unfolding xs using j(1) by blast
    then have "byGroup name v = rows_with rowKey v (fst (c_result (cs ! j)))" using e(2) that(1) j(2) by blast
    ultimately show ?thesis by simp
  qed
  then have "concat (map (\<lambda>(name, v). byGroup name v) ordered) = looked_up names ?rows rowKey ordered" if "errs = []"
    unfolding looked_up_def using assms(6) that by (intro arg_cong [of _ _ concat] map_cong) auto
  with ok show ?thesis by auto
qed

lemma grouped_many_ok:
  assumes "env_ok rt s p" and "heap_ok (st_heap st)" and wf: "mesh_wf (ms_mesh s) (st_heap st)" and items: "list_all (routable s \<circ> key) items"
    and "used = used_sets s (st_heap st) (map key items)"
    and tx: "opt_tx (applyQueryOptions storeOptions) = None \<or> length used \<le> 1" and ord: "schedule (length used) order"
  shows "\<exists>cs r st'. grouped_many rt s ctx a b key lookup rowKey (\<lambda>_. True) tn (map Some items) storeOptions order st = Some (r, st')
    \<and> length cs = length used \<and> st_calls st' = st_calls st @ map ((!) cs) order
    \<and> (\<forall>j < length used.
         c_query (cs ! j) = first_occurrences (map lookup (filter (\<lambda>i. set_name_of s (st_heap st) (key i) = rs_name_at (st_heap st) (used ! j)) items))
       \<and> c_db (cs ! j) \<in> read_dbs (applyQueryOptions storeOptions) (st_heap st) (used ! j))
    \<and> many_result b (map (rs_name_at (st_heap st)) used) rowKey
        (first_occurrences (map (\<lambda>i. (set_name_of s (st_heap st) (key i), lookup i)) items)) cs r
    \<and> fan_inv p (st_heap st) (st_world st) st'"
proof -
  let ?o = "applyQueryOptions storeOptions" and ?h = "st_heap st"
  let ?mode = "if opt_tx ?o \<noteq> None then RouteModeTransaction else if opt_primary ?o then RouteModePrimary else RouteModeRead"
  let ?names = "map (rs_name_at ?h) used"
  have "lookups_for s ?h key lookup [] Map.empty []" by (simp add: lookups_for_def)
  from group_lookups_ok [OF wf items this, of b tn 0] obtain groups ordered where
    g: "group_lookups s ?h b key lookup (\<lambda>_. True) tn 0 (map Some items) Map.empty [] = Some (Inr (groups, ordered))"
    "lookups_for s ?h key lookup items groups ordered" by auto
  have o: "ordered = first_occurrences (map (\<lambda>i. (set_name_of s ?h (key i), lookup i)) items)" using g(2) unfolding lookups_for_def by blast
  obtain gs where gs: "ordered_groups (ms_mesh s) ?h groups = gs" "length gs = length used"
    "\<forall>j < length gs. mg_args (gs ! j) = first_occurrences (map lookup (filter (\<lambda>i. set_name_of s ?h (key i) = rs_name_at ?h (used ! j)) items))
       \<and> mg_requested (gs ! j) = set (mg_args (gs ! j)) \<and> sh_replicaSet (mg_shard (gs ! j)) = used ! j"
    using many_groups_ok [OF wf g(2)] unfolding assms(5) by blast
  have sub: "set used \<subseteq> set (ReplicaSets (ms_mesh s))" by (auto simp: assms(5) used_sets_def)
  let ?P = "\<lambda>i c. c_query c = mg_args (gs ! i) \<and> c_db c \<in> read_dbs ?o ?h (sh_replicaSet (mg_shard (gs ! i)))"
  let ?Q = "\<lambda>i r new. \<exists>c. new = [c] \<and> r = read_result [] c \<and> ?P i c"
  have task: "\<exists>r st' new. many_task rt ctx1 ?o ?mode l gs i st1 = Some (r, st') \<and> fan_inv p ?h (st_world st) st'
      \<and> st_calls st' = st_calls st1 @ new \<and> ?Q i r new" if "span_ok p l" "i < length gs" "fan_inv p ?h (st_world st) st1" for ctx1 l i st1
    using mesh_wf_set [OF wf sub] gs that(2) by (intro many_task_ok [OF assms(1) that(1,3)]) simp
  have ord': "schedule (length gs) order" using ord gs(2) by simp
  obtain ctx1 l w1 l2 w2 slots st3 ns where r: "start_logical rt s ctx a b QueryKindRead st = Some (ctx1, l, st\<lparr>st_world := w1\<rparr>)"
    "set_route ?mode (length gs) l (st\<lparr>st_world := w1\<rparr>) = (l2, st\<lparr>st_world := w2\<rparr>)"
    "run_tasks (many_task rt ctx1 ?o ?mode l2 gs) order (replicate (length gs) ([], None)) (st\<lparr>st_world := w2\<rparr>) = Some (slots, st3)"
    "fan_inv p ?h (st_world st) st3" "length slots = length gs" "st_calls st3 = st_calls st @ concat (map ns order)"
    "\<forall>i < length gs. ?Q i (slots ! i) (ns i)"
    "\<forall>err. \<exists>w4. end_logical rt err l2 st3 = Some (st3\<lparr>st_world := w4\<rparr>) \<and> fan_inv p ?h (st_world st) (st3\<lparr>st_world := w4\<rparr>)"
    by (rule fan_run_ok [where task = "\<lambda>ctx1 l2. many_task rt ctx1 ?o ?mode l2 gs" and Q = ?Q and
          z = "([], None)" and mode = ?mode and ctx = ctx and a = a and b = b and k = QueryKindRead, OF assms(1,2) ord' task])
  obtain cs where cs: "length cs = length gs" "slots = map (read_result []) cs" "concat (map ns order) = map ((!) cs) order"
    "\<forall>i < length gs. ?P i (cs ! i)" by (rule single_calls [OF ord' r(5,7)])
  have "h_rs (st_heap st3) = h_rs ?h" using r(4) by (simp add: fan_inv_def)
  from those_names [OF wf this _ gs(2) sub, of mg_shard] gs(3)
  have n: "those (map (\<lambda>g. shard_ReplicaSetName (mg_shard g) (st_heap st3)) gs) = Some ?names" by simp
  have names: "distinct ?names" "set_name_of s ?h ` set (map key items) = set ?names"
    using used_sets_names [OF wf, of "map key items"] items unfolding assms(5) by (simp_all add: list_all_iff)
  have sub': "fst ` set ordered \<subseteq> set ?names" using names(2) unfolding o by auto
  obtain errs byGroup where ix: "index_groups b rowKey (\<lambda>_. True) tn (zip ?names (zip gs (map fst slots))) ([], \<lambda>_ _. []) = (errs, byGroup)"
    by (meson surj_pair)
  define err where "err = errors_join (slot_errors b ?names slots)"
  have res: "if list_all (\<lambda>c. list_all (row_ok (set (c_query c)) rowKey) (fst (c_result c))) cs
    then errs = [] \<and> concat (map (\<lambda>(name, v). byGroup name v) ordered) = looked_up ?names (map (\<lambda>c. fst (c_result c)) cs) rowKey ordered
    else errs \<noteq> []" if "err = None"
  proof -
    have "length ?names = length slots" using r(5) gs(2) by simp
    from slot_errors_Nil [OF this, of b] have "\<forall>x \<in> set slots. snd x = None" using that unfolding err_def errors_join_None_iff by blast
    then have "map (read_result []) cs = map c_result cs" unfolding cs(2) by (rule read_results_ok)
    then have "map fst slots = map fst (map c_result cs)" unfolding cs(2) by (rule arg_cong)
    then have "map fst slots = map (\<lambda>c. fst (c_result c)) cs" by (simp add: comp_def)
    then show ?thesis using gs(2,3) cs(1,4) by (intro indexed_result [OF names(1) _ _ _ _ sub' ix]) simp_all
  qed
  define r' where "r' = (if err \<noteq> None then ([], err)
     else (if errors_join errs = None then concat (map (\<lambda>(name, v). byGroup name v) ordered) else [], errors_join errs))"
  have many: "many_result b ?names rowKey ordered cs r'"
    using res unfolding many_result_def cs(2) [symmetric] err_def [symmetric] r'_def by (cases err) (auto split: if_splits)
  obtain w4 where w4: "end_logical rt (snd r') l2 st3 = Some (st3\<lparr>st_world := w4\<rparr>)" "fan_inv p ?h (st_world st) (st3\<lparr>st_world := w4\<rparr>)"
    using r(8) by blast
  have "grouped_many rt s ctx a b key lookup rowKey (\<lambda>_. True) tn (map Some items) storeOptions order st = Some (r', st3\<lparr>st_world := w4\<rparr>)"
  proof (cases "gs = []")
    case True
    then have e: "slots = []" "err = None" "order = []" "st3 = st\<lparr>st_world := w2\<rparr>" "used = []"
      using r(3,5) gs(2) ord by (auto simp: err_def slot_errors_def List.map_filter_def schedule_def)
    then have "ordered = []" using sub' by simp
    moreover have "errs = []" using ix True by simp
    ultimately have "r' = ([], None)" unfolding r'_def e(2) by simp
    then show ?thesis using r(1,2) g(1) gs(1) w4(1) True e(3-5) tx by (simp add: grouped_many_def Let_def)
  next
    case False
    have t: "\<not> (opt_tx ?o \<noteq> None \<and> length gs > 1)" using tx gs(2) by auto
    show ?thesis using False r(1-3) g(1) gs(1) n w4(1) ix t unfolding r'_def
      by (cases "errors_join errs")
        (simp_all add: grouped_many_def Let_def del: errors_join_None_iff not_None_eq One_nat_def flip: err_def split: if_splits)
  qed
  moreover have "st_calls (st3\<lparr>st_world := w4\<rparr>) = st_calls st @ map ((!) cs) order" using r(6) cs(3) by simp
  ultimately show ?thesis using cs(1,4) gs(2,3) many w4(2) unfolding o
    by (intro exI [of _ cs] exI [of _ r'] exI [of _ "st3\<lparr>st_world := w4\<rparr>"]) simp
qed

lemma many_result_cases:
  assumes "length names = length cs" and "many_result b names rowKey ordered cs (rows, err)"
  shows "(err = None \<longleftrightarrow> list_all (\<lambda>c. snd (c_result c) = None \<and> list_all (row_ok (set (c_query c)) rowKey) (fst (c_result c))) cs)
    \<and> rows = (if err = None then looked_up names (map (\<lambda>c. fst (c_result c)) cs) rowKey ordered else [])"
proof -
  have e: "errors_join (slot_errors b names (map (read_result []) cs)) = None \<longleftrightarrow> list_all (\<lambda>c. snd (c_result c) = None) cs"
    using slot_errors_Nil [of names "map (read_result []) cs" b] assms(1) by (simp add: list_all_iff)
  show ?thesis
  proof (cases "errors_join (slot_errors b names (map (read_result []) cs))")
    case None
    show ?thesis using assms(2) e unfolding many_result_def None option.case by (auto simp: list_all_iff split: if_splits)
  next
    case (Some x)
    then have "\<not> list_all (\<lambda>c. snd (c_result c) = None) cs" using e by simp
    then show ?thesis using assms(2) unfolding many_result_def Some option.case by (auto simp: list_all_iff)
  qed
qed

text \<open>
  C27: a lookup of many keys makes one call per replica set that some key is routed to, with the distinct
  lookup values of the set in the order of their first occurrence. When every call succeeds and every
  returned row is non-nil with a requested key, the rows come back in the order of the distinct
  pairs of set and value of the argument, each pair with all rows that its own set returned for the
  value, whatever the order of the calls. A failed call, a nil row or a row with a key that was not
  requested makes the result empty with an error. A transaction over several sets is covered by the
  hypothesis on the number of used sets.
\<close>

theorem ListAccountsByIDs_restores_order:
  assumes "env_ok rt s p" and "heap_ok (st_heap st)" and "mesh_wf (ms_mesh s) (st_heap st)"
    and "list_all (routable s \<circ> la_TenantKey) items" and "used = used_sets s (st_heap st) (map la_TenantKey items)"
    and "opt_tx (applyQueryOptions storeOptions) = None \<or> length used \<le> 1" and "schedule (length used) order"
  shows "\<exists>cs rows err st'. ListAccountsByIDs rt s ctx (map Some items) storeOptions order st = Some ((rows, err), st')
    \<and> length cs = length used \<and> st_calls st' = st_calls st @ map ((!) cs) order
    \<and> (\<forall>j < length used.
         c_query (cs ! j) = first_occurrences (map la_ID (filter (\<lambda>i. set_name_of s (st_heap st) (la_TenantKey i) = rs_name_at (st_heap st) (used ! j)) items))
       \<and> c_db (cs ! j) \<in> read_dbs (applyQueryOptions storeOptions) (st_heap st) (used ! j))
    \<and> (err = None \<longleftrightarrow> list_all (\<lambda>c. snd (c_result c) = None \<and> list_all (row_ok (set (c_query c)) acc_ID) (fst (c_result c))) cs)
    \<and> rows = (if err = None
        then concat (map (\<lambda>(name, v). rows_with acc_ID v (the (map_of (zip (map (rs_name_at (st_heap st)) used) (map (\<lambda>c. fst (c_result c)) cs)) name)))
          (first_occurrences (map (\<lambda>i. (set_name_of s (st_heap st) (la_TenantKey i), la_ID i)) items)))
        else [])
    \<and> settles p (st_world st) (st_world st')"
proof -
  obtain cs r st' where c: "ListAccountsByIDs rt s ctx (map Some items) storeOptions order st = Some (r, st')"
    "length cs = length used" "st_calls st' = st_calls st @ map ((!) cs) order"
    "\<forall>j < length used.
       c_query (cs ! j) = first_occurrences (map la_ID (filter (\<lambda>i. set_name_of s (st_heap st) (la_TenantKey i) = rs_name_at (st_heap st) (used ! j)) items))
     \<and> c_db (cs ! j) \<in> read_dbs (applyQueryOptions storeOptions) (st_heap st) (used ! j)"
    "many_result ''ListAccountsByIDs'' (map (rs_name_at (st_heap st)) used) acc_ID
        (first_occurrences (map (\<lambda>i. (set_name_of s (st_heap st) (la_TenantKey i), la_ID i)) items)) cs r"
    "fan_inv p (st_heap st) (st_world st) st'"
    using grouped_many_ok [OF assms, where ctx = ctx and a = "''Accounts''" and b = "''ListAccountsByIDs''" and lookup = la_ID
        and rowKey = acc_ID and tn = "\<lambda>_. ''int64''"] unfolding ListAccountsByIDs_def by blast
  obtain rows err where r: "r = (rows, err)" by (cases r)
  have "length (map (rs_name_at (st_heap st)) used) = length cs" using c(2) by simp
  note m = many_result_cases [OF this c(5) [unfolded r]]
  show ?thesis using c(1-4) c(6) [unfolded fan_inv_def] m unfolding r looked_up_def by blast
qed

theorem ListAccountsByIDs_restores_order_witness:
  "\<exists>cs rows err st'. ListAccountsByIDs (sample_runtime [Some \<lparr>acc_ID = 5, acc_TenantID = 0, acc_DisplayName = ''x''\<rparr>]) pair_store sample_context
      (map (\<lambda>(t, i). Some \<lparr>la_TenantKey = \<lparr>TenantID = t\<rparr>, la_ID = i\<rparr>) [(1, 5), (0, 5), (1, 5)]) [Some ReadFromPrimary] [1, 0] pair_state =
      Some ((rows, err), st')
    \<and> st_calls st' = [cs ! 1, cs ! 0] \<and> c_query (cs ! 0) = [5] \<and> c_query (cs ! 1) = [5] \<and> c_db (cs ! 0) = 1 \<and> c_db (cs ! 1) = 4
    \<and> (err = None \<longleftrightarrow> list_all (\<lambda>c. snd (c_result c) = None \<and> list_all (row_ok (set (c_query c)) acc_ID) (fst (c_result c))) cs)
    \<and> rows = (if err = None then rows_with acc_ID 5 (fst (c_result (cs ! 1))) @ rows_with acc_ID 5 (fst (c_result (cs ! 0))) else [])"
proof -
  let ?rt = "sample_runtime [Some \<lparr>acc_ID = 5, acc_TenantID = 0, acc_DisplayName = ''x''\<rparr>] :: (unit, nat, int64 list, account option list) runtime"
  let ?st = "pair_state :: (unit, nat, int64 list, account option list) store_state"
  let ?i = "map (\<lambda>(t, i). \<lparr>la_TenantKey = \<lparr>TenantID = t\<rparr>, la_ID = i\<rparr> :: listAccountsByIDsT) [(1, 5), (0, 5), (1, 5)]"
  have s: "st_heap ?st = pair_heap" "st_calls ?st = []" by (simp_all add: pair_state_def sample_state_def)
  have k: "shardKey_of pair_store \<lparr>TenantID = t\<rparr> = t" for t by (simp add: shardKey_of_def pair_store_def sample_store_def)
  have r: "list_all (routable pair_store \<circ> la_TenantKey) ?i" using pair_resolve by (simp add: routable_def k)
  have n: "set_name_of pair_store pair_heap \<lparr>TenantID = 0\<rparr> = ''a''" "set_name_of pair_store pair_heap \<lparr>TenantID = 1\<rparr> = ''b''"
    using pair_resolve pair_sets by (simp_all add: set_name_of_def k)
  have u: "[0, 1] = used_sets pair_store pair_heap (map la_TenantKey ?i)"
    using n pair_sets by (simp add: used_sets_def pair_store_def ReplicaSets_def)
  have sch: "schedule (length [0 :: rs_ptr, 1]) [1, 0]" by (auto simp: schedule_def)
  have o: "opt_tx (applyQueryOptions [Some ReadFromPrimary] :: nat queryOptions) = None \<or> length [0 :: rs_ptr, 1] \<le> 1"
    by (simp add: applyQueryOptions_def ReadFromPrimary_def)
  have d: "read_dbs (applyQueryOptions [Some ReadFromPrimary]) pair_heap 0 = {1}" "read_dbs (applyQueryOptions [Some ReadFromPrimary]) pair_heap 1 = {4}"
    by (simp_all add: applyQueryOptions_def ReadFromPrimary_def pair_rs read_dbs_def primary_db_def newStoreNode_def NewNode_def newQueryStore_def newWriteQueries_def New_def Let_def)
  from ListAccountsByIDs_restores_order [where st = ?st and storeOptions = "[Some ReadFromPrimary]" and ctx = sample_context,
      OF pair_env, unfolded s, OF pair_heap_ok pair_wf r u o sch]
  obtain cs rows err st' where w: "ListAccountsByIDs ?rt pair_store sample_context (map Some ?i) [Some ReadFromPrimary] [1, 0] ?st = Some ((rows, err), st')"
    "length cs = length [0 :: rs_ptr, 1]" "st_calls st' = [] @ map ((!) cs) [1, 0]"
    "\<forall>j < length [0 :: rs_ptr, 1].
       c_query (cs ! j) = first_occurrences (map la_ID (filter (\<lambda>i. set_name_of pair_store pair_heap (la_TenantKey i) = rs_name_at pair_heap ([0, 1] ! j)) ?i))
     \<and> c_db (cs ! j) \<in> read_dbs (applyQueryOptions [Some ReadFromPrimary]) pair_heap ([0, 1] ! j)"
    "err = None \<longleftrightarrow> list_all (\<lambda>c. snd (c_result c) = None \<and> list_all (row_ok (set (c_query c)) acc_ID) (fst (c_result c))) cs"
    "rows = (if err = None
        then concat (map (\<lambda>(name, v). rows_with acc_ID v (the (map_of (zip (map (rs_name_at pair_heap) [0, 1]) (map (\<lambda>c. fst (c_result c)) cs)) name)))
          (first_occurrences (map (\<lambda>i. (set_name_of pair_store pair_heap (la_TenantKey i), la_ID i)) ?i)))
        else [])" by blast
  obtain c0 c1 where cs: "cs = [c0, c1]" using w(2) by (cases cs; cases "tl cs") auto
  have "rows = (if err = None then rows_with acc_ID 5 (fst (c_result (cs ! 1))) @ rows_with acc_ID 5 (fst (c_result (cs ! 0))) else [])"
    unfolding w(6) using n pair_sets by (simp add: cs first_occurrences.simps)
  moreover have "c_query (cs ! 0) = [5]" "c_query (cs ! 1) = [5]" "c_db (cs ! 0) = 1" "c_db (cs ! 1) = 4"
    using w(4) n pair_sets d by (auto simp: first_occurrences.simps dest: spec [of _ 0] spec [of _ 1])
  ultimately show ?thesis using w(1,3,5) by (intro exI [of _ cs] exI [of _ rows] exI [of _ err] exI [of _ st']) simp
qed

end
