(* ===== verification/Copy_Batch_System.thy ===== *)
theory Copy_Batch_System
  imports Copy_Batch
begin

text \<open>
  The COPY batcher with its goroutines, as a transition system. A step is one section of code that
  other goroutines cannot interleave with: a submission, a timer callback, a flush, the return of a
  physical COPY, the completion of one part under the lock of its request, and the last section of
  \<^verbatim>\<open>runBatch\<close>. Timers may fire at any time and for any address, which covers a callback that was
  already running when its timer was stopped. Three history variables record the accepted
  submissions, the dispatched batches and the calls of the copy function that have returned.
\<close>

section \<open>The transition system\<close>

text \<open>A goroutine of \<^verbatim>\<open>runBatch\<close>: in the copy function, or with the requests left and those completed.\<close>

datatype ('c, 'a) job =
    Executing "('c, 'a) copyBatch"
  | Finishing "('c, 'a) copyBatch" "go_error option" "nat list" "nat list"

record ('c, 'a, 'o) system =
  s_batcher :: "('c, 'a) copyBatcher"
  s_jobs :: "('c, 'a) job list"
  s_observed :: "('o \<times> 'c \<times> copyBatchObservation) list"
  s_accepted :: "('a list \<times> bool) list"
  s_dispatched :: "('c, 'a) copyBatch list"
  s_returned :: "(('c, 'a) copyBatch \<times> go_error option) list"

definition dispatch ::
  "('c, 'a) copyBatch list \<Rightarrow> ('c, 'a) copyBatcher \<Rightarrow> ('c, 'a, 'o) system \<Rightarrow> ('c, 'a, 'o) system" where
  "dispatch bs b s = s\<lparr>s_batcher := b, s_jobs := s_jobs s @ map Executing bs,
     s_dispatched := s_dispatched s @ bs\<rparr>"

definition initial :: "('c, 'a) copyBatcher \<Rightarrow> ('c, 'a, 'o) system" where
  "initial b = \<lparr>s_batcher = b, s_jobs = [], s_observed = [], s_accepted = [], s_dispatched = [], s_returned = []\<rparr>"

datatype label = SubmitL | TimerL | FlushL "nat set" | ReturnL | FinishL | ReleaseL

inductive batcher_step ::
  "'o option list \<Rightarrow> ('c, 'a, 'o) system \<Rightarrow> label \<Rightarrow> ('c, 'a, 'o) system \<Rightarrow> bool"
  for observers :: "'o option list" where
  step_submit: "submit ctx now err1 err2 rows coalesce (s_batcher s) = Some (Accepted r, bs, b) \<Longrightarrow>
    batcher_step observers s SubmitL ((dispatch bs b s)\<lparr>s_accepted := s_accepted s @ [(rows, coalesce)]\<rparr>)"
| step_settled: "submit ctx now err1 err2 rows coalesce (s_batcher s) = Some (Settled f, bs, b) \<Longrightarrow>
    batcher_step observers s SubmitL (dispatch bs b s)"
| step_timer: "flushExpiredBatch addr (s_batcher s) = (bs, b) \<Longrightarrow> batcher_step observers s TimerL (dispatch bs b s)"
| step_flush: "FlushAsync (s_batcher s) = (bs, rs, b) \<Longrightarrow> batcher_step observers s (FlushL rs) (dispatch bs b s)"
| step_return: "s_jobs s = js @ Executing x # ks \<Longrightarrow> e = copy_error x n err \<Longrightarrow>
    batcher_step observers s ReturnL
      (s\<lparr>s_jobs := js @ Finishing x e (cb_requests x) [] # ks, s_returned := s_returned s @ [(x, e)],
         s_observed := s_observed s @ notify observers x (observation x startedAt finishedAt e)\<rparr>)"
| step_finish: "s_jobs s = js @ Finishing x e (r # rs) fin # ks \<Longrightarrow>
    finishPart e (b_requests (s_batcher s) ! r) = (q, completed) \<Longrightarrow>
    batcher_step observers s FinishL
      (s\<lparr>s_jobs := js @ Finishing x e rs (if completed then fin @ [r] else fin) # ks,
         s_batcher := (s_batcher s)\<lparr>b_requests := (b_requests (s_batcher s))[r := q]\<rparr>\<rparr>)"
| step_release: "s_jobs s = js @ Finishing x e [] fin # ks \<Longrightarrow> release fin (s_batcher s) = (bs, b) \<Longrightarrow>
    batcher_step observers s ReleaseL (dispatch bs b (s\<lparr>s_jobs := js @ ks\<rparr>))"

inductive reachable :: "copyBatchConfig \<Rightarrow> 'o option list \<Rightarrow> ('c, 'a, 'o) system \<Rightarrow> bool"
  for config :: copyBatchConfig and observers :: "'o option list" where
  reachable_initial: "NewCopyBatcher config False = Inr b \<Longrightarrow> reachable config observers (initial b)"
| reachable_step: "reachable config observers s \<Longrightarrow> batcher_step observers s l s' \<Longrightarrow> reachable config observers s'"

section \<open>Invariants\<close>

fun job_batch :: "('c, 'a) job \<Rightarrow> ('c, 'a) copyBatch" where
  "job_batch (Executing x) = x"
| "job_batch (Finishing x e rs fin) = x"

text \<open>The parts a job has still to finish, and the requests it has completed.\<close>

fun job_parts :: "('c, 'a) job \<Rightarrow> nat list" where
  "job_parts (Executing x) = cb_requests x"
| "job_parts (Finishing x e rs fin) = rs"

fun job_completed :: "('c, 'a) job \<Rightarrow> nat list" where
  "job_completed (Executing x) = []"
| "job_completed (Finishing x e rs fin) = fin"

definition executing :: "('c, 'a) job list \<Rightarrow> ('c, 'a) copyBatch list" where
  "executing js = List.map_filter (\<lambda>j. case j of Executing x \<Rightarrow> Some x | Finishing x e rs fin \<Rightarrow> None) js"

definition jobs_parts :: "('c, 'a) job list \<Rightarrow> nat list" where
  "jobs_parts js = concat (map job_parts js)"

definition outstanding :: "('c, 'a, 'o) system \<Rightarrow> nat multiset" where
  "outstanding s = mset (parts_of (waiting (s_batcher s))) + mset (jobs_parts (s_jobs s))"

definition inv_capacity :: "('c, 'a, 'o) system \<Rightarrow> bool" where
  "inv_capacity s \<longleftrightarrow> batcher_ok (s_batcher s) \<and> b_inFlight (s_batcher s) = int (length (s_jobs s)) \<and>
     b_inFlight (s_batcher s) \<le> MaxConcurrentBatches (b_config (s_batcher s)) \<and>
     list_all (batch_ok (MaxRowsPerBatch (b_config (s_batcher s)))) (s_dispatched s)"

definition saturated :: "('c, 'a, 'o) system \<Rightarrow> bool" where
  "saturated s \<longleftrightarrow> (b_queue (s_batcher s) \<noteq> [] \<longrightarrow>
     b_inFlight (s_batcher s) = MaxConcurrentBatches (b_config (s_batcher s)))"

definition inv_rows :: "('c, 'a, 'o) system \<Rightarrow> bool" where
  "inv_rows s \<longleftrightarrow>
     mset (rows_of (s_dispatched s @ waiting (s_batcher s))) = mset (concat (map fst (s_accepted s))) \<and>
     (list_all snd (s_accepted s) \<longrightarrow>
        rows_of (s_dispatched s @ waiting (s_batcher s)) = concat (map fst (s_accepted s)))"

definition inv_dispatched :: "('c, 'a, 'o) system \<Rightarrow> bool" where
  "inv_dispatched s \<longleftrightarrow> mset (s_dispatched s) = mset (executing (s_jobs s)) + mset (map fst (s_returned s)) \<and>
     (\<forall>x e rs fin. Finishing x e rs fin \<in> set (s_jobs s) \<longrightarrow>
        (x, e) \<in> set (s_returned s) \<and> set rs \<subseteq> set (cb_requests x))"

text \<open>The result of a request whose parts are all finished.\<close>

definition request_outcome :: "copyRequest \<Rightarrow> int future" where
  "request_outcome q = (if rq_errs q = [] then Some (rq_rowCount q, None) else Some (0, Some (Joined (rq_errs q))))"

definition request_ok :: "nat \<Rightarrow> 'a list \<Rightarrow> copyRequest \<Rightarrow> bool" where
  "request_ok k rows q \<longleftrightarrow> rq_pendingParts q = int k \<and> rq_rowCount q = int (length rows) \<and>
     rq_result q = (if 0 < k then None else request_outcome q)"

definition inv_requests :: "('c, 'a, 'o) system \<Rightarrow> bool" where
  "inv_requests s \<longleftrightarrow> length (b_requests (s_batcher s)) = length (s_accepted s) \<and>
     (\<forall>r. r \<in># outstanding s \<or> r \<in> set (parts_of (s_dispatched s)) \<longrightarrow> r < length (s_accepted s)) \<and>
     (\<forall>r < length (s_accepted s).
        request_ok (count (outstanding s) r) (fst (s_accepted s ! r)) (b_requests (s_batcher s) ! r))"

definition inv_pending :: "('c, 'a, 'o) system \<Rightarrow> bool" where
  "inv_pending s \<longleftrightarrow>
     b_pending (s_batcher s) = set_mset (outstanding s) \<union> \<Union> (set ` job_completed ` set (s_jobs s)) \<and>
     distinct (concat (map job_completed (s_jobs s))) \<and>
     (\<forall>j \<in> set (s_jobs s). \<forall>r \<in> set (job_completed j). r < length (s_accepted s) \<and> r \<notin># outstanding s)"

definition inv_errors :: "('c, 'a, 'o) system \<Rightarrow> bool" where
  "inv_errors s \<longleftrightarrow>
     (\<forall>x e r. (x, Some e) \<in> set (s_returned s) \<longrightarrow> r \<in> set (cb_requests x) \<longrightarrow>
        e \<in> set (rq_errs (b_requests (s_batcher s) ! r)) \<or>
        (\<exists>y rs fin. Finishing y (Some e) rs fin \<in> set (s_jobs s) \<and> r \<in> set rs)) \<and>
     (\<forall>r < length (s_accepted s). \<forall>e \<in> set (rq_errs (b_requests (s_batcher s) ! r)).
        \<exists>x. (x, Some e) \<in> set (s_returned s) \<and> r \<in> set (cb_requests x))"

text \<open>Rows that know the number of the submission they came with.\<close>

definition tagged :: "('a \<Rightarrow> nat) \<Rightarrow> ('c, 'a, 'o) system \<Rightarrow> bool" where
  "tagged owner s \<longleftrightarrow> (\<forall>r < length (s_accepted s). \<forall>y \<in> set (fst (s_accepted s ! r)). owner y = r)"

definition inv_owned :: "('a \<Rightarrow> nat) \<Rightarrow> ('c, 'a, 'o) system \<Rightarrow> bool" where
  "inv_owned owner s \<longleftrightarrow> (tagged owner s \<longrightarrow> list_all (owned owner) (s_dispatched s @ waiting (s_batcher s)))"

section \<open>The shape of a step\<close>

text \<open>A batcher whose active batch may have moved to the queue.\<close>

definition moved :: "('c, 'a) copyBatcher \<Rightarrow> ('c, 'a) copyBatcher \<Rightarrow> bool" where
  "moved b b1 \<longleftrightarrow> (batcher_ok b \<longrightarrow> batcher_ok b1) \<and> b_config b1 = b_config b \<and> b_inFlight b1 = b_inFlight b \<and>
     b_pending b1 = b_pending b \<and> b_requests b1 = b_requests b \<and> rows_of (waiting b1) = rows_of (waiting b) \<and>
     parts_of (waiting b1) = parts_of (waiting b) \<and>
     (\<forall>owner. list_all (owned owner) (waiting b1) \<longleftrightarrow> list_all (owned owner) (waiting b))"

lemma moved_refl: "moved b b"
  by (simp add: moved_def)

lemma moved_detach:
  assumes "batcher_ok b" and "b_active b = Some x" and "reason \<noteq> NoReason" and "reason \<noteq> CopyBatchFlushReasonUnbatched"
  shows "moved b (enqueueLocked (Some (x\<lparr>cb_timer := False, cb_reason := reason\<rparr>)) (b\<lparr>b_active := None\<rparr>))"
  using detach_ok [OF assms refl] unfolding moved_def by blast

lemma flushExpiredBatch_moved:
  assumes "batcher_ok b" and "flushExpiredBatch addr b = (bs, b')"
  shows "(bs = [] \<and> b' = b) \<or> (\<exists>b1. moved b b1 \<and> scheduled b1 bs b')"
proof (cases "\<exists>x. b_active b = Some x \<and> cb_addr x = addr")
  case True
  then obtain x where x: "b_active b = Some x" "cb_addr x = addr" by blast
  then show ?thesis
    using assms moved_detach [OF assms(1) x(1), of CopyBatchFlushReasonLinger] scheduleLocked_scheduled
    by (auto simp: flushExpiredBatch_def)
next
  case False
  with assms(2) show ?thesis by (auto simp: flushExpiredBatch_def split: option.splits if_splits)
qed

lemma FlushAsync_moved:
  assumes "batcher_ok b" and "FlushAsync b = (bs, rs, b')"
  shows "rs = b_pending b' \<and> b_active b' = None \<and> (\<exists>b1. moved b b1 \<and> scheduled b1 bs b')"
proof (cases "b_active b")
  case None
  then have e: "b\<lparr>b_active := None\<rparr> = b" by (cases b) simp
  have "scheduleLocked (b\<lparr>b_active := None\<rparr>) = (bs, b')" "rs = b_pending b'"
    using assms(2) None by (auto simp: FlushAsync_def detachActiveLocked_def enqueueLocked_def split: prod.splits)
  moreover from this have sc: "scheduled b bs b'" unfolding e using scheduleLocked_scheduled by blast
  moreover from sc have "b_active b' = b_active b" unfolding scheduled_def by (metis copyBatcher.ext_inject copyBatcher.surjective copyBatcher.update_convs(3,4))
  ultimately show ?thesis using None moved_refl by auto
next
  case (Some x)
  let ?b1 = "enqueueLocked (Some (x\<lparr>cb_timer := False, cb_reason := CopyBatchFlushReasonManual\<rparr>)) (b\<lparr>b_active := None\<rparr>)"
  have "scheduleLocked ?b1 = (bs, b')" "rs = b_pending b'"
    using assms(2) Some by (auto simp: FlushAsync_def detachActiveLocked_def split: prod.splits)
  moreover from this have sc: "scheduled ?b1 bs b'" using scheduleLocked_scheduled by blast
  moreover have "b_active ?b1 = None" by (simp add: enqueueLocked_def)
  then have "b_active b' = None" using sc unfolding scheduled_def by (metis copyBatcher.ext_inject copyBatcher.surjective copyBatcher.update_convs(3,4))
  ultimately show ?thesis using moved_detach [OF assms(1) Some, of CopyBatchFlushReasonManual] by blast
qed

lemma dispatch_nothing: "dispatch [] (s_batcher s) s = s"
  by (simp add: dispatch_def)

text \<open>The kinds of steps, with the state between the change of the batcher and its scheduling.\<close>

lemma step_kinds:
  assumes "batcher_step observers s l s'" and ok: "batcher_ok (s_batcher s)"
  obtains (stay) "s' = s" "l \<in> {SubmitL, TimerL}"
  | (take) k rows coalesce b1 bs b where "l = SubmitL" "taken coalesce k rows (s_batcher s) b1" "scheduled b1 bs b"
      "s' = dispatch bs b (s\<lparr>s_batcher := b1, s_accepted := s_accepted s @ [(rows, coalesce)]\<rparr>)"
  | (move) b1 bs b where "l = TimerL \<or> (l = FlushL (b_pending b) \<and> b_active b = None)"
      "moved (s_batcher s) b1" "scheduled b1 bs b" "s' = dispatch bs b (s\<lparr>s_batcher := b1\<rparr>)"
  | (return) js x ks e obs where "l = ReturnL" "s_jobs s = js @ Executing x # ks"
      "s' = s\<lparr>s_jobs := js @ Finishing x e (cb_requests x) [] # ks, s_returned := s_returned s @ [(x, e)],
              s_observed := s_observed s @ obs\<rparr>"
  | (finish) js x e r rs fin ks q completed where "l = FinishL" "s_jobs s = js @ Finishing x e (r # rs) fin # ks"
      "finishPart e (b_requests (s_batcher s) ! r) = (q, completed)"
      "s' = s\<lparr>s_jobs := js @ Finishing x e rs (if completed then fin @ [r] else fin) # ks,
              s_batcher := (s_batcher s)\<lparr>b_requests := (b_requests (s_batcher s))[r := q]\<rparr>\<rparr>"
  | (release) js x e fin ks b1 bs b where "l = ReleaseL" "s_jobs s = js @ Finishing x e [] fin # ks"
      "b1 = (s_batcher s)\<lparr>b_pending := b_pending (s_batcher s) - set fin, b_inFlight := b_inFlight (s_batcher s) - 1\<rparr>"
      "scheduled b1 bs b" "s' = dispatch bs b (s\<lparr>s_batcher := b1, s_jobs := js @ ks\<rparr>)"
  using assms(1)
proof (cases rule: batcher_step.cases)
  case (step_submit ctx now err1 err2 rows coalesce r bs b)
  obtain b1 k where "taken coalesce k rows (s_batcher s) b1" "scheduled b1 bs b"
    by (rule submit_cases [OF ok, of ctx now err1 err2 rows coalesce]) (use step_submit(3) in auto)
  with step_submit show ?thesis by (intro take) (auto simp: dispatch_def)
next
  case (step_settled ctx now err1 err2 rows coalesce f bs b)
  have "bs = [] \<and> b = s_batcher s"
    by (rule submit_cases [OF ok, of ctx now err1 err2 rows coalesce]) (use step_settled(3) in auto)
  with step_settled show ?thesis by (intro stay) (auto simp: dispatch_nothing)
next
  case (step_timer addr bs b)
  from flushExpiredBatch_moved [OF ok step_timer(3)] show ?thesis
  proof
    assume "bs = [] \<and> b = s_batcher s"
    with step_timer show ?thesis by (intro stay) (auto simp: dispatch_nothing)
  next
    assume "\<exists>b1. moved (s_batcher s) b1 \<and> scheduled b1 bs b"
    with step_timer show ?thesis by (auto intro!: move simp: dispatch_def)
  qed
next
  case (step_flush bs rs b)
  from FlushAsync_moved [OF ok step_flush(3)] step_flush show ?thesis
    by (auto intro!: move simp: dispatch_def)
next
  case (step_return js x ks e n err startedAt finishedAt)
  then show ?thesis by (intro return) auto
next
  case (step_finish js x e r rs fin ks q completed)
  then show ?thesis by (intro finish) auto
next
  case (step_release js x e fin ks bs b)
  then show ?thesis using scheduleLocked_scheduled
    by (intro release) (auto simp: release_def dispatch_def)
qed

section \<open>Preservation\<close>

lemma jobs_parts_simps [simp]:
  "jobs_parts [] = []" "jobs_parts (j # js) = job_parts j @ jobs_parts js"
  "jobs_parts (js @ ks) = jobs_parts js @ jobs_parts ks" "jobs_parts (map Executing bs) = parts_of bs"
  by (simp_all add: jobs_parts_def parts_of_def comp_def)

lemma executing_simps [simp]:
  "executing [] = []" "executing (Executing x # js) = x # executing js"
  "executing (Finishing x e rs fin # js) = executing js" "executing (js @ ks) = executing js @ executing ks"
  "executing (map Executing bs) = bs"
proof -
  show app: "executing (js @ ks) = executing js @ executing ks" for js ks
    by (induction js) (simp_all add: executing_def split: job.split)
  show "executing (map Executing bs) = bs" by (induction bs) (simp_all add: executing_def)
qed (simp_all add: executing_def)

lemma scheduled_simps:
  assumes "scheduled b1 bs b"
  shows "b_config b = b_config b1" "b_requests b = b_requests b1" "b_pending b = b_pending b1" "b_active b = b_active b1"
    "b_allocated b = b_allocated b1"
    "b_inFlight b = b_inFlight b1 + int (length bs)" "rows_of bs @ rows_of (waiting b) = rows_of (waiting b1)"
    "parts_of bs @ parts_of (waiting b) = parts_of (waiting b1)"
proof -
  have "b = b1\<lparr>b_queue := b_queue b, b_inFlight := b_inFlight b1 + int (length bs)\<rparr>"
    using assms unfolding scheduled_def by blast
  then show k: "b_config b = b_config b1" "b_requests b = b_requests b1" "b_pending b = b_pending b1"
    "b_active b = b_active b1" "b_allocated b = b_allocated b1" "b_inFlight b = b_inFlight b1 + int (length bs)"
    by (metis copyBatcher.ext_inject copyBatcher.surjective copyBatcher.update_convs(3,4))+
  have "rows_of bs @ rows_of (b_queue b) = rows_of (b_queue b1)" "parts_of bs @ parts_of (b_queue b) = parts_of (b_queue b1)"
    using assms by (simp_all add: scheduled_def)
  then show "rows_of bs @ rows_of (waiting b) = rows_of (waiting b1)" "parts_of bs @ parts_of (waiting b) = parts_of (waiting b1)"
    using k(4) by (simp_all add: waiting_def active_list_def flip: append_assoc)
qed

lemma scheduled_ok:
  assumes "scheduled b1 bs b" and "batcher_ok b1"
  shows "batcher_ok b \<and> list_all (batch_ok (MaxRowsPerBatch (b_config b1))) bs"
  using assms scheduled_simps [OF assms(1)]
  by (auto simp: batcher_ok_def active_ok_def scheduled_def split: option.splits)

lemma scheduled_owned:
  assumes "scheduled b1 bs b" and "list_all (owned owner) (waiting b1)"
  shows "list_all (owned owner) (bs @ waiting b)"
proof -
  have "list_all (owned owner) (b_queue b1)" "list_all (owned owner) (active_list b1)"
    using assms(2) by (simp_all add: waiting_def)
  moreover have "active_list b = active_list b1" using scheduled_simps(4) [OF assms(1)] by (simp add: active_list_def)
  ultimately show ?thesis using assms(1) by (simp add: scheduled_def waiting_def)
qed

lemma outstanding_dispatch:
  assumes "scheduled (s_batcher s) bs b"
  shows "outstanding (dispatch bs b s) = outstanding s"
proof -
  have "mset (parts_of bs) + mset (parts_of (waiting b)) = mset (parts_of (waiting (s_batcher s)))"
    using scheduled_simps(8) [OF assms] by (metis mset_append)
  then show ?thesis by (simp add: outstanding_def dispatch_def ac_simps)
qed

lemma dispatch_keeps [simp]:
  "s_accepted (dispatch bs b s) = s_accepted s" "s_returned (dispatch bs b s) = s_returned s"
  "s_batcher (dispatch bs b s) = b" "s_jobs (dispatch bs b s) = s_jobs s @ map Executing bs"
  "s_dispatched (dispatch bs b s) = s_dispatched s @ bs"
  by (simp_all add: dispatch_def)

text \<open>Scheduling keeps every invariant and leaves the capacity used up or the queue empty.\<close>

lemma dispatch_inv:
  assumes "scheduled (s_batcher s) bs b"
  shows "inv_capacity s \<Longrightarrow> inv_capacity (dispatch bs b s) \<and> saturated (dispatch bs b s)"
    and "inv_rows s \<Longrightarrow> inv_rows (dispatch bs b s)"
    and "inv_dispatched s \<Longrightarrow> inv_dispatched (dispatch bs b s)"
    and "inv_requests s \<Longrightarrow> inv_requests (dispatch bs b s)"
    and "inv_pending s \<Longrightarrow> inv_pending (dispatch bs b s)"
    and "inv_errors s \<Longrightarrow> inv_errors (dispatch bs b s)"
    and "inv_owned owner s \<Longrightarrow> inv_owned owner (dispatch bs b s)"
proof -
  note k = scheduled_simps [OF assms]
  show "inv_capacity (dispatch bs b s) \<and> saturated (dispatch bs b s)" if i: "inv_capacity s"
  proof -
    have "b_inFlight (s_batcher s) \<le> MaxConcurrentBatches (b_config (s_batcher s))" "batcher_ok (s_batcher s)"
      using i by (simp_all add: inv_capacity_def)
    with assms scheduled_ok [OF assms] i show ?thesis
      unfolding inv_capacity_def saturated_def dispatch_keeps k(1) by (simp add: k(6) scheduled_def)
  qed
  show "inv_rows (dispatch bs b s)" if "inv_rows s"
    using that unfolding inv_rows_def dispatch_keeps rows_of_simps append_assoc k(7) [symmetric] by simp
  show "inv_dispatched (dispatch bs b s)" if "inv_dispatched s" using that by (auto simp: inv_dispatched_def)
  show "inv_requests (dispatch bs b s)" if "inv_requests s"
  proof -
    have "r \<in># outstanding s" if "r \<in> set (parts_of bs)" for r
      using that by (simp add: outstanding_def k(8) [symmetric])
    with that show ?thesis by (auto simp: inv_requests_def outstanding_dispatch [OF assms] k)
  qed
  show "inv_pending (dispatch bs b s)" if "inv_pending s"
    using that by (auto simp: inv_pending_def outstanding_dispatch [OF assms] k comp_def)
  show "inv_errors (dispatch bs b s)" if "inv_errors s" using that by (simp add: inv_errors_def k image_iff)
  show "inv_owned owner (dispatch bs b s)" if "inv_owned owner s"
    using that scheduled_owned [OF assms, of owner] by (simp add: inv_owned_def tagged_def)
qed

lemma finishPart_ok:
  assumes "request_ok (Suc k) rows q0" and "finishPart e q0 = (q, completed)"
  shows "request_ok k rows q \<and> (completed \<longleftrightarrow> k = 0) \<and>
    rq_errs q = rq_errs q0 @ (case e of None \<Rightarrow> [] | Some err \<Rightarrow> [err])"
  using assms
  by (auto simp: finishPart_def request_ok_def request_outcome_def errors_join_def Let_def split: option.splits if_splits)

definition sys_inv :: "('a \<Rightarrow> nat) \<Rightarrow> ('c, 'a, 'o) system \<Rightarrow> bool" where
  "sys_inv owner s \<longleftrightarrow> inv_capacity s \<and> inv_rows s \<and> inv_dispatched s \<and> inv_requests s \<and> inv_pending s \<and>
     inv_errors s \<and> inv_owned owner s"

lemmas inv_defs = inv_capacity_def inv_rows_def inv_dispatched_def inv_requests_def inv_pending_def
  inv_errors_def inv_owned_def

lemma inv_dispatch:
  assumes "sys_inv owner s" and "scheduled (s_batcher s) bs b"
  shows "sys_inv owner (dispatch bs b s) \<and> saturated (dispatch bs b s)"
  using assms(1) dispatch_inv [OF assms(2)] unfolding sys_inv_def by blast

lemma inv_returned_known:
  assumes "sys_inv owner s" and "(x, e) \<in> set (s_returned s)" and "r \<in> set (cb_requests x)"
  shows "r < length (s_accepted s)"
proof -
  have m: "mset (s_dispatched s) = mset (executing (s_jobs s)) + mset (map fst (s_returned s))"
    using assms(1) by (simp add: sys_inv_def inv_dispatched_def)
  have "x \<in> set (map fst (s_returned s))" using assms(2) by force
  then have "x \<in> set (s_dispatched s)" using arg_cong [OF m, of set_mset] by simp
  then have "r \<in> set (parts_of (s_dispatched s))" using assms(3) by (auto simp: parts_of_def)
  with assms(1) show ?thesis by (simp add: sys_inv_def inv_requests_def)
qed

lemma inv_take:
  assumes i: "sys_inv owner s" and t: "taken coalesce k rows (s_batcher s) b1"
  shows "sys_inv owner (s\<lparr>s_batcher := b1, s_accepted := s_accepted s @ [(rows, coalesce)]\<rparr>)" (is "sys_inv owner ?s")
proof -
  let ?n = "length (s_accepted s)"
  have n: "length (b_requests (s_batcher s)) = ?n" using i by (simp add: sys_inv_def inv_requests_def)
  have out: "outstanding ?s = outstanding s + replicate_mset k ?n"
    using t n by (simp add: outstanding_def taken_def)
  have req: "b_requests b1 = b_requests (s_batcher s) @ [(newCopyRequest (int (length rows)))\<lparr>rq_pendingParts := int k\<rparr>]"
    and k: "0 < k" using t by (simp_all add: taken_def)
  have fresh: "?n \<notin># outstanding s" using i by (auto simp: sys_inv_def inv_requests_def)
  have "inv_capacity ?s" using i t by (simp add: sys_inv_def inv_capacity_def taken_def)
  moreover have "inv_rows ?s" using i t by (auto simp: sys_inv_def inv_rows_def taken_def)
  moreover have "inv_dispatched ?s" using i by (auto simp: sys_inv_def inv_dispatched_def)
  moreover have "inv_requests ?s"
  proof -
    have "request_ok (count (outstanding ?s) r) (fst (s_accepted ?s ! r)) (b_requests b1 ! r)" if "r < Suc ?n" for r
    proof (cases "r = ?n")
      case True
      with fresh show ?thesis unfolding out
        using req k n by (simp add: nth_append request_ok_def newCopyRequest_def newFuture_def not_in_iff)
    next
      case False
      with that have "r < ?n" by simp
      with i n show ?thesis unfolding out by (simp add: sys_inv_def inv_requests_def req nth_append)
    qed
    moreover have "r < Suc ?n" if "r \<in># outstanding ?s \<or> r \<in> set (parts_of (s_dispatched s))" for r
      using that i unfolding out by (fastforce simp: sys_inv_def inv_requests_def split: if_splits)
    ultimately show ?thesis using n by (simp add: inv_requests_def req)
  qed
  moreover have "inv_pending ?s"
    using i t n k unfolding sys_inv_def inv_pending_def out by (fastforce simp: taken_def)
  moreover have "inv_errors ?s"
  proof -
    have "r < length (b_requests (s_batcher s))" if "(x, Some e) \<in> set (s_returned s)" "r \<in> set (cb_requests x)" for x e r
      using inv_returned_known [OF i that] n by simp
    with i n show ?thesis unfolding sys_inv_def inv_errors_def
      by (auto simp: req nth_append less_Suc_eq newCopyRequest_def)
  qed
  moreover have "inv_owned owner ?s"
  proof -
    have "tagged owner s \<and> (\<forall>y \<in> set rows. owner y = length (b_requests (s_batcher s)))" if "tagged owner ?s"
      using that n by (auto simp: tagged_def nth_append less_Suc_eq split: if_splits)
    with i t show ?thesis unfolding sys_inv_def inv_owned_def by (auto simp: taken_def)
  qed
  ultimately show ?thesis by (simp add: sys_inv_def)
qed

lemma inv_move:
  assumes "sys_inv owner s" and "moved (s_batcher s) b1"
  shows "sys_inv owner (s\<lparr>s_batcher := b1\<rparr>)"
proof -
  have "outstanding (s\<lparr>s_batcher := b1\<rparr>) = outstanding s" using assms(2) by (simp add: outstanding_def moved_def)
  with assms show ?thesis unfolding sys_inv_def inv_defs moved_def by (simp add: tagged_def)
qed

lemma inv_errors_jobs:
  assumes i: "inv_errors s" and "s_accepted s' = s_accepted s" and "b_requests (s_batcher s') = b_requests (s_batcher s)"
    and "set (s_returned s) \<subseteq> set (s_returned s')"
    and jobs: "\<And>y e rs fin. Finishing y e rs fin \<in> set (s_jobs s) \<Longrightarrow> rs \<noteq> [] \<Longrightarrow> Finishing y e rs fin \<in> set (s_jobs s')"
    and ret: "\<And>y e. (y, e) \<in> set (s_returned s') \<Longrightarrow>
      (y, e) \<in> set (s_returned s) \<or> Finishing y e (cb_requests y) [] \<in> set (s_jobs s')"
  shows "inv_errors s'"
proof -
  have "e \<in> set (rq_errs (b_requests (s_batcher s) ! r)) \<or> (\<exists>y rs fin. Finishing y (Some e) rs fin \<in> set (s_jobs s') \<and> r \<in> set rs)"
    if x: "(x, Some e) \<in> set (s_returned s')" and r: "r \<in> set (cb_requests x)" for x e r
  proof (cases "(x, Some e) \<in> set (s_returned s)")
    case True
    with i r have "e \<in> set (rq_errs (b_requests (s_batcher s) ! r)) \<or> (\<exists>y rs fin. Finishing y (Some e) rs fin \<in> set (s_jobs s) \<and> r \<in> set rs)"
      unfolding inv_errors_def by blast
    then show ?thesis using jobs by (metis empty_iff empty_set)
  next
    case False
    with ret [OF x] r show ?thesis by blast
  qed
  moreover have "\<exists>x. (x, Some e) \<in> set (s_returned s') \<and> r \<in> set (cb_requests x)"
    if "r < length (s_accepted s)" "e \<in> set (rq_errs (b_requests (s_batcher s) ! r))" for r e
    using i assms(4) that unfolding inv_errors_def by blast
  ultimately show ?thesis unfolding inv_errors_def assms(2,3) by blast
qed

lemma inv_return:
  assumes i: "sys_inv owner s" and j: "s_jobs s = js @ Executing x # ks"
  shows "sys_inv owner (s\<lparr>s_jobs := js @ Finishing x e (cb_requests x) [] # ks, s_returned := s_returned s @ [(x, e)],
    s_observed := obs\<rparr>)" (is "sys_inv owner ?s")
proof -
  have out: "outstanding ?s = outstanding s" by (simp add: outstanding_def j)
  have "inv_capacity ?s" "inv_rows ?s" "inv_owned owner ?s"
    using i by (simp_all add: sys_inv_def inv_defs j tagged_def)
  moreover have "inv_dispatched ?s" using i by (auto simp: sys_inv_def inv_dispatched_def j)
  moreover have "inv_requests ?s" using i by (simp add: sys_inv_def inv_requests_def out)
  moreover have "inv_pending ?s" using i by (simp add: sys_inv_def inv_pending_def out j ball_Un)
  moreover have "inv_errors ?s" by (rule inv_errors_jobs [of s]) (use i in \<open>auto simp: sys_inv_def j\<close>)
  ultimately show ?thesis by (simp add: sys_inv_def)
qed

lemma inv_finish:
  assumes i: "sys_inv owner s" and j: "s_jobs s = js @ Finishing x e (r # rs) fin # ks"
    and f: "finishPart e (b_requests (s_batcher s) ! r) = (q, completed)"
  shows "sys_inv owner (s\<lparr>s_jobs := js @ Finishing x e rs (if completed then fin @ [r] else fin) # ks,
    s_batcher := (s_batcher s)\<lparr>b_requests := (b_requests (s_batcher s))[r := q]\<rparr>\<rparr>)" (is "sys_inv owner ?s")
proof -
  let ?fin = "if completed then fin @ [r] else fin" and ?qs = "b_requests (s_batcher s)"
  have out: "outstanding s = add_mset r (outstanding ?s)" by (simp add: outstanding_def j)
  then have r: "r < length (s_accepted s)" "length ?qs = length (s_accepted s)"
    using i by (auto simp: sys_inv_def inv_requests_def)
  have "request_ok (Suc (count (outstanding ?s) r)) (fst (s_accepted s ! r)) (?qs ! r)"
    using i r(1) unfolding sys_inv_def inv_requests_def out by auto
  note q = finishPart_ok [OF this f]
  have ret: "(x, e) \<in> set (s_returned s)" "r \<in> set (cb_requests x)"
    using i j unfolding sys_inv_def inv_dispatched_def by (metis in_set_conv_decomp list.set_intros(1) subsetD)+
  have "inv_capacity ?s" "inv_rows ?s" "inv_owned owner ?s"
    using i by (simp_all add: sys_inv_def inv_defs j tagged_def)
  moreover have "inv_dispatched ?s" using i by (auto simp: sys_inv_def inv_dispatched_def j)
  moreover have "inv_requests ?s"
  proof -
    have "request_ok (count (outstanding ?s) t) (fst (s_accepted s ! t)) (?qs[r := q] ! t)" if "t < length (s_accepted s)" for t
      using q i r that by (cases "t = r") (auto simp: sys_inv_def inv_requests_def out)
    with i r(2) show ?thesis by (auto simp: sys_inv_def inv_requests_def out)
  qed
  moreover have "inv_pending ?s"
  proof -
    have c: "completed \<longleftrightarrow> r \<notin># outstanding ?s" using q by (simp add: not_in_iff)
    have old: "r \<notin> set (concat (map job_completed (s_jobs s)))"
      using i out unfolding sys_inv_def inv_pending_def by auto
    show ?thesis using i r(1) c old unfolding sys_inv_def inv_pending_def out j by (auto split: if_splits)
  qed
  moreover have "inv_errors ?s"
  proof -
    have errs: "set (rq_errs (?qs[r := q] ! t)) = set (rq_errs (?qs ! t)) \<union> (if t = r then set_option e else {})" for t
      using q r by (cases "t = r") (auto split: option.splits)
    have "err \<in> set (rq_errs (?qs[r := q] ! t)) \<or> (\<exists>y rs' fin'. Finishing y (Some err) rs' fin' \<in> set (s_jobs ?s) \<and> t \<in> set rs')"
      if "(y, Some err) \<in> set (s_returned s)" "t \<in> set (cb_requests y)" for y err t
    proof -
      from i that have "err \<in> set (rq_errs (?qs ! t)) \<or> (\<exists>y rs' fin'. Finishing y (Some err) rs' fin' \<in> set (s_jobs s) \<and> t \<in> set rs')"
        unfolding sys_inv_def inv_errors_def by blast
      then consider "err \<in> set (rq_errs (?qs ! t))"
        | z rs' fin' where "Finishing z (Some err) rs' fin' \<in> set (s_jobs s)" "t \<in> set rs'" by blast
      then show ?thesis
      proof cases
        case 2
        show ?thesis
        proof (cases "Finishing z (Some err) rs' fin' = Finishing x e (r # rs) fin")
          case True
          with 2(2) have "t = r \<or> t \<in> set rs" "e = Some err" by auto
          then show ?thesis unfolding errs by fastforce
        next
          case False
          with 2 j have "Finishing z (Some err) rs' fin' \<in> set (s_jobs ?s)" by auto
          with 2(2) show ?thesis by blast
        qed
      qed (simp add: errs)
    qed
    moreover have "\<exists>y. (y, Some err) \<in> set (s_returned s) \<and> t \<in> set (cb_requests y)"
      if "t < length (s_accepted s)" "err \<in> set (rq_errs (?qs[r := q] ! t))" for t err
      using i that ret unfolding errs sys_inv_def inv_errors_def by (auto split: if_splits)
    ultimately show ?thesis by (simp add: inv_errors_def)
  qed
  ultimately show ?thesis by (simp add: sys_inv_def)
qed

lemma inv_release:
  assumes i: "sys_inv owner s" and j: "s_jobs s = js @ Finishing x e [] fin # ks"
  shows "sys_inv owner (s\<lparr>s_batcher := (s_batcher s)\<lparr>b_pending := b_pending (s_batcher s) - set fin,
    b_inFlight := b_inFlight (s_batcher s) - 1\<rparr>, s_jobs := js @ ks\<rparr>)" (is "sys_inv owner ?s")
proof -
  have out: "outstanding ?s = outstanding s" by (simp add: outstanding_def j)
  have "inv_capacity ?s" "inv_rows ?s" "inv_owned owner ?s"
    using i by (simp_all add: sys_inv_def inv_defs j tagged_def)
  moreover have "inv_dispatched ?s" using i by (auto simp: sys_inv_def inv_dispatched_def j)
  moreover have "inv_requests ?s" using i by (simp add: sys_inv_def inv_requests_def out)
  moreover have "inv_pending ?s"
    using i unfolding sys_inv_def inv_pending_def out j by auto
  moreover have "inv_errors ?s" by (rule inv_errors_jobs [of s]) (use i in \<open>auto simp: sys_inv_def j\<close>)
  ultimately show ?thesis by (simp add: sys_inv_def)
qed

lemma inv_initial:
  assumes "NewCopyBatcher config False = Inr b"
  shows "sys_inv owner (initial b) \<and> saturated (initial b)"
  using NewCopyBatcher_ok [OF assms]
  by (simp add: sys_inv_def inv_defs initial_def outstanding_def waiting_def active_list_def tagged_def saturated_def
      batcher_ok_def config_ok_def)

lemma step_inv:
  assumes "batcher_step observers s l s'" and i: "sys_inv owner s" and sat: "saturated s"
  shows "sys_inv owner s' \<and> saturated s'"
proof -
  have "batcher_ok (s_batcher s)" using i by (simp add: sys_inv_def inv_capacity_def)
  with assms(1) show ?thesis
  proof (cases rule: step_kinds)
    case stay
    with i sat show ?thesis by simp
  next
    case (take k rows coalesce b1 bs b)
    with inv_dispatch [OF inv_take [OF i take(2)], of bs b] show ?thesis by simp
  next
    case (move b1 bs b)
    with inv_dispatch [OF inv_move [OF i move(2)], of bs b] show ?thesis by simp
  next
    case (return js x ks e obs)
    with inv_return [OF i return(2), where e = e and obs = "s_observed s @ obs"] sat show ?thesis by (simp add: saturated_def)
  next
    case (finish js x e r rs fin ks q completed)
    with inv_finish [OF i finish(2,3)] sat show ?thesis by (simp add: saturated_def)
  next
    case (release js x e fin ks b1 bs b)
    with inv_dispatch [OF inv_release [OF i release(2)], of bs b] show ?thesis by simp
  qed
qed

lemma reachable_inv:
  assumes "reachable config observers s"
  shows "sys_inv owner s \<and> saturated s"
  using assms by induction (use inv_initial step_inv in blast)+

lemma reachable_config:
  assumes "reachable config observers s"
  shows "b_config (s_batcher s) = normalized config"
  using assms
proof induction
  case (reachable_initial b)
  then show ?case by (auto simp: initial_def NewCopyBatcher_def split: option.splits)
next
  case (reachable_step s l s')
  have "batcher_ok (s_batcher s)"
    using reachable_inv [OF reachable_step(1), of undefined] by (simp add: sys_inv_def inv_capacity_def)
  with reachable_step(2) show ?case
    by (cases rule: step_kinds)
      (use reachable_step(3) in \<open>auto simp: taken_def moved_def dest!: scheduled_simps(1)\<close>)
qed

section \<open>Draining\<close>

text \<open>The work left: what queued and running batches still have to do.\<close>

definition queue_weight :: "('c, 'a) copyBatch list \<Rightarrow> nat" where
  "queue_weight q = 3 * length q + length (parts_of q)"

fun job_weight :: "('c, 'a) job \<Rightarrow> nat" where
  "job_weight (Executing x) = 2 + length (cb_requests x)"
| "job_weight (Finishing x e rs fin) = 1 + length rs"

definition weight :: "('c, 'a, 'o) system \<Rightarrow> nat" where
  "weight s = queue_weight (b_queue (s_batcher s)) + sum_list (map job_weight (s_jobs s))"

text \<open>A run of a number of steps of the goroutines that execute batches.\<close>

inductive job_run :: "'o option list \<Rightarrow> ('c, 'a, 'o) system \<Rightarrow> nat \<Rightarrow> ('c, 'a, 'o) system \<Rightarrow> bool"
  for observers :: "'o option list" where
  job_run_refl: "job_run observers s 0 s"
| job_run_step: "job_run observers s n s1 \<Longrightarrow> batcher_step observers s1 l s2 \<Longrightarrow> l \<in> {ReturnL, FinishL, ReleaseL} \<Longrightarrow>
    job_run observers s (Suc n) s2"

lemma sum_job_weight_Executing: "sum_list (map job_weight (map Executing bs)) = 2 * length bs + length (parts_of bs)"
  by (induction bs) simp_all

lemma weight_dispatch:
  assumes "scheduled (s_batcher s) bs b"
  shows "weight (dispatch bs b s) \<le> weight s"
proof -
  have "parts_of bs @ parts_of (b_queue b) = parts_of (b_queue (s_batcher s))"
    and l: "length bs + length (b_queue b) \<le> length (b_queue (s_batcher s))"
    using assms by (simp_all add: scheduled_def)
  from arg_cong [OF this(1), of length] l show ?thesis
    using sum_job_weight_Executing [of bs] by (simp add: weight_def queue_weight_def)
qed

lemma job_step_weight:
  assumes "batcher_step observers s l s'" and "batcher_ok (s_batcher s)" and "l \<in> {ReturnL, FinishL, ReleaseL}"
  shows "weight s' < weight s \<and> b_active (s_batcher s') = b_active (s_batcher s)"
  using assms(1,2)
proof (cases rule: step_kinds)
  case (release js x e fin ks b1 bs b)
  let ?s1 = "s\<lparr>s_batcher := b1, s_jobs := js @ ks\<rparr>"
  have "weight ?s1 < weight s" using release(2,3) by (simp add: weight_def)
  then show ?thesis
    using weight_dispatch [of ?s1 bs b] release scheduled_simps(4) [OF release(4)] by simp
qed (use assms(3) in \<open>auto simp: weight_def\<close>)

text \<open>A job always has a next step, once its COPY function returns.\<close>

lemma job_progress:
  assumes "s_jobs s \<noteq> []"
  shows "\<exists>l s'. l \<in> {ReturnL, FinishL, ReleaseL} \<and> batcher_step observers s l s'"
proof -
  obtain j js where js: "s_jobs s = [] @ j # js" using assms by (cases "s_jobs s") auto
  show ?thesis
  proof (cases j)
    case (Executing x)
    from step_return [OF js [unfolded Executing] refl] show ?thesis by blast
  next
    case (Finishing x e rs fin)
    show ?thesis
    proof (cases rs)
      case Nil
      obtain bs b where "release fin (s_batcher s) = (bs, b)" by fastforce
      from step_release [OF js [unfolded Finishing Nil] this] show ?thesis by blast
    next
      case (Cons r rs')
      obtain q completed where "finishPart e (b_requests (s_batcher s) ! r) = (q, completed)" by fastforce
      from step_finish [OF js [unfolded Finishing Cons] this] show ?thesis by blast
    qed
  qed
qed

lemma job_run_inv:
  assumes "job_run observers s n s'" and "reachable config observers s"
  shows "reachable config observers s' \<and> weight s' + n \<le> weight s \<and> b_active (s_batcher s') = b_active (s_batcher s)"
  using assms
proof induction
  case (job_run_step s n s1 l s2)
  then have IH: "reachable config observers s1" "weight s1 + n \<le> weight s" "b_active (s_batcher s1) = b_active (s_batcher s)"
    by auto
  have "batcher_ok (s_batcher s1)"
    using reachable_inv [OF IH(1), of undefined] by (simp add: sys_inv_def inv_capacity_def)
  from job_step_weight [OF job_run_step(2) this job_run_step(3)] IH show ?case
    using reachable_step [OF IH(1) job_run_step(2)] by simp
qed simp

text \<open>The result of request \<open>r\<close>.\<close>

definition result_of :: "('c, 'a, 'o) system \<Rightarrow> nat \<Rightarrow> int future" where
  "result_of s r = rq_result (b_requests (s_batcher s) ! r)"

lemma result_of_iff:
  assumes "sys_inv owner s" and "r < length (s_accepted s)"
  shows "result_of s r = None \<longleftrightarrow> r \<in># outstanding s"
    and "result_of s r = Some (v, None) \<Longrightarrow> v = int (length (fst (s_accepted s ! r))) \<and> rq_errs (b_requests (s_batcher s) ! r) = []"
    and "result_of s r = Some (v, Some e) \<Longrightarrow>
      v = 0 \<and> rq_errs (b_requests (s_batcher s) ! r) \<noteq> [] \<and> e = Joined (rq_errs (b_requests (s_batcher s) ! r))"
proof -
  have "request_ok (count (outstanding s) r) (fst (s_accepted s ! r)) (b_requests (s_batcher s) ! r)"
    using assms by (simp add: sys_inv_def inv_requests_def)
  then show "result_of s r = None \<longleftrightarrow> r \<in># outstanding s"
    and "result_of s r = Some (v, None) \<Longrightarrow> v = int (length (fst (s_accepted s ! r))) \<and> rq_errs (b_requests (s_batcher s) ! r) = []"
    and "result_of s r = Some (v, Some e) \<Longrightarrow>
      v = 0 \<and> rq_errs (b_requests (s_batcher s) ! r) \<noteq> [] \<and> e = Joined (rq_errs (b_requests (s_batcher s) ! r))"
    by (auto simp: result_of_def request_ok_def request_outcome_def split: if_splits)
qed

text \<open>A state in which nothing runs and no batch is open has answered every request.\<close>

lemma drained:
  assumes "reachable config observers s" and "s_jobs s = []" and "b_active (s_batcher s) = None"
  shows "b_queue (s_batcher s) = [] \<and> b_pending (s_batcher s) = {} \<and> (\<forall>r < length (s_accepted s). result_of s r \<noteq> None)"
proof -
  have i: "sys_inv undefined s" and sat: "saturated s" using reachable_inv [OF assms(1)] by auto
  then have "b_inFlight (s_batcher s) = 0" "0 < MaxConcurrentBatches (b_config (s_batcher s))"
    using assms(2) by (simp_all add: sys_inv_def inv_capacity_def batcher_ok_def config_ok_def)
  with sat have q: "b_queue (s_batcher s) = []" by (auto simp: saturated_def)
  then have out: "outstanding s = {#}" using assms(2,3) by (simp add: outstanding_def waiting_def active_list_def)
  then have "b_pending (s_batcher s) = {}" using i assms(2) by (simp add: sys_inv_def inv_pending_def)
  with q out result_of_iff(1) [OF i] show ?thesis by simp
qed

text \<open>The rows of the COPY calls that returned without an error and with the expected count.\<close>

definition copied_rows :: "('c, 'a, 'o) system \<Rightarrow> 'a list" where
  "copied_rows s = rows_of (map fst (filter (\<lambda>(x, e). e = None) (s_returned s)))"

lemma executing_parts: "set (parts_of (executing js)) \<subseteq> set (jobs_parts js)"
proof (induction js)
  case (Cons j js)
  then show ?case by (cases j) auto
qed simp

lemma rows_of_mset: "mset xs = mset ys \<Longrightarrow> mset (rows_of xs) = mset (rows_of ys)"
  unfolding rows_of_def by (simp add: mset_concat) (metis mset_map sum_mset_sum_list)

lemma owned_rows_none:
  assumes "list_all (owned owner) xs" and "r \<notin> set (parts_of xs)"
  shows "filter_mset (\<lambda>y. owner y = r) (mset (rows_of xs)) = {#}"
proof (rule filter_mset_none)
  fix y assume "y \<in># mset (rows_of xs)"
  then obtain x where "x \<in> set xs" "y \<in> set (cb_rows x)" by (auto simp: rows_of_def)
  with assms(1) have "owner y \<in> set (parts_of xs)" by (auto simp: list_all_iff owned_def parts_of_def)
  with assms(2) show "owner y \<noteq> r" by auto
qed

lemma returned_owner:
  assumes "\<And>x e. (x, e) \<in> set ret \<Longrightarrow> owned owner x"
    and "\<And>x e. (x, Some e) \<in> set ret \<Longrightarrow> r \<notin> set (cb_requests x)"
  shows "filter_mset (\<lambda>y. owner y = r) (mset (rows_of (map fst (filter (\<lambda>(x, e). e = None) ret)))) =
    filter_mset (\<lambda>y. owner y = r) (mset (rows_of (map fst ret)))"
  using assms
proof (induction ret)
  case (Cons p ret)
  obtain x e where p: "p = (x, e)" by fastforce
  have IH: "filter_mset (\<lambda>y. owner y = r) (mset (rows_of (map fst (filter (\<lambda>(x, e). e = None) ret)))) =
      filter_mset (\<lambda>y. owner y = r) (mset (rows_of (map fst ret)))"
    using Cons.IH Cons.prems by (meson list.set_intros(2))
  have "filter_mset (\<lambda>y. owner y = r) (mset (cb_rows x)) = {#}" if "e \<noteq> None"
  proof -
    from that Cons.prems(2) p have "r \<notin> set (cb_requests x)" by fastforce
    moreover have "owned owner x" using Cons.prems(1) [of x e] p by simp
    ultimately show ?thesis by (intro filter_mset_none) (auto simp: owned_def)
  qed
  with IH p show ?case by (cases e) simp_all
qed simp

lemma tagged_rows:
  assumes "\<forall>r < length acc. \<forall>y \<in> set (fst (acc ! r)). owner y = r" and "r < length acc"
  shows "filter_mset (\<lambda>y. owner y = r) (mset (concat (map fst acc))) = mset (fst (acc ! r))"
  using assms
proof (induction acc rule: rev_induct)
  case (snoc a acc)
  let ?n = "length acc"
  have a: "\<forall>y \<in> set (fst a). owner y = ?n" using snoc.prems(1) by (metis length_append_singleton lessI nth_append_length)
  have acc: "\<forall>r < ?n. \<forall>y \<in> set (fst (acc ! r)). owner y = r"
    using snoc.prems(1) by (metis length_append_singleton less_SucI nth_append)
  show ?case
  proof (cases "r = ?n")
    case True
    have "owner y \<noteq> ?n" if y: "y \<in> set (concat (map fst acc))" for y
    proof -
      from y obtain t where "t < ?n" "y \<in> set (fst (acc ! t))" by (auto simp: in_set_conv_nth [of _ acc])
      with acc have "owner y = t" by blast
      with \<open>t < ?n\<close> show ?thesis by simp
    qed
    then have "filter_mset (\<lambda>y. owner y = r) (mset (concat (map fst acc))) = {#}"
      using True by (intro filter_mset_none) auto
    moreover have "filter_mset (\<lambda>y. owner y = r) (mset (fst a)) = mset (fst a)"
      using a True by (intro filter_mset_all) simp
    ultimately show ?thesis using True by simp
  next
    case False
    then have "filter_mset (\<lambda>y. owner y = r) (mset (fst a)) = {#}" using a by (intro filter_mset_none) auto
    with snoc.IH [OF acc] snoc.prems(2) False show ?thesis by (simp add: nth_append)
  qed
qed simp

lemma flush_future_done:
  "flush_future qs order \<noteq> None \<longleftrightarrow> (\<forall>r \<in> set order. rq_result (qs ! r) \<noteq> None)"
  "flush_future qs order = Some ((), None) \<longleftrightarrow> (\<forall>r \<in> set order. \<exists>v. rq_result (qs ! r) = Some (v, None))"
proof -
  show "flush_future qs order \<noteq> None \<longleftrightarrow> (\<forall>r \<in> set order. rq_result (qs ! r) \<noteq> None)"
    by (simp add: flush_future_def)
  have "List.map_filter (\<lambda>r. Option.bind (rq_result (qs ! r)) snd) rs = [] \<longleftrightarrow>
      (\<forall>r \<in> set rs. \<forall>v e. rq_result (qs ! r) \<noteq> Some (v, Some e))" for rs
  proof (induction rs)
    case (Cons r rs)
    then show ?case by (cases "rq_result (qs ! r)") (auto simp: map_filter_simps split: option.split)
  qed (simp add: map_filter_simps)
  then show "flush_future qs order = Some ((), None) \<longleftrightarrow> (\<forall>r \<in> set order. \<exists>v. rq_result (qs ! r) = Some (v, None))"
    unfolding flush_future_def by (fastforce split: if_splits)
qed

lemma returned_error_reaches:
  assumes "sys_inv owner s" and "(x, Some err) \<in> set (s_returned s)" and "r \<in> set (cb_requests x)" and "r \<notin># outstanding s"
  shows "err \<in> set (rq_errs (b_requests (s_batcher s) ! r))"
proof -
  have "err \<in> set (rq_errs (b_requests (s_batcher s) ! r)) \<or>
      (\<exists>y rs fin. Finishing y (Some err) rs fin \<in> set (s_jobs s) \<and> r \<in> set rs)"
    using assms(1-3) unfolding sys_inv_def inv_errors_def by blast
  moreover have "r \<in> set (jobs_parts (s_jobs s))" if "Finishing y (Some err) rs fin \<in> set (s_jobs s)" "r \<in> set rs" for y rs fin
    unfolding jobs_parts_def set_concat set_map using that by (metis UN_iff image_eqI job_parts.simps(2))
  ultimately show ?thesis using assms(4) by (auto simp: outstanding_def)
qed

section \<open>A sample run\<close>

text \<open>One submission of a row, whose COPY has returned and whose part is finished.\<close>

definition sample_limits :: copyBatchConfig where
  "sample_limits = \<lparr>MaxRowsPerBatch = 2, Linger = 5, MaxConcurrentBatches = 1\<rparr>"

definition sample_batch :: "(unit, nat) copyBatch" where
  "sample_batch = \<lparr>cb_addr = 0, cb_ctx = (), cb_rows = [0], cb_requests = [0], cb_timer = False,
     cb_queuedAt = 3, cb_reason = CopyBatchFlushReasonUnbatched\<rparr>"

definition sample_batcher :: "copyRequest list \<Rightarrow> (unit, nat) copyBatcher" where
  "sample_batcher qs = \<lparr>b_config = sample_limits, b_active = None, b_queue = [], b_inFlight = 1,
     b_pending = {0}, b_requests = qs, b_allocated = 1\<rparr>"

definition sample_system ::
  "copyRequest list \<Rightarrow> (unit, nat) job \<Rightarrow> ((unit, nat) copyBatch \<times> go_error option) list \<Rightarrow> (unit, nat, unit) system" where
  "sample_system qs j ret = \<lparr>s_batcher = sample_batcher qs, s_jobs = [j], s_observed = [],
     s_accepted = [([0], False)], s_dispatched = [sample_batch], s_returned = ret\<rparr>"

definition sample_request :: "int future \<Rightarrow> int \<Rightarrow> go_error list \<Rightarrow> copyRequest" where
  "sample_request result n errs = \<lparr>rq_result = result, rq_rowCount = 1, rq_pendingParts = n, rq_errs = errs\<rparr>"

definition sample_done :: "(unit, nat, unit) system" where
  "sample_done = sample_system [sample_request (Some (1, None)) 0 []] (Finishing sample_batch None [] [0]) [(sample_batch, None)]"

definition sample_failed :: "(unit, nat, unit) system" where
  "sample_failed = sample_system [sample_request (Some (0, Some (Joined [Foreign 7]))) 0 [Foreign 7]]
     (Finishing sample_batch (Some (Foreign 7)) [] [0]) [(sample_batch, Some (Foreign 7))]"

lemma sample_submitted:
  "reachable sample_limits [] (sample_system [sample_request None 1 []] (Executing sample_batch) [])"
proof -
  let ?b0 = "\<lparr>b_config = sample_limits, b_active = None, b_queue = [], b_inFlight = 0, b_pending = {},
      b_requests = [], b_allocated = 0\<rparr> :: (unit, nat) copyBatcher"
  have "NewCopyBatcher sample_limits False = Inr ?b0"
    by (simp add: NewCopyBatcher_def Validate_def normalized_def sample_limits_def)
  then have r: "reachable sample_limits [] (initial ?b0 :: (unit, nat, unit) system)" by (rule reachable_initial)
  have "submit () 3 None None [0] False (s_batcher (initial ?b0 :: (unit, nat, unit) system)) =
      Some (Accepted 0, [sample_batch], sample_batcher [sample_request None 1 []])"
    by (simp add: submit_def enqueueUnbatchedLocked_def enqueueLocked_def update_request_def addPart_def newCopyRequest_def
        newFuture_def scheduleLocked_def dequeueLocked_def sample_limits_def sample_batch_def sample_batcher_def
        sample_request_def Let_def initial_def)
  note step = step_submit [OF this, of "[]"]
  from reachable_step [OF r step] show ?thesis by (simp add: dispatch_def initial_def sample_system_def)
qed

lemma sample_returned:
  "reachable sample_limits [] (sample_system [sample_request None 1 []] (Finishing sample_batch err [0] []) [(sample_batch, err)])"
proof -
  let ?s1 = "sample_system [sample_request None 1 []] (Executing sample_batch) []"
  have "copy_error sample_batch 1 err = err" by (simp add: copy_error_def sample_batch_def)
  then have "batcher_step [] ?s1 ReturnL
      (sample_system [sample_request None 1 []] (Finishing sample_batch err [0] []) [(sample_batch, err)])"
    using step_return [of ?s1 "[]" sample_batch "[]" err 1 err "[]" 4 9]
    by (simp add: sample_system_def notify_def sample_batch_def map_filter_simps)
  from reachable_step [OF sample_submitted this] show ?thesis .
qed

lemma sample_done_reachable: "reachable sample_limits [] sample_done"
proof -
  let ?s = "sample_system [sample_request None 1 []] (Finishing sample_batch None [0] []) [(sample_batch, None)]"
  have "finishPart None (sample_request None 1 []) = (sample_request (Some (1, None)) 0 [], True)"
    by (simp add: finishPart_def sample_request_def errors_join_def)
  then have "batcher_step [] ?s FinishL sample_done"
    using step_finish [of ?s "[]" sample_batch None 0 "[]" "[]" "[]" "sample_request (Some (1, None)) 0 []" True "[]"]
    by (simp add: sample_system_def sample_batcher_def sample_done_def)
  from reachable_step [OF sample_returned this] show ?thesis .
qed

lemma sample_failed_reachable: "reachable sample_limits [] sample_failed"
proof -
  let ?s = "sample_system [sample_request None 1 []] (Finishing sample_batch (Some (Foreign 7)) [0] [])
      [(sample_batch, Some (Foreign 7))]"
  let ?e = "Some (Foreign 7)" and ?q = "sample_request (Some (0, Some (Joined [Foreign 7]))) 0 [Foreign 7]"
  have "finishPart ?e (sample_request None 1 []) = (?q, True)"
    by (simp add: finishPart_def sample_request_def errors_join_def)
  then have "batcher_step [] ?s FinishL sample_failed"
    using step_finish [of ?s "[]" sample_batch ?e 0 "[]" "[]" "[]" ?q True "[]"]
    by (simp add: sample_system_def sample_batcher_def sample_failed_def)
  from reachable_step [OF sample_returned this] show ?thesis .
qed

section \<open>Properties\<close>

text \<open>
  C15: at any moment of any interleaving, no more physical COPYs are in flight than configured, and a
  batch waits in the queue only while the limit is reached. No batch is empty, and one that was
  formed by coalescing never exceeds the configured number of rows.
\<close>

theorem batcher_limits:
  assumes "reachable config observers s"
  shows "int (length (s_jobs s)) \<le> MaxConcurrentBatches (normalized config)
    \<and> (b_queue (s_batcher s) \<noteq> [] \<longrightarrow> int (length (s_jobs s)) = MaxConcurrentBatches (normalized config))
    \<and> (\<forall>x \<in> set (s_dispatched s). cb_rows x \<noteq> [] \<and>
         (cb_reason x \<noteq> CopyBatchFlushReasonUnbatched \<longrightarrow> 0 < MaxRowsPerBatch config \<longrightarrow>
            int (length (cb_rows x)) \<le> MaxRowsPerBatch config))"
proof -
  have "sys_inv undefined s" "saturated s" "b_config (s_batcher s) = normalized config"
    using reachable_inv [OF assms] reachable_config [OF assms] by auto
  moreover have "MaxRowsPerBatch (normalized config) = MaxRowsPerBatch config" by (simp add: normalized_def Let_def)
  ultimately show ?thesis by (auto simp: sys_inv_def inv_capacity_def saturated_def list_all_iff batch_ok_def)
qed

theorem batcher_limits_witness:
  "int (length (s_jobs (sample_system [sample_request None 1 []] (Executing sample_batch) []))) \<le> 1"
  using batcher_limits [OF sample_submitted] by (simp add: normalized_def sample_limits_def)

text \<open>
  C14: no row is lost, duplicated or invented: at any moment the rows of the dispatched batches, of
  the queue and of the open batch are the rows of all accepted submissions. As long as every
  submission is coalesced, they are also in the order of submission.
\<close>

theorem batcher_conserves_rows:
  assumes "reachable config observers s"
  shows "mset (rows_of (s_dispatched s @ b_queue (s_batcher s) @ active_list (s_batcher s))) =
      mset (concat (map fst (s_accepted s)))
    \<and> (list_all snd (s_accepted s) \<longrightarrow>
        rows_of (s_dispatched s @ b_queue (s_batcher s) @ active_list (s_batcher s)) = concat (map fst (s_accepted s)))"
  using reachable_inv [OF assms, of undefined] by (simp add: sys_inv_def inv_rows_def waiting_def)

theorem batcher_conserves_rows_witness:
  "mset (rows_of (s_dispatched (sample_system [sample_request None 1 []] (Executing sample_batch) []))) = {# 0 #}"
  using batcher_conserves_rows [OF sample_submitted]
  by (simp add: sample_system_def sample_batcher_def active_list_def)

text \<open>
  C12: a future tells the truth about its rows. When the future of a submission has resolved without
  an error, its value is the number of rows submitted, and the rows of the COPY calls that returned
  without error and with the expected count contain the rows of this submission, each exactly as
  often as it was submitted. Rows are told apart by the number of their submission.
\<close>

theorem batcher_success_copied:
  assumes "reachable config observers s" and "tagged owner s" and "r < length (s_accepted s)"
    and "result_of s r = Some (v, None)"
  shows "v = int (length (fst (s_accepted s ! r)))
    \<and> filter_mset (\<lambda>y. owner y = r) (mset (copied_rows s)) = mset (fst (s_accepted s ! r))"
proof -
  have i: "sys_inv owner s" using reachable_inv [OF assms(1)] by blast
  note res = result_of_iff [OF i assms(3)]
  have v: "v = int (length (fst (s_accepted s ! r)))" and errs: "rq_errs (b_requests (s_batcher s) ! r) = []"
    using res(2) [OF assms(4)] by auto
  have out: "r \<notin># outstanding s" using res(1) assms(4) by simp
  have own: "list_all (owned owner) (s_dispatched s)" "list_all (owned owner) (waiting (s_batcher s))"
    using i assms(2) by (simp_all add: sys_inv_def inv_owned_def)
  have disp: "mset (s_dispatched s) = mset (executing (s_jobs s) @ map fst (s_returned s))"
    using i by (simp add: sys_inv_def inv_dispatched_def)
  have "list_all (owned owner) (executing (s_jobs s) @ map fst (s_returned s))"
    using own(1) mset_eq_setD [OF disp] by (simp add: list_all_iff)
  then have own': "list_all (owned owner) (executing (s_jobs s))" "\<And>x e. (x, e) \<in> set (s_returned s) \<Longrightarrow> owned owner x"
    by (auto simp: list_all_iff) force
  let ?F = "filter_mset (\<lambda>y. owner y = r)"
  have w: "?F (mset (rows_of (waiting (s_batcher s)))) = {#}"
    using owned_rows_none [OF own(2)] out by (simp add: outstanding_def)
  have e: "?F (mset (rows_of (executing (s_jobs s)))) = {#}"
    using owned_rows_none [OF own'(1)] out executing_parts [of "s_jobs s"] by (auto simp: outstanding_def)
  have "r \<notin> set (cb_requests x)" if "(x, Some err) \<in> set (s_returned s)" for x err
    using returned_error_reaches [OF i that _ out] errs by auto
  with own'(2) have "?F (mset (copied_rows s)) = ?F (mset (rows_of (map fst (s_returned s))))"
    unfolding copied_rows_def by (intro returned_owner)
  also have "\<dots> = ?F (mset (rows_of (s_dispatched s)))"
    using e rows_of_mset [OF disp] by simp
  also have "\<dots> = ?F (mset (concat (map fst (s_accepted s))))"
  proof -
    have "mset (concat (map fst (s_accepted s))) = mset (rows_of (s_dispatched s)) + mset (rows_of (waiting (s_batcher s)))"
      using i by (simp add: sys_inv_def inv_rows_def)
    then show ?thesis using w by (simp only: filter_union_mset add_0_right)
  qed
  also have "\<dots> = mset (fst (s_accepted s ! r))"
    using tagged_rows [of "s_accepted s" owner r] assms(2,3) by (simp add: tagged_def)
  finally show ?thesis using v by blast
qed

theorem batcher_success_copied_witness:
  "result_of sample_done 0 = Some (1, None) \<and> filter_mset (\<lambda>y. id y = 0) (mset (copied_rows sample_done)) = {# 0 #}"
proof -
  have r: "result_of sample_done 0 = Some (1, None)" "tagged id sample_done" "s_accepted sample_done = [([0], False)]"
    by (simp_all add: tagged_def result_of_def sample_done_def sample_system_def sample_batcher_def sample_request_def)
  with batcher_success_copied [OF sample_done_reachable r(2) _ r(1)] show ?thesis by simp
qed

text \<open>
  C13: a future that resolves with an error carries the errors of the physical COPYs that contained
  rows of its submission, and of no others; its value is zero. Every error of such a COPY reaches
  the future.
\<close>

theorem batcher_failure_reported:
  assumes "reachable config observers s" and "r < length (s_accepted s)" and "result_of s r \<noteq> None"
  shows "(\<forall>v e. result_of s r = Some (v, Some e) \<longrightarrow> v = 0 \<and> (\<exists>errs. errs \<noteq> [] \<and> e = Joined errs \<and>
        (\<forall>err \<in> set errs. \<exists>x. (x, Some err) \<in> set (s_returned s) \<and> r \<in> set (cb_requests x))))
    \<and> (\<forall>x err. (x, Some err) \<in> set (s_returned s) \<longrightarrow> r \<in> set (cb_requests x) \<longrightarrow>
        (\<exists>errs. result_of s r = Some (0, Some (Joined errs)) \<and> err \<in> set errs))"
proof -
  let ?errs = "rq_errs (b_requests (s_batcher s) ! r)"
  have i: "sys_inv undefined s" using reachable_inv [OF assms(1)] by blast
  note res = result_of_iff [OF i assms(2)]
  have out: "r \<notin># outstanding s" using res(1) assms(3) by simp
  have "\<exists>x. (x, Some err) \<in> set (s_returned s) \<and> r \<in> set (cb_requests x)" if "err \<in> set ?errs" for err
    using i assms(2) that unfolding sys_inv_def inv_errors_def by blast
  then have "v = 0 \<and> (\<exists>errs. errs \<noteq> [] \<and> e = Joined errs \<and>
      (\<forall>err \<in> set errs. \<exists>x. (x, Some err) \<in> set (s_returned s) \<and> r \<in> set (cb_requests x)))"
    if "result_of s r = Some (v, Some e)" for v e
    using res(3) [OF that] by blast
  moreover have "\<exists>errs. result_of s r = Some (0, Some (Joined errs)) \<and> err \<in> set errs"
    if x: "(x, Some err) \<in> set (s_returned s)" "r \<in> set (cb_requests x)" for x err
  proof -
    have err: "err \<in> set ?errs" using returned_error_reaches [OF i x out] .
    obtain v e where ve: "result_of s r = Some (v, e)" using assms(3) by auto
    with res(2) err obtain e' where "e = Some e'" by (cases e) auto
    with ve res(3) err show ?thesis by auto
  qed
  ultimately show ?thesis by blast
qed

theorem batcher_failure_reported_witness:
  "\<exists>errs. result_of sample_failed 0 = Some (0, Some (Joined errs)) \<and> Foreign 7 \<in> set errs"
  using batcher_failure_reported [OF sample_failed_reachable, of 0]
  by (simp add: result_of_def sample_failed_def sample_system_def sample_batcher_def sample_request_def sample_batch_def)

text \<open>
  C17: a flush is a barrier. It leaves no batch open, and its future waits for every accepted
  submission that has no result yet, and only for accepted submissions. That future resolves
  exactly when all of these have results, and without an error exactly when none of them failed.
\<close>

theorem flush_barrier:
  assumes "reachable config observers s" and "batcher_step observers s (FlushL rs) s'"
  shows "b_active (s_batcher s') = None \<and> rs \<subseteq> {..<length (s_accepted s)}
    \<and> (\<forall>r < length (s_accepted s). result_of s r = None \<longrightarrow> r \<in> rs)
    \<and> (\<forall>order qs. set order = rs \<longrightarrow>
        (flush_future qs order \<noteq> None \<longleftrightarrow> (\<forall>r \<in> rs. rq_result (qs ! r) \<noteq> None)) \<and>
        (flush_future qs order = Some ((), None) \<longleftrightarrow> (\<forall>r \<in> rs. \<exists>v. rq_result (qs ! r) = Some (v, None))))"
proof -
  have i: "sys_inv undefined s" using reachable_inv [OF assms(1)] by blast
  have "batcher_ok (s_batcher s)" using i by (simp add: sys_inv_def inv_capacity_def)
  from assms(2) this have f: "rs = b_pending (s_batcher s) \<and> b_active (s_batcher s') = None"
    by (cases rule: step_kinds) (auto simp: moved_def dest: scheduled_simps(3))
  have p: "b_pending (s_batcher s) = set_mset (outstanding s) \<union> \<Union> (set ` job_completed ` set (s_jobs s))"
    "\<forall>j \<in> set (s_jobs s). \<forall>r \<in> set (job_completed j). r < length (s_accepted s)"
    using i by (auto simp: sys_inv_def inv_pending_def)
  have "rs \<subseteq> {..<length (s_accepted s)}"
    using f p i by (auto simp: sys_inv_def inv_requests_def)
  moreover have "\<forall>r < length (s_accepted s). result_of s r = None \<longrightarrow> r \<in> rs"
    using f p(1) result_of_iff(1) [OF i] by simp
  moreover have "(flush_future qs order \<noteq> None \<longleftrightarrow> (\<forall>r \<in> rs. rq_result (qs ! r) \<noteq> None)) \<and>
      (flush_future qs order = Some ((), None) \<longleftrightarrow> (\<forall>r \<in> rs. \<exists>v. rq_result (qs ! r) = Some (v, None)))"
    if "set order = rs" for order qs
    using flush_future_done [of qs order] that by simp
  ultimately show ?thesis using f by blast
qed

theorem flush_barrier_witness:
  "\<exists>rs s'. batcher_step [] (sample_system [sample_request None 1 []] (Executing sample_batch) []) (FlushL rs) s' \<and> 0 \<in> rs"
proof -
  let ?s = "sample_system [sample_request None 1 []] (Executing sample_batch) []"
  obtain bs rs b where "FlushAsync (s_batcher ?s) = (bs, rs, b)" by (metis prod_cases3)
  then have st: "batcher_step [] ?s (FlushL rs) (dispatch bs b ?s)" by (rule step_flush)
  from flush_barrier [OF sample_submitted st] have "0 \<in> rs"
    by (simp add: result_of_def sample_system_def sample_batcher_def sample_request_def)
  with st show ?thesis by blast
qed

text \<open>
  C16: accepted work is always finished. Once no batch is open, for instance after a flush, the
  goroutines that execute batches cannot run forever, they are never stuck while one of them is
  left, and when they have all ended the queue is empty and every accepted submission has a result.
\<close>

theorem batcher_drains:
  assumes "reachable config observers s" and "b_active (s_batcher s) = None"
  shows "(\<forall>n s'. job_run observers s n s' \<longrightarrow> n \<le> weight s)
    \<and> (\<forall>n s'. job_run observers s n s' \<longrightarrow> s_jobs s' \<noteq> [] \<longrightarrow>
         (\<exists>l s''. l \<in> {ReturnL, FinishL, ReleaseL} \<and> batcher_step observers s' l s''))
    \<and> (\<forall>n s'. job_run observers s n s' \<longrightarrow> s_jobs s' = [] \<longrightarrow> b_queue (s_batcher s') = [] \<and> b_pending (s_batcher s') = {}
         \<and> (\<forall>r < length (s_accepted s'). result_of s' r \<noteq> None))"
proof (intro conjI allI impI)
  fix n s' assume run: "job_run observers s n s'"
  note r = job_run_inv [OF run assms(1)]
  show "n \<le> weight s" using r by simp
  show "\<exists>l s''. l \<in> {ReturnL, FinishL, ReleaseL} \<and> batcher_step observers s' l s''" if "s_jobs s' \<noteq> []"
    using job_progress [OF that] .
  have a: "b_active (s_batcher s') = None" using r assms(2) by simp
  show "b_queue (s_batcher s') = []" "b_pending (s_batcher s') = {}" if "s_jobs s' = []"
    using drained [OF _ that a] r by auto
  show "result_of s' t \<noteq> None" if "s_jobs s' = []" "t < length (s_accepted s')" for t
    using drained [OF _ that(1) a] r that(2) by auto
qed

theorem batcher_drains_witness:
  "\<not> (\<exists>n s'. job_run [] sample_done n s' \<and> 1 < n)"
proof -
  have "b_active (s_batcher sample_done) = None" "weight sample_done = 1"
    by (simp_all add: sample_done_def sample_system_def sample_batcher_def weight_def queue_weight_def)
  with batcher_drains [OF sample_done_reachable] have "n \<le> 1" if "job_run [] sample_done n s'" for n s'
    using that by (metis (no_types))
  then show ?thesis by (meson not_less)
qed

text \<open>
  C18: a submission always returns. In every reachable state, an empty slice settles at once with
  zero rows, a context that is cancelled before the lock is released settles with its error and
  leaves the batcher as it was, and any other submission is accepted under the next number.
\<close>

theorem submit_returns:
  assumes "reachable config observers s"
  shows "submit ctx now err1 err2 rows coalesce (s_batcher s) =
      (if rows = [] then Some (Settled (Some (0, None)), [], s_batcher s)
       else case (if err1 = None then err2 else err1) of
              Some e \<Rightarrow> Some (Settled (Some (0, Some e)), [], s_batcher s)
            | None \<Rightarrow> submit ctx now None None rows coalesce (s_batcher s))
    \<and> (rows \<noteq> [] \<longrightarrow> (\<exists>bs b. submit ctx now None None rows coalesce (s_batcher s) = Some (Accepted (length (s_accepted s)), bs, b)))"
proof -
  have i: "sys_inv undefined s" using reachable_inv [OF assms] by blast
  then have ok: "batcher_ok (s_batcher s)" and n: "length (b_requests (s_batcher s)) = length (s_accepted s)"
    by (simp_all add: sys_inv_def inv_capacity_def inv_requests_def)
  have "\<exists>bs b. submit ctx now None None rows coalesce (s_batcher s) = Some (Accepted (length (s_accepted s)), bs, b)"
    if "rows \<noteq> []"
    by (rule submit_cases [OF ok, of ctx now None None rows coalesce]) (use that n in auto)
  moreover have "submit ctx now err1 err2 rows coalesce (s_batcher s) =
      (if rows = [] then Some (Settled (Some (0, None)), [], s_batcher s)
       else case (if err1 = None then err2 else err1) of
              Some e \<Rightarrow> Some (Settled (Some (0, Some e)), [], s_batcher s)
            | None \<Rightarrow> submit ctx now None None rows coalesce (s_batcher s))"
    by (auto simp: submit_def ResolvedFuture_def newFuture_def newCopyRequest_def split: option.split)
  ultimately show ?thesis by blast
qed

theorem submit_returns_witness:
  "\<exists>bs b. submit () 8 None None [1, 1, 1] True (s_batcher sample_done) = Some (Accepted 1, bs, b)"
  using submit_returns [OF sample_done_reachable, of "()" 8 None None "[1, 1, 1]" True]
  by (simp add: sample_done_def sample_system_def)

end
