(* ===== verification/Generated_Async.thy ===== *)
theory Generated_Async
  imports Generated_Fanout Copy_Batch_System
begin

text \<open>
  The asynchronous COPY of a generated store, \<^verbatim>\<open>CopyAccountsAsync\<close> and \<^verbatim>\<open>FlushCopyAccounts\<close> of
  \<^verbatim>\<open>zz_generated_store_accounts.go\<close>: rows are grouped by replica set as in \<^verbatim>\<open>CopyAccounts\<close> and handed to
  the COPY batcher of each set. The map of batchers is fixed when the store is built and a method
  visits each batcher at most once, so an entry of the map is the state of that batcher at the time the
  method takes its lock.
\<close>

section \<open>Submitting\<close>

record ('c, 'p) copyAccountsBatchState =
  bs_enabled :: bool
  bs_batchers :: "string \<rightharpoonup> ('c, 'p) copyBatcher"

text \<open>
  What \<^verbatim>\<open>CopyAccountsAsync\<close> hands to \<^verbatim>\<open>finish\<close>: a resolved future, or the futures of the submissions with
  the names of their sets.
\<close>

datatype asyncOutcome = AsyncResolved int64 "go_error option" | AsyncPending "(string \<times> submission) list"

text \<open>The loop over the groups: one submission each, with a context that cannot be cancelled.\<close>

fun submit_groups ::
  "bool \<Rightarrow> 'c \<Rightarrow> int \<Rightarrow> (string \<times> 'p list) list \<Rightarrow> (string \<rightharpoonup> ('c, 'p) copyBatcher) \<Rightarrow>
   ((string \<times> submission) list \<times> (string \<times> ('c, 'p) copyBatch list) list \<times> (string \<rightharpoonup> ('c, 'p) copyBatcher)) option" where
  "submit_groups enabled ctx t [] batchers = Some ([], [], batchers)"
| "submit_groups enabled ctx t ((name, rows) # groups) batchers = do {
     b \<leftarrow> batchers name;
     (future, dispatched, b') \<leftarrow> (if enabled then Submit ctx t None None rows b else SubmitUnbatched ctx t None None rows b);
     (futures, batches, batchers') \<leftarrow> submit_groups enabled ctx t groups (batchers(name \<mapsto> b'));
     Some ((name, future) # futures, (name, dispatched) # batches, batchers')
   }"

text \<open>\<open>ctxErr\<close> is what the context reports once the lock of the state is held.\<close>

definition CopyAccountsAsync where
  "CopyAccountsAsync rt s ctx ctxErr arg st batch = do {
     (ctx1, l, st1) \<leftarrow> start_logical rt s ctx ''Accounts'' ''CopyAccountsAsync'' QueryKindWrite st;
     routed \<leftarrow> group_rows s (st_heap st1) ''CopyAccountsAsync'' ca_TenantKey copyAccounts_sqlcParams 0 arg Map.empty;
     case routed of
       Inl e \<Rightarrow> Some (AsyncResolved 0 (Some e), l, [], st1, batch)
     | Inr groupsByName \<Rightarrow> do {
         let groups = ordered_groups (ms_mesh s) (st_heap st1) groupsByName;
         let (l2, st2) = set_route RouteModePrimary (length groups) l st1;
         if groups = [] then Some (AsyncResolved 0 None, l2, [], st2, batch)
         else if ctxErr \<noteq> None then Some (AsyncResolved 0 ctxErr, l2, [], st2, batch)
         else do {
           names \<leftarrow> those (map (\<lambda>g. shard_ReplicaSetName (sg_shard g) (st_heap st2)) groups);
           case find (\<lambda>name. bs_batchers batch name = None) names of
             Some name \<Rightarrow>
               Some (AsyncResolved 0 (Some (Errorf ''query CopyAccountsAsync has no copy batcher for replica set %q'' [ArgStr name])),
                     l2, [], st2, batch)
           | None \<Rightarrow> do {
               (futures, batches, batchers) \<leftarrow>
                 submit_groups (bs_enabled batch) ctx1 (now rt st2) (zip names (map sg_args groups)) (bs_batchers batch);
               Some (AsyncPending futures, l2, batches, st2, batch\<lparr>bs_batchers := batchers\<rparr>)
             }
         }
       }
   }"

text \<open>The future of a submission, from the requests of its batcher at a later time.\<close>

definition submission_future :: "copyRequest list \<Rightarrow> submission \<Rightarrow> int future" where
  "submission_future requests f = (case f of Settled r \<Rightarrow> r | Accepted i \<Rightarrow> rq_result (requests ! i))"

text \<open>
  The goroutine that waits for all futures in their order; \<open>None\<close> while one of them is open. Then the
  result, with which \<^verbatim>\<open>finish\<close> ends the logical span.
\<close>

definition async_combined :: "(string \<times> int future) list \<Rightarrow> int64 future" where
  "async_combined futures =
     (if \<forall>(name, f) \<in> set futures. f \<noteq> None
      then Some (case errors_join (slot_errors ''CopyAccounts'' (map fst futures) (map (\<lambda>(name, f). the f) futures)) of
                   Some e \<Rightarrow> (0, Some e)
                 | None \<Rightarrow> (sum_list (map (\<lambda>(name, f). of_int (fst (the f))) futures), None))
      else None)"

definition async_finish where
  "async_finish rt result l st = map_option (\<lambda>st'. (result, st')) (end_logical rt (snd result) l st)"

text \<open>
  The wrapper of a group with a factory: the store span covers the call and ends with the result of the
  future that the wrapped group returned.
\<close>

definition telemetry_CopyAccountsAsync where
  "telemetry_CopyAccountsAsync rt s target ctx arg st batch = do {
     (ctx1, x, w) \<leftarrow> StartStoreQuerySpan (ms_id s) (m_telemetry (ms_mesh s)) (now rt st) ctx ''Accounts'' ''CopyAccountsAsync'' QueryKindWrite (st_world st);
     (outcome, l, batches, st1, batch1) \<leftarrow> target ctx1 arg (st\<lparr>st_world := w\<rparr>) batch;
     Some (x, outcome, l, batches, st1, batch1)
   }"

definition telemetry_async_finish where
  "telemetry_async_finish rt result x st =
     map_option (\<lambda>w. (result, st\<lparr>st_world := w\<rparr>)) (store_End (rt_ErrorType rt) (rt_enabled rt) (now rt st) (snd result) x (st_world st))"

section \<open>Flushing\<close>

text \<open>\<^verbatim>\<open>FlushCopyAccounts\<close> up to the unlock: the requests that the future of each set waits for.\<close>

fun flush_batchers ::
  "string list \<Rightarrow> (string \<rightharpoonup> ('c, 'p) copyBatcher) \<Rightarrow>
   (string \<times> nat set) list \<times> (string \<times> ('c, 'p) copyBatch list) list \<times> (string \<rightharpoonup> ('c, 'p) copyBatcher)" where
  "flush_batchers [] batchers = ([], [], batchers)"
| "flush_batchers (name # names) batchers =
     (case batchers name of
        None \<Rightarrow> flush_batchers names batchers
      | Some b \<Rightarrow>
          (case FlushAsync b of (dispatched, waits, b') \<Rightarrow>
           case flush_batchers names (batchers(name \<mapsto> b')) of (flushes, batches, batchers') \<Rightarrow>
             ((name, waits) # flushes, (name, dispatched) # batches, batchers')))"

definition FlushCopyAccounts where
  "FlushCopyAccounts s h batch =
     (case flush_batchers (map (rs_name_at h) (ReplicaSets (ms_mesh s))) (bs_batchers batch) of
        (flushes, batches, batchers) \<Rightarrow> (flushes, batches, batch\<lparr>bs_batchers := batchers\<rparr>))"

definition telemetry_FlushCopyAccounts where
  "telemetry_FlushCopyAccounts target = target"

text \<open>
  The wait after the unlock, from the error of each \<^verbatim>\<open>Await\<close> and what the context reports after it. The
  loop stops at the first error that comes with a cancelled context.
\<close>

fun flush_wait :: "(string \<times> go_error option \<times> go_error option) list \<Rightarrow> go_error list" where
  "flush_wait [] = []"
| "flush_wait ((name, err, ctxErr) # rest) =
     (case err of
        None \<Rightarrow> flush_wait rest
      | Some e \<Rightarrow> Wrap ''flush CopyAccounts on replica set %q: %w'' [ArgStr name] e #
          (if ctxErr \<noteq> None then [] else flush_wait rest))"

section \<open>What submitting does\<close>

text \<open>A batcher took a submission: a new request for its rows is pending, and the rows wait or are dispatched.\<close>

definition took :: "'p list \<Rightarrow> ('c, 'p) copyBatcher \<Rightarrow> submission \<Rightarrow> ('c, 'p) copyBatch list \<Rightarrow> ('c, 'p) copyBatcher \<Rightarrow> bool" where
  "took rows b f bs b' \<longleftrightarrow> f = Accepted (length (b_requests b)) \<and> b_pending b' = insert (length (b_requests b)) (b_pending b)
     \<and> length (b_requests b') = Suc (length (b_requests b)) \<and> rq_rowCount (b_requests b' ! length (b_requests b)) = int (length rows)
     \<and> rq_result (b_requests b' ! length (b_requests b)) = None
     \<and> mset (rows_of (bs @ waiting b')) = mset (rows_of (waiting b)) + mset rows"

lemma submit_took:
  assumes "batcher_ok b" and "rows \<noteq> []"
  shows "\<exists>f bs b'. (if enabled then Submit ctx t None None rows b else SubmitUnbatched ctx t None None rows b) = Some (f, bs, b') \<and> took rows b f bs b'"
  using assms(1)
proof (cases rule: submit_cases [where ctx = ctx and now = t and ?err1.0 = None and ?err2.0 = None and rows = rows and coalesce = enabled])
  case settled
  with assms(2) show ?thesis by auto
next
  case (accepted bs b1 b' k)
  have s: "b' = b1\<lparr>b_queue := b_queue b', b_inFlight := b_inFlight b1 + int (length bs)\<rparr>" "rows_of (bs @ b_queue b') = rows_of (b_queue b1)"
    using accepted(6) unfolding scheduled_def by blast+
  have a: "b_active b' = b_active b1" "b_requests b' = b_requests b1" "b_pending b' = b_pending b1"
    using s(1) by (metis copyBatcher.select_convs copyBatcher.surjective copyBatcher.update_convs(3,4))+
  then have w: "rows_of (bs @ waiting b') = rows_of (waiting b1)" using s(2) by (simp add: waiting_def active_list_def)
  have "took rows b (Accepted (length (b_requests b))) bs b'"
    using accepted(5) unfolding took_def taken_def a w by (auto simp: newCopyRequest_def newFuture_def)
  moreover have "(if enabled then Submit ctx t None None rows b else SubmitUnbatched ctx t None None rows b) = submit ctx t None None rows enabled b"
    by (simp add: Submit_def SubmitUnbatched_def)
  ultimately show ?thesis using accepted(1) by auto
qed

lemma submit_groups_ok:
  assumes "distinct (map fst groups)" and "\<forall>(name, rows) \<in> set groups. rows \<noteq> [] \<and> (\<exists>b. batchers name = Some b \<and> batcher_ok b)"
  shows "\<exists>fs bss batchers'. submit_groups enabled ctx t groups batchers = Some (zip (map fst groups) fs, zip (map fst groups) bss, batchers')
    \<and> length fs = length groups \<and> length bss = length groups
    \<and> (\<forall>j < length groups. took (snd (groups ! j)) (the (batchers (fst (groups ! j)))) (fs ! j) (bss ! j) (the (batchers' (fst (groups ! j)))))
    \<and> dom batchers' = dom batchers \<and> (\<forall>name. name \<notin> fst ` set groups \<longrightarrow> batchers' name = batchers name)"
  using assms
proof (induction groups arbitrary: batchers)
  case Nil
  then show ?case by simp
next
  case (Cons g groups)
  obtain name rows where g: "g = (name, rows)" by (cases g)
  from Cons.prems g obtain b where b: "batchers name = Some b" "batcher_ok b" "rows \<noteq> []" by auto
  obtain f bs b' where s: "(if enabled then Submit ctx t None None rows b else SubmitUnbatched ctx t None None rows b) = Some (f, bs, b')" "took rows b f bs b'"
    using submit_took [OF b(2,3)] by blast
  have n: "name \<notin> fst ` set groups" using Cons.prems(1) g by simp
  have "\<forall>(name', rows) \<in> set groups. rows \<noteq> [] \<and> (\<exists>b. (batchers(name \<mapsto> b')) name' = Some b \<and> batcher_ok b)"
    using Cons.prems(2) n by force
  moreover have "distinct (map fst groups)" using Cons.prems(1) by simp
  ultimately obtain fs bss batchers' where
    i: "submit_groups enabled ctx t groups (batchers(name \<mapsto> b')) = Some (zip (map fst groups) fs, zip (map fst groups) bss, batchers')"
    "length fs = length groups" "length bss = length groups"
    "\<forall>j < length groups. took (snd (groups ! j)) (the ((batchers(name \<mapsto> b')) (fst (groups ! j)))) (fs ! j) (bss ! j) (the (batchers' (fst (groups ! j))))"
    "dom batchers' = dom (batchers(name \<mapsto> b'))" "\<forall>x. x \<notin> fst ` set groups \<longrightarrow> batchers' x = (batchers(name \<mapsto> b')) x"
    using Cons.IH [of "batchers(name \<mapsto> b')"] by blast
  have "fst (groups ! j) \<noteq> name" if "j < length groups" for j using n that by (metis image_eqI nth_mem)
  then have "took (snd ((g # groups) ! j)) (the (batchers (fst ((g # groups) ! j)))) ((f # fs) ! j) ((bs # bss) ! j) (the (batchers' (fst ((g # groups) ! j))))"
    if "j < length (g # groups)" for j using that i(4,6) s(2) b(1) n g by (cases j) auto
  then show ?case using s(1) b(1) i(1-3,5,6) g by (intro exI [of _ "f # fs"] exI [of _ "bs # bss"] exI [of _ batchers']) (auto simp: Let_def)
qed

text \<open>The rows of the used sets: every used set has some, and no other set has any.\<close>

definition rows_for :: "('k, 'sk, 'tp, 'mp, 'lg) meshStore \<Rightarrow> ('r, 'w) mesh_heap \<Rightarrow> ('i \<Rightarrow> 'k) \<Rightarrow> ('i \<Rightarrow> 'p) \<Rightarrow> 'i list \<Rightarrow> rs_ptr \<Rightarrow> 'p list" where
  "rows_for s h key params items q = map params (filter (\<lambda>i. set_name_of s h (key i) = rs_name_at h q) items)"

lemma rows_for_used: "q \<in> set (used_sets s h (map key items)) \<Longrightarrow> rows_for s h key params items q \<noteq> []"
  by (auto simp: used_sets_def rows_for_def filter_empty_conv)

lemma used_sets_Nil:
  assumes "mesh_wf (ms_mesh s) h" and "list_all (routable s) ks"
  shows "used_sets s h ks = [] \<longleftrightarrow> ks = []"
  using used_sets_names [OF assms] by auto

lemma submit_groups_used:
  assumes "mesh_wf (ms_mesh s) h" and "list_all (routable s) (map key items)" and u: "used = used_sets s h (map key items)"
    and n: "names = map (rs_name_at h) used" and ok: "\<forall>name \<in> set names. \<exists>b. batchers name = Some b \<and> batcher_ok b"
  shows "\<exists>fs bss batchers'. submit_groups enabled ctx t (zip names (map (rows_for s h key params items) used)) batchers =
        Some (zip names fs, zip names bss, batchers')
    \<and> length fs = length used \<and> length bss = length used
    \<and> (\<forall>j < length used. took (rows_for s h key params items (used ! j)) (the (batchers (names ! j))) (fs ! j) (bss ! j) (the (batchers' (names ! j))))
    \<and> (\<forall>name. name \<notin> set names \<longrightarrow> batchers' name = batchers name)"
proof -
  let ?g = "zip names (map (rows_for s h key params items) used)"
  have fg: "map fst ?g = names" and lg: "length ?g = length used" using n by simp_all
  have d: "distinct names" using used_sets_names [OF assms(1,2)] unfolding n u by blast
  have gj: "?g ! j = (names ! j, rows_for s h key params items (used ! j))" if "j < length used" for j using that n by simp
  have "\<forall>(name, rs) \<in> set ?g. rs \<noteq> [] \<and> (\<exists>b. batchers name = Some b \<and> batcher_ok b)"
    using ok rows_for_used [of _ s h key items] unfolding n u by (auto simp: zip_map1 zip_map2 zip_same_conv_map)
  from submit_groups_ok [OF _ this, unfolded fg, OF d, of enabled ctx t]
  obtain fs bss batchers' where sub: "submit_groups enabled ctx t ?g batchers = Some (zip names fs, zip names bss, batchers')"
    "length fs = length ?g" "length bss = length ?g"
    "\<forall>j < length ?g. took (snd (?g ! j)) (the (batchers (fst (?g ! j)))) (fs ! j) (bss ! j) (the (batchers' (fst (?g ! j))))"
    "\<forall>name. name \<notin> fst ` set ?g \<longrightarrow> batchers' name = batchers name" by blast
  have "fst ` set ?g = set names" using fg by (metis list.set_map)
  moreover have "\<forall>j < length used. took (rows_for s h key params items (used ! j)) (the (batchers (names ! j))) (fs ! j) (bss ! j) (the (batchers' (names ! j)))"
    using sub(4) unfolding lg by (metis gj fst_conv snd_conv)
  ultimately show ?thesis using sub(1-3,5) lg
    by (intro exI [of _ fs] exI [of _ bss] exI [of _ batchers'] conjI) (simp_all only: simp_thms)
qed

lemma async_groups:
  assumes "env_ok rt s p" and wf: "mesh_wf (ms_mesh s) (st_heap st)" and items: "list_all (routable s \<circ> ca_TenantKey) items"
    and u: "used = used_sets s (st_heap st) (map ca_TenantKey items)"
  obtains ctx1 l w1 groups gs l2 w2 where
    "start_logical rt s ctx ''Accounts'' ''CopyAccountsAsync'' QueryKindWrite st = Some (ctx1, l, st\<lparr>st_world := w1\<rparr>)"
    "group_rows s (st_heap st) ''CopyAccountsAsync'' ca_TenantKey copyAccounts_sqlcParams 0 (map Some items) Map.empty = Some (Inr groups)"
    "ordered_groups (ms_mesh s) (st_heap st) groups = gs"
    "set_route RouteModePrimary (length gs) l (st\<lparr>st_world := w1\<rparr>) = (l2, st\<lparr>st_world := w2\<rparr>)"
    "span_ok p l2" "settles p (st_world st) w2" "length gs = length used"
    "map sg_args gs = map (rows_for s (st_heap st) ca_TenantKey copyAccounts_sqlcParams items) used"
    "those (map (\<lambda>g. shard_ReplicaSetName (sg_shard g) (st_heap st)) gs) = Some (map (rs_name_at (st_heap st)) used)"
proof -
  have "groups_for s (st_heap st) ca_TenantKey copyAccounts_sqlcParams [] Map.empty" by (simp add: groups_for_def)
  from group_rows_ok [OF wf items this, of "''CopyAccountsAsync''" 0] obtain groups where
    g: "group_rows s (st_heap st) ''CopyAccountsAsync'' ca_TenantKey copyAccounts_sqlcParams 0 (map Some items) Map.empty = Some (Inr groups)"
      "groups_for s (st_heap st) ca_TenantKey copyAccounts_sqlcParams items groups" by auto
  obtain gs where gs: "ordered_groups (ms_mesh s) (st_heap st) groups = gs" "length gs = length used"
    "\<forall>j < length gs. sg_args (gs ! j) = rows_for s (st_heap st) ca_TenantKey copyAccounts_sqlcParams items (used ! j)
       \<and> sh_replicaSet (sg_shard (gs ! j)) = used ! j"
    using ordered_groups_ok [OF wf g(2)] unfolding u rows_for_def by blast
  obtain ctx1 l w1 where l: "start_logical rt s ctx ''Accounts'' ''CopyAccountsAsync'' QueryKindWrite st = Some (ctx1, l, st\<lparr>st_world := w1\<rparr>)"
    "span_ok p l" "settles p (st_world st) w1" using start_logical_ok [OF assms(1)] by blast
  obtain l2 w2 where l2: "set_route RouteModePrimary (length gs) l (st\<lparr>st_world := w1\<rparr>) = (l2, st\<lparr>st_world := w2\<rparr>)" "span_ok p l2" "settles p w1 w2"
    using set_route_ok [OF l(2), of RouteModePrimary "length gs" "st\<lparr>st_world := w1\<rparr>"] by auto
  have m: "map sg_args gs = map (rows_for s (st_heap st) ca_TenantKey copyAccounts_sqlcParams items) used"
    using gs(2,3) by (intro nth_equalityI) auto
  have sub: "set used \<subseteq> set (ReplicaSets (ms_mesh s))" by (auto simp: u used_sets_def)
  have "those (map (\<lambda>g. shard_ReplicaSetName (sg_shard g) (st_heap st)) gs) = Some (map (rs_name_at (st_heap st)) used)"
    using gs(3) by (intro those_names [OF wf refl _ gs(2) sub]) blast
  from that [OF l(1) g(1) gs(1) l2(1,2) settles_trans [OF l(3) l2(3)] gs(2) m this] show thesis .
qed

text \<open>
  C28: an asynchronous COPY is accepted by every replica set that has rows or by none. No rows, a
  cancelled context or a used set without batcher give a resolved future and leave all batchers as they
  were, with a nil error only for no rows. Otherwise the batcher of every used set takes exactly
  the rows of this set as one new pending request, the batchers of the other sets stay as they are,
  and the caller gets the futures of these requests. The call itself makes no database call.
\<close>

theorem CopyAccountsAsync_all_or_nothing:
  assumes "env_ok rt s p" and "mesh_wf (ms_mesh s) (st_heap st)" and "list_all (routable s \<circ> ca_TenantKey) items"
    and "\<forall>name b. bs_batchers batch name = Some b \<longrightarrow> batcher_ok b"
    and "used = used_sets s (st_heap st) (map ca_TenantKey items)" and "names = map (rs_name_at (st_heap st)) used"
  shows "\<exists>l w. settles p (st_world st) w \<and>
    (if items = [] \<or> ctxErr \<noteq> None \<or> (\<exists>name \<in> set names. bs_batchers batch name = None)
     then \<exists>e. CopyAccountsAsync rt s ctx ctxErr (map Some items) st batch = Some (AsyncResolved 0 e, l, [], st\<lparr>st_world := w\<rparr>, batch)
            \<and> (e = None \<longleftrightarrow> items = [])
     else \<exists>fs bss batchers. CopyAccountsAsync rt s ctx ctxErr (map Some items) st batch =
              Some (AsyncPending (zip names fs), l, zip names bss, st\<lparr>st_world := w\<rparr>, batch\<lparr>bs_batchers := batchers\<rparr>)
            \<and> length fs = length used \<and> length bss = length used
            \<and> (\<forall>j < length used. took (map copyAccounts_sqlcParams (filter (\<lambda>i. set_name_of s (st_heap st) (ca_TenantKey i) = names ! j) items))
                 (the (bs_batchers batch (names ! j))) (fs ! j) (bss ! j) (the (batchers (names ! j))))
            \<and> (\<forall>name. name \<notin> set names \<longrightarrow> batchers name = bs_batchers batch name))"
proof -
  let ?h = "st_heap st"
  obtain ctx1 l w1 groups gs l2 w2 where g:
    "start_logical rt s ctx ''Accounts'' ''CopyAccountsAsync'' QueryKindWrite st = Some (ctx1, l, st\<lparr>st_world := w1\<rparr>)"
    "group_rows s ?h ''CopyAccountsAsync'' ca_TenantKey copyAccounts_sqlcParams 0 (map Some items) Map.empty = Some (Inr groups)"
    "ordered_groups (ms_mesh s) ?h groups = gs"
    "set_route RouteModePrimary (length gs) l (st\<lparr>st_world := w1\<rparr>) = (l2, st\<lparr>st_world := w2\<rparr>)"
    "span_ok p l2" "settles p (st_world st) w2" "length gs = length used"
    "map sg_args gs = map (rows_for s ?h ca_TenantKey copyAccounts_sqlcParams items) used"
    "those (map (\<lambda>g. shard_ReplicaSetName (sg_shard g) ?h) gs) = Some names"
    by (rule async_groups [OF assms(1-3,5), where ctx = ctx, folded assms(6)])
  have r: "list_all (routable s) (map ca_TenantKey items)" using assms(3) by (simp add: list_all_iff)
  have nil: "gs = [] \<longleftrightarrow> items = []" using used_sets_Nil [OF assms(2) r] g(7) unfolding assms(5) by auto
  show ?thesis
  proof (cases "items = [] \<or> ctxErr \<noteq> None \<or> (\<exists>name \<in> set names. bs_batchers batch name = None)")
    case True
    moreover have "\<exists>e. CopyAccountsAsync rt s ctx ctxErr (map Some items) st batch = Some (AsyncResolved 0 e, l2, [], st\<lparr>st_world := w2\<rparr>, batch)
        \<and> (e = None \<longleftrightarrow> items = [])"
      using True g(1-4,9) nil
      by (auto simp: CopyAccountsAsync_def Let_def find_None_iff split: option.splits)
    ultimately show ?thesis using g(6) by (intro exI [of _ l2] exI [of _ w2]) (simp only: if_True simp_thms)
  next
    case False
    then have fn: "find (\<lambda>name. bs_batchers batch name = None) names = None"
      and ok: "\<forall>name \<in> set names. \<exists>b. bs_batchers batch name = Some b \<and> batcher_ok b" using assms(4) by (auto simp: find_None_iff)
    obtain fs bss batchers where sub: "submit_groups (bs_enabled batch) ctx1 (now rt (st\<lparr>st_world := w2\<rparr>)) (zip names (map sg_args gs)) (bs_batchers batch) =
        Some (zip names fs, zip names bss, batchers)" "length fs = length used" "length bss = length used"
      "\<forall>j < length used. took (rows_for s ?h ca_TenantKey copyAccounts_sqlcParams items (used ! j)) (the (bs_batchers batch (names ! j))) (fs ! j) (bss ! j) (the (batchers (names ! j)))"
      "\<forall>name. name \<notin> set names \<longrightarrow> batchers name = bs_batchers batch name"
      using submit_groups_used [OF assms(2) r assms(5,6) ok] unfolding g(8) by blast
    have "CopyAccountsAsync rt s ctx ctxErr (map Some items) st batch =
        Some (AsyncPending (zip names fs), l2, zip names bss, st\<lparr>st_world := w2\<rparr>, batch\<lparr>bs_batchers := batchers\<rparr>)"
      using False g(1-4,9) nil fn sub(1) by (simp add: CopyAccountsAsync_def Let_def)
    moreover have "\<forall>j < length used. took (map copyAccounts_sqlcParams (filter (\<lambda>i. set_name_of s ?h (ca_TenantKey i) = names ! j) items))
        (the (bs_batchers batch (names ! j))) (fs ! j) (bss ! j) (the (batchers (names ! j)))"
      using sub(4) assms(6) by (simp add: rows_for_def)
    ultimately show ?thesis using False g(6) sub(2,3,5) by (intro exI [of _ l2] exI [of _ w2]) auto
  qed
qed

definition pair_batch :: "(tel_context, copyAccountsParams) copyAccountsBatchState" where
  "pair_batch = (case NewCopyBatcher sample_limits False of Inl e \<Rightarrow> \<lparr>bs_enabled = True, bs_batchers = Map.empty\<rparr>
     | Inr b \<Rightarrow> \<lparr>bs_enabled = True, bs_batchers = [''a'' \<mapsto> b, ''b'' \<mapsto> b]\<rparr>)"

lemma pair_batch_ok: "\<forall>name b. bs_batchers pair_batch name = Some b \<longrightarrow> batcher_ok b"
  using NewCopyBatcher_ok [of sample_limits False] by (auto simp: pair_batch_def split: sum.splits if_splits)

lemma pair_batch_dom: "bs_batchers pair_batch ''a'' \<noteq> None" "bs_batchers pair_batch ''b'' \<noteq> None"
  by (simp_all add: pair_batch_def NewCopyBatcher_def Validate_def sample_limits_def)

theorem CopyAccountsAsync_all_or_nothing_witness:
  "\<exists>l w fs bss batchers. CopyAccountsAsync (sample_runtime (1 :: int64)) pair_store sample_context None
      (map (\<lambda>(t, i). Some \<lparr>ca_TenantKey = \<lparr>TenantID = t\<rparr>, ca_ID = i, ca_DisplayName = ''x''\<rparr>) [(1, 10), (0, 11), (1, 12)])
      (pair_state :: (unit, nat, copyAccountsParams list, int64) store_state) pair_batch =
      Some (AsyncPending (zip [''a'', ''b''] fs), l, zip [''a'', ''b''] bss, pair_state\<lparr>st_world := w\<rparr>, pair_batch\<lparr>bs_batchers := batchers\<rparr>)
    \<and> took [\<lparr>cap_ID = 11, cap_TenantID = 0, cap_DisplayName = ''x''\<rparr>] (the (bs_batchers pair_batch ''a'')) (fs ! 0) (bss ! 0) (the (batchers ''a''))
    \<and> took [\<lparr>cap_ID = 10, cap_TenantID = 1, cap_DisplayName = ''x''\<rparr>, \<lparr>cap_ID = 12, cap_TenantID = 1, cap_DisplayName = ''x''\<rparr>]
        (the (bs_batchers pair_batch ''b'')) (fs ! 1) (bss ! 1) (the (batchers ''b''))"
proof -
  let ?st = "pair_state :: (unit, nat, copyAccountsParams list, int64) store_state"
  let ?i = "map (\<lambda>(t, i). \<lparr>ca_TenantKey = \<lparr>TenantID = t\<rparr>, ca_ID = i, ca_DisplayName = ''x''\<rparr> :: copyAccountsT) [(1, 10), (0, 11), (1, 12)]"
  have s: "st_heap ?st = pair_heap" by (simp add: pair_state_def)
  have k: "shardKey_of pair_store \<lparr>TenantID = t\<rparr> = t" for t by (simp add: shardKey_of_def pair_store_def sample_store_def)
  have r: "list_all (routable pair_store \<circ> ca_TenantKey) ?i" using pair_resolve by (simp add: routable_def k)
  have n: "set_name_of pair_store pair_heap \<lparr>TenantID = 0\<rparr> = ''a''" "set_name_of pair_store pair_heap \<lparr>TenantID = 1\<rparr> = ''b''"
    using pair_resolve pair_sets by (simp_all add: set_name_of_def k)
  have u: "[0, 1] = used_sets pair_store pair_heap (map ca_TenantKey ?i)"
    using n pair_sets by (simp add: used_sets_def pair_store_def ReplicaSets_def)
  have m: "[''a'', ''b''] = map (rs_name_at pair_heap) [0, 1]" using pair_sets by simp
  have c: "(?i = [] \<or> (None :: go_error option) \<noteq> None \<or> (\<exists>name \<in> set [''a'', ''b'']. bs_batchers pair_batch name = None)) = False"
    using pair_batch_dom by simp
  from CopyAccountsAsync_all_or_nothing [where st = ?st and ctx = sample_context and ctxErr = None, OF pair_env [of 1], unfolded s, OF pair_wf r pair_batch_ok u m,
      unfolded c if_False]
  obtain l w fs bss batchers where w: "CopyAccountsAsync (sample_runtime 1) pair_store sample_context None (map Some ?i) ?st pair_batch =
      Some (AsyncPending (zip [''a'', ''b''] fs), l, zip [''a'', ''b''] bss, ?st\<lparr>st_world := w\<rparr>, pair_batch\<lparr>bs_batchers := batchers\<rparr>)"
    "\<forall>j < length [0 :: rs_ptr, 1]. took (map copyAccounts_sqlcParams (filter (\<lambda>i. set_name_of pair_store pair_heap (ca_TenantKey i) = [''a'', ''b''] ! j) ?i))
        (the (bs_batchers pair_batch ([''a'', ''b''] ! j))) (fs ! j) (bss ! j) (the (batchers ([''a'', ''b''] ! j)))" by blast
  have "map copyAccounts_sqlcParams (filter (\<lambda>i. set_name_of pair_store pair_heap (ca_TenantKey i) = [''a'', ''b''] ! 0) ?i) =
      [\<lparr>cap_ID = 11, cap_TenantID = 0, cap_DisplayName = ''x''\<rparr>]"
    "map copyAccounts_sqlcParams (filter (\<lambda>i. set_name_of pair_store pair_heap (ca_TenantKey i) = [''a'', ''b''] ! 1) ?i) =
      [\<lparr>cap_ID = 10, cap_TenantID = 1, cap_DisplayName = ''x''\<rparr>, \<lparr>cap_ID = 12, cap_TenantID = 1, cap_DisplayName = ''x''\<rparr>]"
    using n by (simp_all add: copyAccounts_sqlcParams_def)
  with w(2) [THEN spec, of 0] w(2) [THEN spec, of 1] w(1) show ?thesis
    by (intro exI [of _ l] exI [of _ w] exI [of _ fs] exI [of _ bss] exI [of _ batchers]) simp
qed

section \<open>What flushing does\<close>

lemma FlushAsync_pending:
  assumes "batcher_ok b" and "FlushAsync b = (bs, rs, b')"
  shows "rs = b_pending b \<and> b_active b' = None \<and> b_pending b' = b_pending b"
proof -
  from FlushAsync_moved [OF assms] obtain b1 where m: "rs = b_pending b'" "b_active b' = None" "moved b b1" "scheduled b1 bs b'" by blast
  have "b' = b1\<lparr>b_queue := b_queue b', b_inFlight := b_inFlight b1 + int (length bs)\<rparr>" using m(4) unfolding scheduled_def by blast
  then have "b_pending b' = b_pending b1" by (metis copyBatcher.select_convs copyBatcher.surjective copyBatcher.update_convs(3,4))
  with m show ?thesis by (simp add: moved_def)
qed

lemma flush_batchers_ok:
  assumes "distinct names" and "\<forall>name \<in> set names. \<forall>b. batchers name = Some b \<longrightarrow> batcher_ok b"
    and "flush_batchers names batchers = (flushes, batches, batchers')"
  shows "flushes = map (\<lambda>name. (name, b_pending (the (batchers name)))) (filter (\<lambda>name. batchers name \<noteq> None) names)
    \<and> (\<forall>name b. name \<in> set names \<longrightarrow> batchers name = Some b \<longrightarrow>
         (\<exists>b'. batchers' name = Some b' \<and> b_active b' = None \<and> b_pending b' = b_pending b))
    \<and> (\<forall>name. name \<notin> set names \<or> batchers name = None \<longrightarrow> batchers' name = batchers name)"
  using assms
proof (induction names arbitrary: batchers flushes batches)
  case Nil
  then show ?case by simp
next
  case (Cons name names)
  show ?case
  proof (cases "batchers name")
    case None
    then show ?thesis using Cons.prems Cons.IH [of batchers flushes batches] by (auto split: prod.splits)
  next
    case (Some b)
    obtain dispatched waits b' where f: "FlushAsync b = (dispatched, waits, b')" by (metis surj_pair)
    obtain flushes1 batches1 where r: "flush_batchers names (batchers(name \<mapsto> b')) = (flushes1, batches1, batchers')"
      "flushes = (name, waits) # flushes1" using Cons.prems(3) Some f by (auto split: prod.splits)
    have n: "name \<notin> set names" using Cons.prems(1) by simp
    have p: "waits = b_pending b" "b_active b' = None" "b_pending b' = b_pending b"
      using FlushAsync_pending [OF _ f] Cons.prems(2) Some by auto
    have i: "flushes1 = map (\<lambda>x. (x, b_pending (the ((batchers(name \<mapsto> b')) x)))) (filter (\<lambda>x. (batchers(name \<mapsto> b')) x \<noteq> None) names)"
      "\<forall>x c. x \<in> set names \<longrightarrow> (batchers(name \<mapsto> b')) x = Some c \<longrightarrow> (\<exists>c'. batchers' x = Some c' \<and> b_active c' = None \<and> b_pending c' = b_pending c)"
      "\<forall>x. x \<notin> set names \<or> (batchers(name \<mapsto> b')) x = None \<longrightarrow> batchers' x = (batchers(name \<mapsto> b')) x"
      using Cons.IH [OF _ _ r(1)] Cons.prems(1,2) n by auto
    have "flushes1 = map (\<lambda>x. (x, b_pending (the (batchers x)))) (filter (\<lambda>x. batchers x \<noteq> None) names)"
      unfolding i(1) using n by (auto intro!: map_cong filter_cong split: if_splits)
    moreover have "\<exists>c'. batchers' x = Some c' \<and> b_active c' = None \<and> b_pending c' = b_pending c" if "x \<in> set names" "batchers x = Some c" for x c
    proof -
      have "(batchers(name \<mapsto> b')) x = Some c" using that n by auto
      then show ?thesis using i(2) that(1) by blast
    qed
    ultimately show ?thesis using i(3) r(2) p Some n by auto
  qed
qed

lemma flush_wait_Nil: "flush_wait results = [] \<longleftrightarrow> list_all (\<lambda>(name, err, ctxErr). err = None) results"
  by (induction results rule: flush_wait.induct) (auto split: option.splits)

text \<open>
  C29: a flush of the store is a barrier for every replica set. In the order of the mesh it flushes the
  batcher of every set that has one: no such batcher keeps an active batch, and the future of the flush
  waits for all requests that were pending. It returns nil only if the wait on every one of these
  futures returned nil, although the loop stops early once the context is cancelled.
\<close>

theorem FlushCopyAccounts_barrier:
  assumes "mesh_wf (ms_mesh s) h" and "\<forall>name b. bs_batchers batch name = Some b \<longrightarrow> batcher_ok b"
    and "names = filter (\<lambda>name. bs_batchers batch name \<noteq> None) (map (rs_name_at h) (ReplicaSets (ms_mesh s)))"
  shows "\<exists>batches batchers. FlushCopyAccounts s h batch =
      (map (\<lambda>name. (name, b_pending (the (bs_batchers batch name)))) names, batches, batch\<lparr>bs_batchers := batchers\<rparr>)
    \<and> (\<forall>name \<in> set names. \<exists>b. batchers name = Some b \<and> b_active b = None \<and> b_pending b = b_pending (the (bs_batchers batch name)))
    \<and> (\<forall>results. map fst results = names \<longrightarrow>
         (errors_join (flush_wait results) = None \<longleftrightarrow> list_all (\<lambda>(name, err, ctxErr). err = None) results))"
proof -
  let ?names = "map (rs_name_at h) (ReplicaSets (ms_mesh s))"
  have d: "distinct ?names" using assms(1) by (simp add: mesh_wf_def distinct_map)
  obtain flushes batches batchers where f: "flush_batchers ?names (bs_batchers batch) = (flushes, batches, batchers)" by (metis surj_pair)
  have o: "\<forall>name \<in> set ?names. \<forall>b. bs_batchers batch name = Some b \<longrightarrow> batcher_ok b" using assms(2) by blast
  note k = flush_batchers_ok [OF d o f]
  have "FlushCopyAccounts s h batch = (flushes, batches, batch\<lparr>bs_batchers := batchers\<rparr>)" by (simp add: FlushCopyAccounts_def f)
  then show ?thesis using k unfolding assms(3) [symmetric]
    by (intro exI [of _ batches] exI [of _ batchers]) (auto simp: flush_wait_Nil assms(3))
qed

text \<open>The pair of sets where the batcher of the first has an open batch with one row of a pending request.\<close>

definition busy_batch :: "(tel_context, copyAccountsParams) copyAccountsBatchState" where
  "busy_batch = pair_batch\<lparr>bs_batchers := (bs_batchers pair_batch)(''a'' \<mapsto>
     (the (bs_batchers pair_batch ''a''))\<lparr>b_active := Some \<lparr>cb_addr = 0, cb_ctx = sample_context,
          cb_rows = [\<lparr>cap_ID = 11, cap_TenantID = 0, cap_DisplayName = ''x''\<rparr>], cb_requests = [0], cb_timer = True,
          cb_queuedAt = 3, cb_reason = NoReason\<rparr>,
        b_pending := {0}, b_requests := [(newCopyRequest 1)\<lparr>rq_pendingParts := 1\<rparr>], b_allocated := 1\<rparr>)\<rparr>"

lemma busy_batch_ok: "\<forall>name b. bs_batchers busy_batch name = Some b \<longrightarrow> batcher_ok b"
  by (auto simp: busy_batch_def pair_batch_def NewCopyBatcher_def Validate_def sample_limits_def batcher_ok_def config_ok_def
      active_ok_def normalized_def split: if_splits)

lemma busy_batch_pending:
  "b_pending (the (bs_batchers busy_batch ''a'')) = {0}" "b_pending (the (bs_batchers busy_batch ''b'')) = {}"
  "bs_batchers busy_batch ''a'' \<noteq> None" "bs_batchers busy_batch ''b'' \<noteq> None"
  by (simp_all add: busy_batch_def pair_batch_def NewCopyBatcher_def Validate_def sample_limits_def)

theorem FlushCopyAccounts_barrier_witness:
  "\<exists>batches batchers. FlushCopyAccounts pair_store pair_heap busy_batch =
      ([(''a'', {0}), (''b'', {})], batches, busy_batch\<lparr>bs_batchers := batchers\<rparr>)
    \<and> (\<exists>b. batchers ''a'' = Some b \<and> b_active b = None \<and> b_pending b = {0})
    \<and> errors_join (flush_wait [(''a'', Some (Foreign 1), Some (Foreign 1)), (''b'', None, None)]) \<noteq> None"
proof -
  have m: "[''a'', ''b''] = filter (\<lambda>name. bs_batchers busy_batch name \<noteq> None) (map (rs_name_at pair_heap) (ReplicaSets (ms_mesh pair_store)))"
    using pair_sets busy_batch_pending(3,4) by (simp add: pair_store_def ReplicaSets_def)
  from FlushCopyAccounts_barrier [OF pair_wf busy_batch_ok m] obtain batches batchers where w:
    "FlushCopyAccounts pair_store pair_heap busy_batch =
      (map (\<lambda>name. (name, b_pending (the (bs_batchers busy_batch name)))) [''a'', ''b''], batches, busy_batch\<lparr>bs_batchers := batchers\<rparr>)"
    "\<forall>name \<in> set [''a'', ''b'']. \<exists>b. batchers name = Some b \<and> b_active b = None \<and> b_pending b = b_pending (the (bs_batchers busy_batch name))"
    "\<forall>results. map fst results = [''a'', ''b''] \<longrightarrow>
         (errors_join (flush_wait results) = None \<longleftrightarrow> list_all (\<lambda>(name, err, ctxErr). err = None) results)" by blast
  from w(3) have "errors_join (flush_wait [(''a'', Some (Foreign 1), Some (Foreign 1)), (''b'', None, None)]) \<noteq> None"
    by (simp del: flush_wait.simps errors_join_None_iff)
  with w(1,2) show ?thesis by (intro exI [of _ batches] exI [of _ batchers]) (auto simp: busy_batch_pending)
qed

end
