(* ===== verification/Topology.thy ===== *)
theory Topology
  imports Mesh_Builder
begin

text \<open>
  \<^verbatim>\<open>topology.go\<close>: the options of \<^verbatim>\<open>OpenMesh\<close>, the validation of a configuration, the opening of the
  database nodes and the construction of the mesh from them.
\<close>

section \<open>Configuration\<close>

record replicaSetSpec =
  spec_name :: string
  spec_primaryDSN :: string
  spec_replicaDSNs :: "string list"

record virtualShardMapping =
  vm_virtualShardIndexes :: "uint64 list"
  vm_mainReplicaSet :: string
  vm_mirrorReplicaSets :: "string list"

record ('tp, 'mp, 'lg) openMeshConfig =
  c_replicaSets :: "replicaSetSpec list"
  c_virtualShardCount :: uint64
  c_mappings :: "virtualShardMapping list"
  c_tracerProvider :: "'tp option"
  c_meterProvider :: "'mp option"
  c_logger :: "'lg option"

type_synonym ('tp, 'mp, 'lg) openMeshOption =
  "('tp, 'mp, 'lg) openMeshConfig \<Rightarrow> ('tp, 'mp, 'lg) openMeshConfig"

definition WithReplicaSet :: "string \<Rightarrow> string \<Rightarrow> string list \<Rightarrow> ('tp, 'mp, 'lg) openMeshOption" where
  "WithReplicaSet name primaryDSN replicaDSNs config =
     config\<lparr>c_replicaSets := c_replicaSets config @
       [\<lparr>spec_name = name, spec_primaryDSN = primaryDSN, spec_replicaDSNs = replicaDSNs\<rparr>]\<rparr>"

definition WithVirtualShardMapping ::
  "string \<Rightarrow> uint64 list \<Rightarrow> string list \<Rightarrow> ('tp, 'mp, 'lg) openMeshOption" where
  "WithVirtualShardMapping mainReplicaSet indexes mirrorReplicaSets config =
     config\<lparr>c_mappings := c_mappings config @
       [\<lparr>vm_virtualShardIndexes = indexes, vm_mainReplicaSet = mainReplicaSet,
         vm_mirrorReplicaSets = mirrorReplicaSets\<rparr>]\<rparr>"

definition OptTracerProvider :: "'tp option \<Rightarrow> ('tp, 'mp, 'lg) openMeshOption" where
  "OptTracerProvider provider config = config\<lparr>c_tracerProvider := provider\<rparr>"

definition OptMeterProvider :: "'mp option \<Rightarrow> ('tp, 'mp, 'lg) openMeshOption" where
  "OptMeterProvider provider config = config\<lparr>c_meterProvider := provider\<rparr>"

definition OptLogger :: "'lg option \<Rightarrow> ('tp, 'mp, 'lg) openMeshOption" where
  "OptLogger lg config = config\<lparr>c_logger := lg\<rparr>"

text \<open>
  \<^verbatim>\<open>VirtualShardRange\<close>: the loop counts up with a \<^verbatim>\<open>uint64\<close>. It stops because the counter stays
  below \<open>to\<close> before each increment, so the increment never wraps.
\<close>

function range_loop :: "uint64 \<Rightarrow> uint64 \<Rightarrow> uint64 list" where
  "range_loop index stop = (if index < stop then index # range_loop (index + 1) stop else [])"
  by pat_completeness auto
termination
  by (relation "measure (\<lambda>(index, stop). unat stop - unat index)")
    (auto simp: unat_plus_one word_less_nat_alt)

declare range_loop.simps [simp del]

definition VirtualShardRange :: "uint64 \<Rightarrow> uint64 \<Rightarrow> uint64 list" where
  "VirtualShardRange from to = (if to \<le> from then [] else range_loop from to)"

section \<open>Validation\<close>

definition validate_spec :: "string set \<Rightarrow> replicaSetSpec \<Rightarrow> string set result" where
  "validate_spec names spec =
     and_then (check (TrimSpace (spec_name spec) = []) (Sentinel ErrEmptyReplicaSetName)) (\<lambda>_.
     and_then (check (spec_name spec \<in> names)
       (Wrap ''%w: %q'' [ArgStr (spec_name spec)] (Sentinel ErrDuplicateReplicaSet))) (\<lambda>_.
     and_then (check (TrimSpace (spec_primaryDSN spec) = [])
       (Wrap ''%w: primary of %q'' [ArgStr (spec_name spec)] (Sentinel ErrEmptyDSN))) (\<lambda>_.
     and_then (foldM (\<lambda>_ (index, dsn). check (TrimSpace dsn = [])
         (Wrap ''%w: replica %d of %q'' [ArgNat index, ArgStr (spec_name spec)] (Sentinel ErrEmptyDSN)))
       () (enumerate 0 (spec_replicaDSNs spec))) (\<lambda>_.
     Inr (insert (spec_name spec) names)))))"

definition validate_mirror ::
  "string set \<Rightarrow> string \<Rightarrow> string set \<Rightarrow> string \<Rightarrow> string set result" where
  "validate_mirror names mainReplicaSet seenMirrors mirror =
     and_then (check (mirror \<notin> names)
       (Wrap ''%w: mirror %q'' [ArgStr mirror] (Sentinel ErrUnknownReplicaSet))) (\<lambda>_.
     and_then (check (mirror = mainReplicaSet)
       (Wrap ''%w: replica set %q cannot mirror itself'' [ArgStr mirror] (Sentinel ErrMirrorConfiguration))) (\<lambda>_.
     and_then (check (mirror \<in> seenMirrors)
       (Wrap ''%w: duplicate mirror %q'' [ArgStr mirror] (Sentinel ErrMirrorConfiguration))) (\<lambda>_.
     Inr (insert mirror seenMirrors))))"

definition validate_index :: "uint64 \<Rightarrow> bool list \<Rightarrow> uint64 \<Rightarrow> bool list result" where
  "validate_index n mapped index =
     and_then (check (index \<ge> n)
       (Wrap ''%w: %d'' [ArgNat (unat index)] (Sentinel ErrVirtualShardOutOfRange))) (\<lambda>_.
     and_then (check (mapped ! unat index)
       (Wrap ''%w: %d'' [ArgNat (unat index)] (Sentinel ErrVirtualShardAlreadyMapped))) (\<lambda>_.
     Inr (mapped[unat index := True])))"

definition mirror_configuration :: "string list \<Rightarrow> string" where
  "mirror_configuration mirrors = join_with [CHR 0x00] mirrors"

definition validate_mapping ::
  "string set \<Rightarrow> uint64 \<Rightarrow> bool list \<times> (string \<rightharpoonup> string) \<Rightarrow> virtualShardMapping \<Rightarrow>
   (bool list \<times> (string \<rightharpoonup> string)) result" where
  "validate_mapping names n st mapping =
     (case st of (mapped, mirrorConfigurations) \<Rightarrow>
     and_then (check (vm_mainReplicaSet mapping \<notin> names)
       (Wrap ''%w: main %q'' [ArgStr (vm_mainReplicaSet mapping)] (Sentinel ErrUnknownReplicaSet))) (\<lambda>_.
     and_then (foldM (validate_mirror names (vm_mainReplicaSet mapping)) {} (vm_mirrorReplicaSets mapping)) (\<lambda>_.
     let configuration = mirror_configuration (vm_mirrorReplicaSets mapping) in
     and_then (check (case mirrorConfigurations (vm_mainReplicaSet mapping) of
                        None \<Rightarrow> False | Some previous \<Rightarrow> previous \<noteq> configuration)
       (Wrap ''%w for %q'' [ArgStr (vm_mainReplicaSet mapping)] (Sentinel ErrMirrorConfiguration))) (\<lambda>_.
     and_then (foldM (validate_index n) mapped (vm_virtualShardIndexes mapping)) (\<lambda>mapped'.
     Inr (mapped', mirrorConfigurations(vm_mainReplicaSet mapping \<mapsto> configuration)))))))"

text \<open>\<open>openNil\<close> and \<open>hashNil\<close> say whether the opener and the hasher are nil.\<close>

definition validateMeshConfig ::
  "('tp, 'mp, 'lg) openMeshConfig \<Rightarrow> bool \<Rightarrow> bool \<Rightarrow> unit result" where
  "validateMeshConfig config openNil hashNil =
     and_then (check (c_replicaSets config = []) (Sentinel ErrNoReplicaSets)) (\<lambda>_.
     and_then (check openNil (Sentinel ErrNilNodeOpener)) (\<lambda>_.
     and_then (check hashNil (Sentinel ErrNilShardHasher)) (\<lambda>_.
     and_then (check (c_virtualShardCount config = 0) (Sentinel ErrNoVirtualShards)) (\<lambda>_.
     and_then (foldM validate_spec {} (c_replicaSets config)) (\<lambda>names.
     and_then (foldM (validate_mapping names (c_virtualShardCount config))
       (replicate (unat (c_virtualShardCount config)) False, Map.empty) (c_mappings config))
       (\<lambda>(mapped, _).
     foldM (\<lambda>_ (index, ok). check (\<not> ok)
         (Wrap ''%w: %d'' [ArgNat index] (Sentinel ErrVirtualShardNotMapped)))
       () (enumerate 0 mapped)))))))"

section \<open>Opening\<close>

text \<open>
  \<open>openNode i dsn\<close> is the answer of the \<open>i\<close>-th call of the opener. A run keeps the DSNs it
  has opened, in order, so that the number of the next call is known.
\<close>

type_synonym ('r, 'w) nodeOpener = "nat \<Rightarrow> string \<Rightarrow> ('r, 'w) node result"

fun open_replicas ::
  "('r, 'w) nodeOpener \<Rightarrow> string \<Rightarrow> string list \<Rightarrow> ('r, 'w) node list \<Rightarrow> string list \<Rightarrow>
   string list \<times> ('r, 'w) node list result" where
  "open_replicas openNode name opened nodes [] = (opened, Inr nodes)"
| "open_replicas openNode name opened nodes (dsn # dsns) =
     (case openNode (length opened) dsn of
        Inl e \<Rightarrow> (opened @ [dsn],
                  Inl (Wrap ''open replica node for replica set %q: %w'' [ArgStr name] e))
      | Inr node \<Rightarrow> open_replicas openNode name (opened @ [dsn]) (nodes @ [node]) dsns)"

definition open_set ::
  "('r, 'w) nodeOpener \<Rightarrow> string list \<Rightarrow> replicaSetSpec \<Rightarrow>
   string list \<times> (('r, 'w) node \<times> ('r, 'w) node list) result" where
  "open_set openNode opened spec =
     (case openNode (length opened) (spec_primaryDSN spec) of
        Inl e \<Rightarrow> (opened @ [spec_primaryDSN spec],
                  Inl (Wrap ''open primary node for replica set %q: %w'' [ArgStr (spec_name spec)] e))
      | Inr primary \<Rightarrow>
          (case open_replicas openNode (spec_name spec) (opened @ [spec_primaryDSN spec]) []
                  (spec_replicaDSNs spec) of
             (opened', Inl e) \<Rightarrow> (opened', Inl e)
           | (opened', Inr replicas) \<Rightarrow> (opened', Inr (primary, replicas))))"

fun open_sets ::
  "('r, 'w) nodeOpener \<Rightarrow> string list \<Rightarrow> ('r, 'w) mesh_heap \<Rightarrow> (string \<rightharpoonup> rs_ptr) \<Rightarrow>
   replicaSetSpec list \<Rightarrow> string list \<times> (('r, 'w) mesh_heap \<times> (string \<rightharpoonup> rs_ptr)) result" where
  "open_sets openNode opened h sets [] = (opened, Inr (h, sets))"
| "open_sets openNode opened h sets (spec # specs) =
     (case open_set openNode opened spec of
        (opened', Inl e) \<Rightarrow> (opened', Inl e)
      | (opened', Inr (primary, replicas)) \<Rightarrow>
          (case NewReplicaSet (spec_name spec) primary replicas h of
             (p, h') \<Rightarrow> open_sets openNode opened' h' (sets(spec_name spec \<mapsto> p)) specs))"

text \<open>
  Attaching the write mirrors. The lookups of the map give a nil pointer for an unknown name and
  the method call on it panics, which is \<open>None\<close>.
\<close>

definition mirror_writers ::
  "('r, 'w) mesh_heap \<Rightarrow> (string \<rightharpoonup> rs_ptr) \<Rightarrow> string list \<Rightarrow> 'w list option" where
  "mirror_writers h sets names =
     those (map (\<lambda>name. Option.bind (sets name) (\<lambda>p. primaryWriter p h)) names)"

definition configure_mapping ::
  "(string \<rightharpoonup> rs_ptr) \<Rightarrow> ('r, 'w) mesh_heap \<times> (string \<rightharpoonup> rs_ptr) \<Rightarrow> virtualShardMapping \<Rightarrow>
   (('r, 'w) mesh_heap \<times> (string \<rightharpoonup> rs_ptr)) option" where
  "configure_mapping sets st mapping =
     (case st of (h, configured) \<Rightarrow>
        if configured (vm_mainReplicaSet mapping) \<noteq> None then Some st
        else Option.bind (mirror_writers h sets (vm_mirrorReplicaSets mapping)) (\<lambda>mirrors.
             Option.bind (sets (vm_mainReplicaSet mapping)) (\<lambda>mainp.
             Option.bind (WithWriteMirrors mainp mirrors h) (\<lambda>(p, h').
             Some (h', configured(vm_mainReplicaSet mapping \<mapsto> p))))))"

fun configure_mappings ::
  "(string \<rightharpoonup> rs_ptr) \<Rightarrow> ('r, 'w) mesh_heap \<times> (string \<rightharpoonup> rs_ptr) \<Rightarrow> virtualShardMapping list \<Rightarrow>
   (('r, 'w) mesh_heap \<times> (string \<rightharpoonup> rs_ptr)) option" where
  "configure_mappings sets st [] = Some st"
| "configure_mappings sets st (m # ms) =
     Option.bind (configure_mapping sets st m) (\<lambda>st'. configure_mappings sets st' ms)"

definition map_shards ::
  "(string \<rightharpoonup> rs_ptr) \<Rightarrow> virtualShardMapping list \<Rightarrow> ('k, 'tp, 'mp, 'lg) meshBuilder \<Rightarrow>
   ('k, 'tp, 'mp, 'lg) meshBuilder" where
  "map_shards configured mappings b =
     foldl (\<lambda>b mapping. foldl (\<lambda>b index. MapVirtualShard index (configured (vm_mainReplicaSet mapping)) b)
       b (vm_virtualShardIndexes mapping)) b mappings"

definition mesh_builder_for ::
  "('mp providerRef \<Rightarrow> string \<Rightarrow> go_error option) \<Rightarrow> ('k \<Rightarrow> uint64) option \<Rightarrow>
   ('tp, 'mp, 'lg) openMeshConfig \<Rightarrow> ('k, 'tp, 'mp, 'lg) meshBuilder" where
  "mesh_builder_for E shardHasher config =
     WithLogger (c_logger config) (WithMeterProvider E (c_meterProvider config)
       (WithTracerProvider (c_tracerProvider config) (WithShardHasher shardHasher
         (NewMeshBuilder E (c_virtualShardCount config)))))"

text \<open>The options run in order; a nil option stops with its index.\<close>

definition apply_options ::
  "('tp, 'mp, 'lg) openMeshOption option list \<Rightarrow> ('tp, 'mp, 'lg) openMeshConfig \<Rightarrow>
   ('tp, 'mp, 'lg) openMeshConfig result" where
  "apply_options options config =
     foldM (\<lambda>c (index, opt). case opt of
              None \<Rightarrow> Inl (Errorf ''pgmesh: mesh option %d is nil'' [ArgNat index])
            | Some f \<Rightarrow> Inr (f c)) config (enumerate 0 options)"

definition initial_config :: "uint64 \<Rightarrow> ('tp, 'mp, 'lg) openMeshConfig" where
  "initial_config n = \<lparr>c_replicaSets = [], c_virtualShardCount = n, c_mappings = [],
     c_tracerProvider = None, c_meterProvider = None, c_logger = None\<rparr>"

text \<open>
  The outcome of \<^verbatim>\<open>OpenMesh\<close>: an error, a panic, or a mesh and the heap of its replica sets.
  The first component is the list of DSNs passed to the opener.
\<close>

datatype 'a outcome = Failed go_error | Panicked | Returned 'a

definition OpenMesh ::
  "('mp providerRef \<Rightarrow> string \<Rightarrow> go_error option) \<Rightarrow> uint64 \<Rightarrow> ('r, 'w) nodeOpener option \<Rightarrow>
   ('k \<Rightarrow> uint64) option \<Rightarrow> ('tp, 'mp, 'lg) openMeshOption option list \<Rightarrow>
   string list \<times> (('k, 'tp, 'mp, 'lg) mesh \<times> ('r, 'w) mesh_heap) outcome" where
  "OpenMesh E n openNode shardHasher options =
     (case apply_options options (initial_config n) of Inl e \<Rightarrow> ([], Failed e)
      | Inr config \<Rightarrow>
     (case validateMeshConfig config (openNode = None) (shardHasher = None) of Inl e \<Rightarrow> ([], Failed e)
      | Inr _ \<Rightarrow>
     (case open_sets (the openNode) [] empty_heap Map.empty (c_replicaSets config) of
        (opened, Inl e) \<Rightarrow> (opened, Failed e)
      | (opened, Inr (h, sets)) \<Rightarrow>
     (case configure_mappings sets (h, Map.empty) (c_mappings config) of
        None \<Rightarrow> (opened, Panicked)
      | Some (h', configured) \<Rightarrow>
     (case Build h' (map_shards configured (c_mappings config) (mesh_builder_for E shardHasher config)) of
        Inl e \<Rightarrow> (opened, Failed e)
      | Inr m \<Rightarrow> (opened, Returned (m, h')))))))"

section \<open>Ranges of virtual shards\<close>

lemma range_loop_unat: "map unat (range_loop a b) = [unat a..<unat b]"
proof (induction a b rule: range_loop.induct)
  case (1 index stop)
  show ?case
  proof (cases "index < stop")
    case True
    then show ?thesis
      using 1 unat_plus_one [OF True]
      by (simp add: range_loop.simps [of index] upt_conv_Cons word_less_nat_alt)
  next
    case False
    then show ?thesis by (simp add: range_loop.simps [of index] word_less_nat_alt)
  qed
qed

lemma VirtualShardRange_unat: "map unat (VirtualShardRange a b) = [unat a..<unat b]"
  by (simp add: VirtualShardRange_def range_loop_unat word_le_nat_alt)

section \<open>What validation accepts\<close>

definition spec_ok :: "replicaSetSpec \<Rightarrow> bool" where
  "spec_ok spec \<longleftrightarrow> TrimSpace (spec_name spec) \<noteq> [] \<and> TrimSpace (spec_primaryDSN spec) \<noteq> [] \<and>
     (\<forall>dsn \<in> set (spec_replicaDSNs spec). TrimSpace dsn \<noteq> [])"

definition mapping_ok :: "string set \<Rightarrow> virtualShardMapping \<Rightarrow> bool" where
  "mapping_ok names m \<longleftrightarrow> vm_mainReplicaSet m \<in> names \<and> set (vm_mirrorReplicaSets m) \<subseteq> names \<and>
     vm_mainReplicaSet m \<notin> set (vm_mirrorReplicaSets m) \<and> distinct (vm_mirrorReplicaSets m)"

definition mirrors_agree :: "virtualShardMapping list \<Rightarrow> bool" where
  "mirrors_agree ms \<longleftrightarrow> (\<forall>m \<in> set ms. \<forall>m' \<in> set ms. vm_mainReplicaSet m = vm_mainReplicaSet m' \<longrightarrow>
     mirror_configuration (vm_mirrorReplicaSets m) = mirror_configuration (vm_mirrorReplicaSets m'))"

definition all_indexes :: "virtualShardMapping list \<Rightarrow> uint64 list" where
  "all_indexes ms = concat (map vm_virtualShardIndexes ms)"

text \<open>
  A configuration that can be served: named sets with usable DSNs, mappings between known sets
  with one mirror configuration per main set, and every virtual shard mapped exactly once.
\<close>

definition valid_config :: "('tp, 'mp, 'lg) openMeshConfig \<Rightarrow> bool" where
  "valid_config c \<longleftrightarrow>
     c_replicaSets c \<noteq> [] \<and> c_virtualShardCount c \<noteq> 0 \<and>
     list_all spec_ok (c_replicaSets c) \<and> distinct (map spec_name (c_replicaSets c)) \<and>
     list_all (mapping_ok (spec_name ` set (c_replicaSets c))) (c_mappings c) \<and>
     mirrors_agree (c_mappings c) \<and>
     distinct (all_indexes (c_mappings c)) \<and>
     set (all_indexes (c_mappings c)) = {i. i < c_virtualShardCount c}"

lemma validate_spec_Inr [result_simps]:
  "validate_spec names spec = Inr names' \<longleftrightarrow>
     spec_ok spec \<and> spec_name spec \<notin> names \<and> names' = insert (spec_name spec) names"
  by (auto simp: validate_spec_def spec_ok_def result_simps foldM_check_enumerate all_set_conv_all_nth)

lemma validate_specs_Inr:
  "foldM validate_spec names specs = Inr names' \<longleftrightarrow>
     list_all spec_ok specs \<and> distinct (map spec_name specs) \<and> spec_name ` set specs \<inter> names = {} \<and>
     names' = names \<union> spec_name ` set specs"
  by (induction specs arbitrary: names) (auto simp: result_simps)

lemma validate_mirrors_Inr:
  "foldM (validate_mirror names main) seen ms = Inr seen' \<longleftrightarrow>
     set ms \<subseteq> names \<and> main \<notin> set ms \<and> distinct ms \<and> set ms \<inter> seen = {} \<and> seen' = seen \<union> set ms"
  by (induction ms arbitrary: seen) (auto simp: validate_mirror_def result_simps)

text \<open>The table of mapped shards, as the set of the shards it marks.\<close>

definition marks :: "uint64 \<Rightarrow> uint64 set \<Rightarrow> bool list" where
  "marks n S = map (\<lambda>i. of_nat i \<in> S) [0..<unat n]"

lemma length_marks [simp]: "length (marks n S) = unat n"
  by (simp add: marks_def)

lemma nth_marks [simp]: "i < n \<Longrightarrow> marks n S ! unat i \<longleftrightarrow> i \<in> S"
  by (simp add: marks_def word_less_nat_alt)

lemma marks_empty [simp]: "marks n {} = replicate (unat n) False"
  by (simp add: marks_def map_replicate_const)

lemma marks_insert: "i < n \<Longrightarrow> (marks n S)[unat i := True] = marks n (insert i S)"
proof (rule nth_equalityI)
  fix j assume "j < length ((marks n S)[unat i := True])"
  then have j: "j < unat n" by simp
  moreover have "unat n < 2 ^ LENGTH(64)" by (rule unsigned_less)
  ultimately have "unat (of_nat j :: uint64) = j" by (simp add: unat_of_nat)
  with j show "(marks n S)[unat i := True] ! j = marks n (insert i S) ! j"
    by (cases "j = unat i") (auto simp: marks_def)
qed simp

lemma validate_indexes_Inr:
  "foldM (validate_index n) (marks n S) is = Inr mapped \<longleftrightarrow>
     set is \<subseteq> {i. i < n} \<and> distinct is \<and> set is \<inter> S = {} \<and> mapped = marks n (S \<union> set is)"
proof (induction "is" arbitrary: S)
  case Nil
  then show ?case by auto
next
  case (Cons i "is")
  have "validate_index n (marks n S) i = Inr m \<longleftrightarrow> i < n \<and> i \<notin> S \<and> m = marks n (insert i S)" for m
    by (auto simp: validate_index_def result_simps marks_insert not_le)
  then show ?case using Cons.IH [of "insert i S"] by (auto simp: result_simps)
qed

definition configuration_of :: "virtualShardMapping \<Rightarrow> string" where
  "configuration_of m = mirror_configuration (vm_mirrorReplicaSets m)"

lemma validate_mapping_Inr [result_simps]:
  "validate_mapping names n (marks n S, mc) m = Inr st \<longleftrightarrow>
     mapping_ok names m \<and> mc (vm_mainReplicaSet m) \<in> {None, Some (configuration_of m)} \<and>
     set (vm_virtualShardIndexes m) \<subseteq> {i. i < n} \<and> distinct (vm_virtualShardIndexes m) \<and>
     set (vm_virtualShardIndexes m) \<inter> S = {} \<and>
     st = (marks n (S \<union> set (vm_virtualShardIndexes m)), mc(vm_mainReplicaSet m \<mapsto> configuration_of m))"
  by (cases "mc (vm_mainReplicaSet m)")
    (auto simp: validate_mapping_def result_simps Let_def validate_mirrors_Inr validate_indexes_Inr
      mapping_ok_def configuration_of_def)

lemma mirrors_agree_Cons:
  "mirrors_agree (m # ms) \<longleftrightarrow> mirrors_agree ms \<and>
     (\<forall>x \<in> set ms. vm_mainReplicaSet x = vm_mainReplicaSet m \<longrightarrow> configuration_of x = configuration_of m)"
  unfolding mirrors_agree_def configuration_of_def list.set(2) by (metis insert_iff)

text \<open>The table of mirror configurations admits a mapping.\<close>

definition admits :: "(string \<rightharpoonup> string) \<Rightarrow> virtualShardMapping \<Rightarrow> bool" where
  "admits mc m \<longleftrightarrow> mc (vm_mainReplicaSet m) \<in> {None, Some (configuration_of m)}"

lemma admits_update:
  assumes "admits mc m"
  shows "admits (mc(vm_mainReplicaSet m \<mapsto> configuration_of m)) x \<longleftrightarrow>
    (vm_mainReplicaSet x = vm_mainReplicaSet m \<longrightarrow> configuration_of x = configuration_of m) \<and> admits mc x"
  using assms by (cases "vm_mainReplicaSet x = vm_mainReplicaSet m") (auto simp: admits_def)

lemma mirrors_admitted_Cons:
  "mirrors_agree (m # ms) \<and> (\<forall>x \<in> set (m # ms). admits mc x) \<longleftrightarrow>
   admits mc m \<and> mirrors_agree ms \<and>
     (\<forall>x \<in> set ms. admits (mc(vm_mainReplicaSet m \<mapsto> configuration_of m)) x)"
proof (cases "admits mc m")
  case True
  show ?thesis unfolding mirrors_agree_Cons admits_update [OF True] using True by auto
next
  case False
  then show ?thesis by simp
qed

lemma all_indexes_Cons [simp]: "all_indexes (m # ms) = vm_virtualShardIndexes m @ all_indexes ms"
  and all_indexes_Nil [simp]: "all_indexes [] = []"
  by (simp_all add: all_indexes_def)

lemma validate_mappings_Inr:
  "(\<exists>mc'. foldM (validate_mapping names n) (marks n S, mc) ms = Inr (mapped, mc')) \<longleftrightarrow>
     list_all (mapping_ok names) ms \<and> (mirrors_agree ms \<and> (\<forall>m \<in> set ms. admits mc m)) \<and>
     set (all_indexes ms) \<subseteq> {i. i < n} \<and> distinct (all_indexes ms) \<and> set (all_indexes ms) \<inter> S = {} \<and>
     mapped = marks n (S \<union> set (all_indexes ms))"
proof (induction ms arbitrary: S mc)
  case Nil
  then show ?case by (auto simp: mirrors_agree_def)
next
  case (Cons m ms)
  let ?I = "set (vm_virtualShardIndexes m)"
  let ?mc = "mc(vm_mainReplicaSet m \<mapsto> configuration_of m)"
  have "(\<exists>mc'. foldM (validate_mapping names n) (marks n S, mc) (m # ms) = Inr (mapped, mc')) \<longleftrightarrow>
      (mapping_ok names m \<and> admits mc m \<and> ?I \<subseteq> {i. i < n} \<and> distinct (vm_virtualShardIndexes m) \<and> ?I \<inter> S = {}) \<and>
      (\<exists>mc'. foldM (validate_mapping names n) (marks n (S \<union> ?I), ?mc) ms = Inr (mapped, mc'))"
    unfolding foldM.simps and_then_eq_Inr validate_mapping_Inr admits_def by blast
  then show ?case
    unfolding Cons.IH mirrors_admitted_Cons by (auto simp: Un_assoc)
qed

lemma marks_all: "(\<forall>j < unat n. marks n S ! j) \<longleftrightarrow> {i. i < n} \<subseteq> S"
proof
  assume l: "\<forall>j < unat n. marks n S ! j"
  show "{i. i < n} \<subseteq> S"
  proof
    fix i assume "i \<in> {i. i < n}"
    then have "i < n" by simp
    moreover have "marks n S ! unat i" using l word_less_nat_alt calculation by blast
    ultimately show "i \<in> S" by simp
  qed
next
  assume r: "{i. i < n} \<subseteq> S"
  show "\<forall>j < unat n. marks n S ! j"
  proof (intro allI impI)
    fix j assume j: "j < unat n"
    moreover have "unat n < 2 ^ LENGTH(64)" by (rule unsigned_less)
    ultimately have "(of_nat j :: uint64) < n" by (simp add: word_less_nat_alt unat_of_nat)
    with r j show "marks n S ! j" by (auto simp: marks_def)
  qed
qed

lemma validateMeshConfig_iff:
  "validateMeshConfig c openNil hashNil = Inr () \<longleftrightarrow> \<not> openNil \<and> \<not> hashNil \<and> valid_config c"
proof -
  let ?n = "c_virtualShardCount c" and ?names = "spec_name ` set (c_replicaSets c)"
  have "(\<exists>mapped mc. foldM (validate_mapping ?names ?n) (replicate (unat ?n) False, Map.empty) (c_mappings c)
            = Inr (mapped, mc) \<and> (\<forall>j < length mapped. mapped ! j)) \<longleftrightarrow>
      list_all (mapping_ok ?names) (c_mappings c) \<and> mirrors_agree (c_mappings c) \<and>
      distinct (all_indexes (c_mappings c)) \<and> set (all_indexes (c_mappings c)) = {i. i < ?n}"
    using validate_mappings_Inr [of ?names ?n "{}" Map.empty "c_mappings c"]
    by (auto simp: marks_all admits_def)
  then show ?thesis
    by (auto simp: validateMeshConfig_def valid_config_def result_simps validate_specs_Inr
        foldM_check_enumerate)
qed

section \<open>The calls of the opener\<close>

definition spec_dsns :: "replicaSetSpec \<Rightarrow> string list" where
  "spec_dsns spec = spec_primaryDSN spec # spec_replicaDSNs spec"

definition all_dsns :: "replicaSetSpec list \<Rightarrow> string list" where
  "all_dsns specs = concat (map spec_dsns specs)"

text \<open>The calls made for a list of DSNs: up to and including the first that fails.\<close>

fun calls :: "('r, 'w) nodeOpener \<Rightarrow> nat \<Rightarrow> string list \<Rightarrow> string list" where
  "calls openNode k [] = []"
| "calls openNode k (dsn # dsns) =
     dsn # (case openNode k dsn of Inl e \<Rightarrow> [] | Inr node \<Rightarrow> calls openNode (Suc k) dsns)"

fun opens :: "('r, 'w) nodeOpener \<Rightarrow> nat \<Rightarrow> string list \<Rightarrow> ('r, 'w) node list option" where
  "opens openNode k [] = Some []"
| "opens openNode k (dsn # dsns) =
     (case openNode k dsn of Inl e \<Rightarrow> None
      | Inr node \<Rightarrow> map_option ((#) node) (opens openNode (Suc k) dsns))"

lemma opens_append:
  "opens f k (xs @ ys) = (case opens f k xs of None \<Rightarrow> None
     | Some ns \<Rightarrow> map_option ((@) ns) (opens f (k + length xs) ys))"
proof (induction xs arbitrary: k)
  case Nil
  then show ?case by (cases "opens f k ys") simp_all
next
  case (Cons x xs)
  then show ?case
    by (cases "opens f (Suc (k + length xs)) ys") (auto split: sum.splits option.splits)
qed

lemma calls_append:
  "calls f k (xs @ ys) = (case opens f k xs of None \<Rightarrow> calls f k xs
     | Some ns \<Rightarrow> xs @ calls f (k + length xs) ys)"
  by (induction xs arbitrary: k) (auto split: sum.splits option.splits)

lemma length_opens: "opens f k xs = Some ns \<Longrightarrow> length ns = length xs"
  by (induction xs arbitrary: k ns) (auto split: sum.splits)

lemma calls_all: "opens f k xs = Some ns \<Longrightarrow> calls f k xs = xs"
  by (induction xs arbitrary: k ns) (auto split: sum.splits)

lemma open_replicas_calls:
  "fst (open_replicas f name opened nodes dsns) = opened @ calls f (length opened) dsns"
  "opens f (length opened) dsns = Some ns \<Longrightarrow> snd (open_replicas f name opened nodes dsns) = Inr (nodes @ ns)"
  "opens f (length opened) dsns = None \<Longrightarrow> \<exists>e. snd (open_replicas f name opened nodes dsns) = Inl e"
  by (induction f name opened nodes dsns arbitrary: ns rule: open_replicas.induct)
    (auto split: sum.splits)

lemma open_set_calls:
  "fst (open_set f opened spec) = opened @ calls f (length opened) (spec_dsns spec)"
  "opens f (length opened) (spec_dsns spec) = Some ns \<Longrightarrow> snd (open_set f opened spec) = Inr (hd ns, tl ns)"
  "opens f (length opened) (spec_dsns spec) = None \<Longrightarrow> \<exists>e. snd (open_set f opened spec) = Inl e"
proof -
  let ?d = "spec_primaryDSN spec"
  let ?r = "open_replicas f (spec_name spec) (opened @ [?d]) [] (spec_replicaDSNs spec)"
  obtain o' r where r: "?r = (o', r)" by (cases ?r)
  note c = open_replicas_calls [where f = f and name = "spec_name spec" and opened = "opened @ [?d]"
      and nodes = "[]" and dsns = "spec_replicaDSNs spec"]
  show "fst (open_set f opened spec) = opened @ calls f (length opened) (spec_dsns spec)"
    using c(1) r by (auto simp: open_set_def spec_dsns_def split: sum.splits)
  show "opens f (length opened) (spec_dsns spec) = Some ns \<Longrightarrow> snd (open_set f opened spec) = Inr (hd ns, tl ns)"
    using c(2) r by (auto simp: open_set_def spec_dsns_def split: sum.splits)
  show "opens f (length opened) (spec_dsns spec) = None \<Longrightarrow> \<exists>e. snd (open_set f opened spec) = Inl e"
    using c(3) r by (auto simp: open_set_def spec_dsns_def split: sum.splits)
qed

section \<open>The sets a run opens\<close>

definition extends :: "('r, 'w) mesh_heap \<Rightarrow> ('r, 'w) mesh_heap \<Rightarrow> bool" where
  "extends h h' \<longleftrightarrow> (\<forall>q s. rs_at h q = Some s \<longrightarrow> rs_at h' q = Some s)"

lemma extends_refl [simp]: "extends h h"
  by (simp add: extends_def)

lemma extends_trans: "extends h h1 \<Longrightarrow> extends h1 h2 \<Longrightarrow> extends h h2"
  by (simp add: extends_def)

lemma extendsD: "extends h h' \<Longrightarrow> rs_at h q = Some s \<Longrightarrow> rs_at h' q = Some s"
  by (simp add: extends_def)

text \<open>The set of a name, with the node opened for its primary and the given mirrors.\<close>

definition serves ::
  "('r, 'w) mesh_heap \<Rightarrow> (string \<rightharpoonup> rs_ptr) \<Rightarrow> string \<Rightarrow> ('r, 'w) node \<Rightarrow> 'w list \<Rightarrow> bool" where
  "serves h sets name primary mirrors \<longleftrightarrow>
     (\<exists>p s. sets name = Some p \<and> rs_at h p = Some s \<and> rs_name s = name \<and> rs_primary s = primary \<and>
        rs_writeMirrors s = mirrors)"

lemma serves_extends: "serves h sets x nd ms \<Longrightarrow> extends h h' \<Longrightarrow> serves h' sets x nd ms"
  unfolding serves_def extends_def by blast

text \<open>The node of each primary, out of the nodes of all calls in order.\<close>

fun primary_nodes :: "replicaSetSpec list \<Rightarrow> ('r, 'w) node list \<Rightarrow> (string \<times> ('r, 'w) node) list" where
  "primary_nodes [] ns = []"
| "primary_nodes (spec # specs) ns =
     (spec_name spec, hd ns) # primary_nodes specs (drop (length (spec_dsns spec)) ns)"

lemma map_fst_primary_nodes [simp]: "map fst (primary_nodes specs ns) = map spec_name specs"
  by (induction specs ns rule: primary_nodes.induct) simp_all

lemma all_dsns_Cons [simp]: "all_dsns (spec # specs) = spec_dsns spec @ all_dsns specs"
  and all_dsns_Nil [simp]: "all_dsns [] = []"
  by (simp_all add: all_dsns_def)

lemma NewReplicaSet_extends:
  "NewReplicaSet name primary replicas h = (p, h') \<Longrightarrow> extends h h'"
  by (auto simp: NewReplicaSet_def extends_def rs_at_def nth_append split: if_splits)

lemma open_sets_fails:
  assumes "opens f (length opened) (all_dsns specs) = None"
  shows "fst (open_sets f opened h sets specs) = opened @ calls f (length opened) (all_dsns specs) \<and>
    (\<exists>e. snd (open_sets f opened h sets specs) = Inl e)"
  using assms
proof (induction specs arbitrary: opened h sets)
  case Nil
  then show ?case by simp
next
  case (Cons spec specs)
  obtain o1 r where st: "open_set f opened spec = (o1, r)" by fastforce
  note o1 = open_set_calls(1) [of f opened spec, unfolded st fst_conv]
  show ?case
  proof (cases "opens f (length opened) (spec_dsns spec)")
    case None
    from open_set_calls(3) [OF None] st obtain e where "r = Inl e" by auto
    with None o1 st show ?thesis by (simp add: calls_append)
  next
    case (Some ns)
    from open_set_calls(2) [OF Some] st have r: "r = Inr (hd ns, tl ns)" by simp
    obtain p h1 where n: "NewReplicaSet (spec_name spec) (hd ns) (tl ns) h = (p, h1)" by fastforce
    from o1 Some have o1: "o1 = opened @ spec_dsns spec" by (simp add: calls_all)
    with Cons.prems Some have "opens f (length o1) (all_dsns specs) = None"
      by (simp add: opens_append)
    note IH = Cons.IH [OF this, of h1]
    define sets1 where "sets1 = sets(spec_name spec \<mapsto> p)"
    show ?thesis
      using IH [of sets1] o1 st r n Some by (simp add: calls_append flip: sets1_def)
  qed
qed

lemma open_sets_opens:
  assumes "opens f (length opened) (all_dsns specs) = Some ns" and "distinct (map spec_name specs)"
  shows "\<exists>h' sets'. open_sets f opened h sets specs = (opened @ all_dsns specs, Inr (h', sets'))
    \<and> extends h h' \<and> (\<forall>x. x \<notin> spec_name ` set specs \<longrightarrow> sets' x = sets x)
    \<and> (\<forall>(x, nd) \<in> set (primary_nodes specs ns). serves h' sets' x nd [])
    \<and> (heap_ok h \<longrightarrow> (\<forall>spec \<in> set specs. length (spec_replicaDSNs spec) < 2 ^ 63) \<longrightarrow> heap_ok h')"
  using assms
proof (induction specs arbitrary: opened h sets ns)
  case Nil
  then show ?case by simp
next
  case (Cons spec specs)
  let ?x = "spec_name spec"
  from Cons.prems(1) obtain ns1 ns2 where o: "opens f (length opened) (spec_dsns spec) = Some ns1"
      "opens f (length (opened @ spec_dsns spec)) (all_dsns specs) = Some ns2" "ns = ns1 @ ns2"
    by (auto simp: opens_append split: option.splits)
  have len: "length ns1 = length (spec_dsns spec)" using length_opens [OF o(1)] .
  have st: "open_set f opened spec = (opened @ spec_dsns spec, Inr (hd ns1, tl ns1))"
    using open_set_calls(1) [of f opened spec] open_set_calls(2) [OF o(1)] calls_all [OF o(1)]
    by (simp add: prod_eq_iff)
  obtain p h1 where n: "NewReplicaSet ?x (hd ns1) (tl ns1) h = (p, h1)" by fastforce
  define sets1 where "sets1 = sets(?x \<mapsto> p)"
  have "distinct (map spec_name specs)" using Cons.prems(2) by simp
  from Cons.IH [OF o(2) this, of h1 sets1] obtain h' sets' where
    IH: "open_sets f (opened @ spec_dsns spec) h1 sets1 specs =
           ((opened @ spec_dsns spec) @ all_dsns specs, Inr (h', sets'))"
      "extends h1 h'" "\<forall>x. x \<notin> spec_name ` set specs \<longrightarrow> sets' x = sets1 x"
      "\<forall>(x, nd) \<in> set (primary_nodes specs ns2). serves h' sets' x nd []"
      "heap_ok h1 \<longrightarrow> (\<forall>spec \<in> set specs. length (spec_replicaDSNs spec) < 2 ^ 63) \<longrightarrow> heap_ok h'"
    by (elim exE conjE) (rule that)
  have "hd ns = hd ns1" using len o(3) by (cases ns1) (auto simp: spec_dsns_def)
  moreover have "serves h' sets' ?x (hd ns1) []"
    using rs_at_NewReplicaSet [OF n] extendsD [OF IH(2)] IH(3) Cons.prems(2)
    by (auto simp: serves_def sets1_def)
  ultimately have sv: "\<forall>(x, nd) \<in> set (primary_nodes (spec # specs) ns). serves h' sets' x nd []"
    using IH(4) len o(3) by simp
  have "heap_ok h1" if "heap_ok h" "length (spec_replicaDSNs spec) < 2 ^ 63"
    using heap_ok_NewReplicaSet [OF that(1) _ n] that(2) len by (simp add: spec_dsns_def)
  moreover have "\<forall>x. x \<notin> spec_name ` set (spec # specs) \<longrightarrow> sets' x = sets x"
    using IH(3) by (simp add: sets1_def)
  ultimately show ?case
    using IH(1,5) st n sv extends_trans [OF NewReplicaSet_extends [OF n] IH(2)]
    by (auto simp: sets1_def [symmetric])
qed

section \<open>Attaching the mirrors\<close>

text \<open>
  A successful run keeps the sets it has configured and serves every other main set with the
  mirrors of its first mapping.
\<close>

lemma mirror_writers_serves:
  assumes "\<forall>x \<in> set names. serves h sets x (P x) []"
  shows "mirror_writers h sets names = Some (map (\<lambda>x. writer (P x)) names)"
  using assms unfolding mirror_writers_def
  by (induction names) (auto simp: serves_def primaryWriter_def)

lemma configure_mapping_new:
  assumes "conf (vm_mainReplicaSet m) = None" and "mapping_ok N m" and "\<forall>x \<in> N. serves h sets x (P x) []"
  shows "\<exists>p h'. configure_mapping sets (h, conf) m = Some (h', conf(vm_mainReplicaSet m \<mapsto> p))
    \<and> extends h h' \<and> (heap_ok h \<longrightarrow> heap_ok h')
    \<and> serves h' (conf(vm_mainReplicaSet m \<mapsto> p)) (vm_mainReplicaSet m) (P (vm_mainReplicaSet m))
        (map (\<lambda>x. writer (P x)) (vm_mirrorReplicaSets m))"
proof -
  let ?x = "vm_mainReplicaSet m" and ?ms = "map (\<lambda>x. writer (P x)) (vm_mirrorReplicaSets m)"
  have w: "mirror_writers h sets (vm_mirrorReplicaSets m) = Some ?ms"
    using assms(2,3) by (intro mirror_writers_serves) (auto simp: mapping_ok_def)
  from assms(2,3) obtain q s where q: "sets ?x = Some q" "rs_at h q = Some s" "rs_name s = ?x"
      "rs_primary s = P ?x" "rs_writeMirrors s = []"
    by (auto simp: mapping_ok_def serves_def)
  then obtain p h' where p: "WithWriteMirrors q ?ms h = Some (p, h')" by (simp add: WithWriteMirrors_def)
  have "extends h h'"
    using p q(2) by (auto simp: WithWriteMirrors_def extends_def rs_at_def nth_append split: if_splits)
  moreover have "heap_ok h \<longrightarrow> heap_ok h'" using heap_ok_WithWriteMirrors [OF _ p] by blast
  moreover have "serves h' (conf(?x \<mapsto> p)) ?x (P ?x) ?ms"
    using rs_at_WithWriteMirrors [OF q(2) p] q by (simp add: serves_def)
  ultimately show ?thesis using assms(1) w q(1) p by (auto simp: configure_mapping_def)
qed

lemma configure_mappings_serves:
  assumes "list_all (mapping_ok N) ms" and "\<forall>x \<in> N. serves h sets x (P x) []"
  shows "\<exists>h' conf'. configure_mappings sets (h, conf) ms = Some (h', conf') \<and> extends h h'
    \<and> (heap_ok h \<longrightarrow> heap_ok h') \<and> (\<forall>x p. conf x = Some p \<longrightarrow> conf' x = Some p)
    \<and> (\<forall>x m. conf x = None \<longrightarrow> find (\<lambda>m. vm_mainReplicaSet m = x) ms = Some m \<longrightarrow>
         serves h' conf' x (P x) (map (\<lambda>y. writer (P y)) (vm_mirrorReplicaSets m)))"
  using assms
proof (induction ms arbitrary: h conf)
  case Nil
  then show ?case by simp
next
  case (Cons m ms)
  let ?x = "vm_mainReplicaSet m" and ?w = "\<lambda>y. writer (P y)"
  show ?case
  proof (cases "conf ?x")
    case None
    from configure_mapping_new [of conf m N h sets P] None Cons.prems obtain p h1 where
      c: "configure_mapping sets (h, conf) m = Some (h1, conf(?x \<mapsto> p))" "extends h h1"
        "heap_ok h \<longrightarrow> heap_ok h1" "serves h1 (conf(?x \<mapsto> p)) ?x (P ?x) (map ?w (vm_mirrorReplicaSets m))"
      by auto
    have "\<forall>x \<in> N. serves h1 sets x (P x) []" using Cons.prems(2) c(2) serves_extends by blast
    note IH0 = Cons.IH [OF _ this]
    define conf1 where "conf1 = conf(?x \<mapsto> p)"
    obtain h' conf' where
      IH: "configure_mappings sets (h1, conf1) ms = Some (h', conf')" "extends h1 h'"
        "heap_ok h1 \<longrightarrow> heap_ok h'" "\<forall>x q. conf1 x = Some q \<longrightarrow> conf' x = Some q"
        "\<forall>x n. conf1 x = None \<longrightarrow> find (\<lambda>m. vm_mainReplicaSet m = x) ms = Some n \<longrightarrow>
           serves h' conf' x (P x) (map ?w (vm_mirrorReplicaSets n))"
      using IH0 [of conf1] Cons.prems(1) by auto
    have "conf' ?x = Some p" using IH(4) by (simp add: conf1_def)
    then have "serves h' conf' ?x (P ?x) (map ?w (vm_mirrorReplicaSets m))"
      using serves_extends [OF c(4) IH(2)] by (auto simp: serves_def)
    moreover have "\<forall>x q. conf x = Some q \<longrightarrow> conf' x = Some q" using IH(4) None
      by (metis conf1_def fun_upd_other option.distinct(1))
    ultimately show ?thesis
      using c IH extends_trans [OF c(2) IH(2)] by (auto simp: conf1_def split: if_splits)
  next
    case (Some p)
    with Cons.IH [of h conf] Cons.prems show ?thesis by (auto simp: configure_mapping_def)
  qed
qed

section \<open>Mapping the virtual shards\<close>

definition shard_pairs :: "virtualShardMapping list \<Rightarrow> (uint64 \<times> string) list" where
  "shard_pairs ms = concat (map (\<lambda>m. map (\<lambda>i. (i, vm_mainReplicaSet m)) (vm_virtualShardIndexes m)) ms)"

lemma map_fst_shard_pairs: "map fst (shard_pairs ms) = all_indexes ms"
  by (induction ms) (simp_all add: shard_pairs_def comp_def)

lemma map_shards_pairs:
  "map_shards conf ms b = foldl (\<lambda>b (i, x). MapVirtualShard i (conf x) b) b (shard_pairs ms)"
  unfolding map_shards_def shard_pairs_def
  by (induction ms arbitrary: b) (simp_all add: foldl_map)

text \<open>Distinct indexes in range, each with a set, are all mapped without an error.\<close>

lemma map_pairs_ok:
  assumes "b_err b = None" and "length (b_virtualShards b) = unat n" and "distinct (map fst ps)"
    and "\<forall>(i, x) \<in> set ps. i < n \<and> conf x \<noteq> None \<and> b_virtualShards b ! unat i = None"
  defines "b' \<equiv> foldl (\<lambda>b (i, x). MapVirtualShard i (conf x) b) b ps"
  shows "b_err b' = None \<and> length (b_virtualShards b') = unat n \<and> b_hasher b' = b_hasher b \<and>
    b_telemetry b' = b_telemetry b \<and> (\<forall>(i, x) \<in> set ps. b_virtualShards b' ! unat i = conf x) \<and>
    (\<forall>i. i \<notin> fst ` set ps \<longrightarrow> b_virtualShards b' ! unat i = b_virtualShards b ! unat i)"
  using assms(1-4) unfolding b'_def
proof (induction ps arbitrary: b)
  case Nil
  then show ?case by simp
next
  case (Cons q ps)
  obtain i x where q: "q = (i, x)" by fastforce
  let ?b = "b\<lparr>b_virtualShards := (b_virtualShards b)[unat i := conf x]\<rparr>"
  have n: "(of_nat (length (b_virtualShards b)) :: uint64) = n" using Cons.prems(2) by simp
  have b: "MapVirtualShard i (conf x) b = ?b"
    using Cons.prems q n by (auto simp: MapVirtualShard_def)
  have other: "b_virtualShards ?b ! unat j = b_virtualShards b ! unat j" if "j \<noteq> i" for j
    using that by (simp add: word_unat_eq_iff)
  have fresh: "i \<notin> fst ` set ps" using Cons.prems(3) q by simp
  have "\<forall>(j, y) \<in> set ps. j < n \<and> conf y \<noteq> None \<and> b_virtualShards ?b ! unat j = None"
  proof (intro ballI, clarify)
    fix j y assume j: "(j, y) \<in> set ps"
    with fresh have "j \<noteq> i" by force
    with Cons.prems(4) j other [of j]
    show "j < n \<and> conf y \<noteq> None \<and> b_virtualShards ?b ! unat j = None" by auto
  qed
  note IH = Cons.IH [OF _ _ _ this]
  define b' where "b' = foldl (\<lambda>b (i, x). MapVirtualShard i (conf x) b) ?b ps"
  have IH: "b_err b' = None" "length (b_virtualShards b') = unat n" "b_hasher b' = b_hasher b"
      "b_telemetry b' = b_telemetry b" "\<forall>(i, x) \<in> set ps. b_virtualShards b' ! unat i = conf x"
      "\<forall>j. j \<notin> fst ` set ps \<longrightarrow> b_virtualShards b' ! unat j = b_virtualShards ?b ! unat j"
    unfolding b'_def using IH Cons.prems(1-3) by simp_all
  have "unat i < length (b_virtualShards b)"
    using Cons.prems(2,4) q by (simp add: word_less_nat_alt)
  then have "b_virtualShards b' ! unat i = conf x" using IH(6) fresh by simp
  moreover have "\<forall>j. j \<notin> fst ` set (q # ps) \<longrightarrow> b_virtualShards b' ! unat j = b_virtualShards b ! unat j"
    using IH(6) other q by simp
  moreover have "foldl (\<lambda>b (i, x). MapVirtualShard i (conf x) b) b (q # ps) = b'"
    using q b by (simp add: b'_def)
  ultimately show ?case using IH(1-5) q by simp
qed

lemma mesh_builder_for_ok:
  fixes c :: "('tp, 'mp, 'lg) openMeshConfig"
  assumes "\<And>p name. E p name = None" and b_def: "b = mesh_builder_for E hasher c"
  shows "b_err b = None \<and> b_virtualShards b = replicate (unat (c_virtualShardCount c)) None \<and> b_hasher b = hasher
    \<and> instruments_from (provider_or_global (c_meterProvider c)) (b_telemetry b)
    \<and> tracer (b_telemetry b) = Some (provider_or_global (c_tracerProvider c)) \<and> logger (b_telemetry b) = c_logger c"
proof -
  obtain t :: "('tp, 'mp, 'lg) meshTelemetry"
    where "setMeterProvider E None (setTracerProvider None zeroTelemetry) = (None, t)"
    using setMeterProvider_total assms(1) by blast
  then have t: "newMeshTelemetry E None None = (t, None)" by (simp add: newMeshTelemetry_def)
  let ?t = "setTracerProvider (c_tracerProvider c) t"
  obtain t' where t': "setMeterProvider E (c_meterProvider c) ?t = (None, t')"
    using setMeterProvider_total assms(1) by blast
  from setMeterProvider_success [OF this] show ?thesis
    by (simp add: b_def mesh_builder_for_def NewMeshBuilder_def WithShardHasher_def WithTracerProvider_def
        WithMeterProvider_def WithLogger_def t t' instruments_from_def)
      (simp add: setTracerProvider_def)
qed

section \<open>Mirror configurations\<close>

text \<open>The key that validation compares determines the mirrors as long as no name contains NUL.\<close>

lemma mirror_configuration_inj:
  assumes "mirror_configuration xs = mirror_configuration ys"
    and "\<forall>x \<in> set xs \<union> set ys. x \<noteq> [] \<and> CHR 0x00 \<notin> set x"
  shows "xs = ys"
proof -
  have ne: "mirror_configuration zs = [] \<longleftrightarrow> zs = []" if "\<forall>z \<in> set zs. z \<noteq> []" for zs
    using that unfolding mirror_configuration_def by (cases zs rule: remdups_adj.cases) auto
  have nx: "mirror_configuration xs = [] \<longleftrightarrow> xs = []" and ny: "mirror_configuration ys = [] \<longleftrightarrow> ys = []"
    using assms(2) by (auto intro!: ne)
  show ?thesis
  proof (cases "xs = []")
    case True
    with assms(1) nx ny show ?thesis by metis
  next
    case False
    then have "ys \<noteq> []" using assms(1) nx ny by metis
    then have "split_on (CHR 0x00) (mirror_configuration ys) = ys"
      using assms(2) unfolding mirror_configuration_def by (intro split_join) auto
    moreover have "split_on (CHR 0x00) (mirror_configuration xs) = xs"
      using assms(2) False unfolding mirror_configuration_def by (intro split_join) auto
    ultimately show ?thesis using assms(1) by metis
  qed
qed

section \<open>Opening a mesh\<close>

text \<open>The node opened for the primary of a set.\<close>

definition primary_of :: "replicaSetSpec list \<Rightarrow> ('r, 'w) node list \<Rightarrow> string \<Rightarrow> ('r, 'w) node" where
  "primary_of specs ns x = the (map_of (primary_nodes specs ns) x)"

lemma primary_of_in:
  assumes "x \<in> spec_name ` set specs"
  shows "(x, primary_of specs ns x) \<in> set (primary_nodes specs ns)"
proof -
  have "x \<in> fst ` set (primary_nodes specs ns)"
    using assms map_fst_primary_nodes [of specs ns] by (metis list.set_map)
  then show ?thesis unfolding primary_of_def
    by (metis map_of_SomeD map_of_eq_None_iff option.collapse)
qed

lemma shard_pairs_iff:
  "(i, x) \<in> set (shard_pairs ms) \<longleftrightarrow>
     (\<exists>m \<in> set ms. vm_mainReplicaSet m = x \<and> i \<in> set (vm_virtualShardIndexes m))"
  by (auto simp: shard_pairs_def)

text \<open>The table of sets that the mirrors are attached to.\<close>

definition configured_ok ::
  "('r, 'w) mesh_heap \<Rightarrow> (string \<rightharpoonup> rs_ptr) \<Rightarrow> (string \<Rightarrow> ('r, 'w) node) \<Rightarrow> virtualShardMapping list \<Rightarrow> bool" where
  "configured_ok h conf P ms \<longleftrightarrow> (\<forall>x m. find (\<lambda>m. vm_mainReplicaSet m = x) ms = Some m \<longrightarrow>
     serves h conf x (P x) (map (\<lambda>y. writer (P y)) (vm_mirrorReplicaSets m)))"

lemma find_main:
  assumes "m \<in> set ms"
  obtains m1 where "find (\<lambda>m'. vm_mainReplicaSet m' = vm_mainReplicaSet m) ms = Some m1"
    and "m1 \<in> set ms" and "vm_mainReplicaSet m1 = vm_mainReplicaSet m"
proof (cases "find (\<lambda>m'. vm_mainReplicaSet m' = vm_mainReplicaSet m) ms")
  case None
  with assms show ?thesis by (auto simp: find_None_iff)
next
  case (Some m1)
  then have "m1 \<in> set ms \<and> vm_mainReplicaSet m1 = vm_mainReplicaSet m"
    by (auto simp: find_Some_iff)
  with Some that show ?thesis by blast
qed

lemma configured_pair:
  assumes "valid_config c" and "configured_ok h conf P (c_mappings c)" and "(i, x) \<in> set (shard_pairs (c_mappings c))"
  shows "x \<in> spec_name ` set (c_replicaSets c) \<and> (\<exists>p. conf x = Some p \<and> rs_name_at h p = x)"
proof -
  from assms(3) obtain m where m: "m \<in> set (c_mappings c)" "vm_mainReplicaSet m = x"
    by (auto simp: shard_pairs_iff)
  have "x \<in> spec_name ` set (c_replicaSets c)"
    using assms(1) m by (auto simp: valid_config_def list_all_iff mapping_ok_def)
  moreover obtain m1 where "find (\<lambda>m'. vm_mainReplicaSet m' = x) (c_mappings c) = Some m1"
    using find_main [OF m(1)] m(2) by metis
  then have "serves h conf x (P x) (map (\<lambda>y. writer (P y)) (vm_mirrorReplicaSets m1))"
    using assms(2) unfolding configured_ok_def by blast
  ultimately show ?thesis by (auto simp: serves_def rs_name_at_def)
qed

lemma shard_pairs_indexes:
  assumes "valid_config c"
  shows "fst ` set (shard_pairs (c_mappings c)) = {i. i < c_virtualShardCount c}"
  using assms map_fst_shard_pairs [of "c_mappings c"] unfolding valid_config_def by (metis list.set_map)

text \<open>With a valid configuration every entry of the builder is filled, without an error.\<close>

lemma map_shards_valid:
  assumes c: "valid_config c" and conf: "configured_ok h conf P (c_mappings c)"
    and b: "b_err b = None" "b_virtualShards b = replicate (unat (c_virtualShardCount c)) None"
    and b'_def: "b' = map_shards conf (c_mappings c) b"
  shows "b_err b' = None \<and> length (b_virtualShards b') = unat (c_virtualShardCount c) \<and>
    b_hasher b' = b_hasher b \<and> b_telemetry b' = b_telemetry b"
    and "\<forall>(i, x) \<in> set (shard_pairs (c_mappings c)).
      unat i < length (b_virtualShards b') \<and> b_virtualShards b' ! unat i = conf x"
    and "\<forall>q \<in> set (b_virtualShards b'). \<exists>(i, x) \<in> set (shard_pairs (c_mappings c)). q = conf x"
proof -
  let ?n = "c_virtualShardCount c" and ?ps = "shard_pairs (c_mappings c)"
  have pre: "\<forall>(i, x) \<in> set ?ps. i < ?n \<and> conf x \<noteq> None \<and> b_virtualShards b ! unat i = None"
  proof (intro ballI, clarify)
    fix i x assume ix: "(i, x) \<in> set ?ps"
    then have "i \<in> fst ` set ?ps" by force
    then have "i < ?n" unfolding shard_pairs_indexes [OF c] by simp
    with configured_pair [OF c conf ix] b(2)
    show "i < ?n \<and> conf x \<noteq> None \<and> b_virtualShards b ! unat i = None" by (auto simp: word_less_nat_alt)
  qed
  have mp: "b_err b' = None \<and> length (b_virtualShards b') = unat ?n \<and> b_hasher b' = b_hasher b \<and>
    b_telemetry b' = b_telemetry b \<and> (\<forall>(i, x) \<in> set ?ps. b_virtualShards b' ! unat i = conf x) \<and>
    (\<forall>i. i \<notin> fst ` set ?ps \<longrightarrow> b_virtualShards b' ! unat i = b_virtualShards b ! unat i)"
    unfolding b'_def map_shards_pairs using pre b c
    by (intro map_pairs_ok) (simp_all add: map_fst_shard_pairs valid_config_def)
  then show "b_err b' = None \<and> length (b_virtualShards b') = unat ?n \<and>
    b_hasher b' = b_hasher b \<and> b_telemetry b' = b_telemetry b" by blast
  show "\<forall>(i, x) \<in> set ?ps. unat i < length (b_virtualShards b') \<and> b_virtualShards b' ! unat i = conf x"
    using mp pre by (auto simp: word_less_nat_alt)
  show "\<forall>q \<in> set (b_virtualShards b'). \<exists>(i, x) \<in> set ?ps. q = conf x"
  proof
    fix q assume "q \<in> set (b_virtualShards b')"
    then obtain j where j: "j < unat ?n" "b_virtualShards b' ! j = q" using mp by (metis in_set_conv_nth)
    moreover have "unat ?n < 2 ^ LENGTH(64)" by (rule unsigned_less)
    ultimately have u: "unat (of_nat j :: uint64) = j" by (simp add: unat_of_nat)
    with j have "(of_nat j :: uint64) \<in> fst ` set ?ps"
      unfolding shard_pairs_indexes [OF c] by (simp add: word_less_nat_alt)
    then obtain x where x: "(of_nat j, x) \<in> set ?ps" by auto
    with mp have "b_virtualShards b' ! unat (of_nat j :: uint64) = conf x" by blast
    with x u j(2) show "\<exists>(i, x) \<in> set ?ps. q = conf x" by auto
  qed
qed

lemma Build_valid:
  assumes c: "valid_config c" and conf: "configured_ok h conf P (c_mappings c)"
    and b: "b_err b = None" "b_virtualShards b = replicate (unat (c_virtualShardCount c)) None"
      "b_hasher b = Some hasher"
  shows "\<exists>m. Build h (map_shards conf (c_mappings c) b) = Inr m
    \<and> length (m_virtualShards m) = unat (c_virtualShardCount c) \<and> m_hasher m = hasher \<and> m_telemetry m = b_telemetry b
    \<and> (\<forall>(i, x) \<in> set (shard_pairs (c_mappings c)). conf x = Some (m_virtualShards m ! unat i))"
proof -
  let ?ps = "shard_pairs (c_mappings c)" and ?N = "spec_name ` set (c_replicaSets c)"
  define b' where "b' = map_shards conf (c_mappings c) b"
  note mp = map_shards_valid [OF c conf b(1,2) b'_def]
  note pair = configured_pair [OF c conf]
  have some: "\<exists>p x. q = Some p \<and> x \<in> ?N \<and> conf x = Some p \<and> rs_name_at h p = x"
    if q: "q \<in> set (b_virtualShards b')" for q
  proof -
    from mp(3) q obtain i x where "(i, x) \<in> set ?ps" "q = conf x" by blast
    with pair [of i x] show ?thesis by blast
  qed
  have ptr: "\<exists>x \<in> ?N. conf x = Some p \<and> rs_name_at h p = x" if "p \<in> set (map the (b_virtualShards b'))" for p
  proof -
    from that obtain q where "q \<in> set (b_virtualShards b')" "p = the q" by auto
    with some [of q] show ?thesis by auto
  qed
  have "None \<notin> set (b_virtualShards b')" using some by blast
  moreover have "names_ok h (map the (b_virtualShards b'))"
    unfolding names_ok_def
  proof (intro conjI ballI inj_onI)
    fix p assume "p \<in> set (map the (b_virtualShards b'))"
    from ptr [OF this] c show "TrimSpace (rs_name_at h p) \<noteq> []"
      by (auto simp: valid_config_def list_all_iff spec_ok_def)
  next
    fix p q assume pq: "p \<in> set (map the (b_virtualShards b'))" "q \<in> set (map the (b_virtualShards b'))"
      "rs_name_at h p = rs_name_at h q"
    from ptr [OF pq(1)] ptr [OF pq(2)] pq(3) show "p = q" by auto
  qed
  moreover have "c_virtualShardCount c \<noteq> 0" using c unfolding valid_config_def by blast
  then have "b_virtualShards b' \<noteq> []" using mp(1) by (auto simp: unat_eq_zero)
  moreover have "\<forall>(i, x) \<in> set ?ps. conf x = Some (map the (b_virtualShards b') ! unat i)"
  proof (intro ballI, clarify)
    fix i x assume ix: "(i, x) \<in> set ?ps"
    with mp(2) have "unat i < length (b_virtualShards b')" "b_virtualShards b' ! unat i = conf x" by auto
    with pair [OF ix] show "conf x = Some (map the (b_virtualShards b') ! unat i)" by auto
  qed
  ultimately show ?thesis using mp(1) b(3) unfolding b'_def [symmetric] by (auto simp: Build_iff)
qed

text \<open>All calls of the opener succeed: the sets exist and the mirrors are attached.\<close>

lemma open_and_configure:
  assumes c: "valid_config c" and nodes: "opens f 0 (all_dsns (c_replicaSets c)) = Some ns"
  shows "\<exists>h0 sets h conf.
    open_sets f [] empty_heap Map.empty (c_replicaSets c) = (all_dsns (c_replicaSets c), Inr (h0, sets))
    \<and> configure_mappings sets (h0, Map.empty) (c_mappings c) = Some (h, conf)
    \<and> ((\<forall>spec \<in> set (c_replicaSets c). length (spec_replicaDSNs spec) < 2 ^ 63) \<longrightarrow> heap_ok h)
    \<and> configured_ok h conf (primary_of (c_replicaSets c) ns) (c_mappings c)"
proof -
  let ?N = "spec_name ` set (c_replicaSets c)" and ?P = "primary_of (c_replicaSets c) ns"
  have N: "distinct (map spec_name (c_replicaSets c))" "list_all (mapping_ok ?N) (c_mappings c)"
    using c unfolding valid_config_def by blast+
  from open_sets_opens [of f "[]" "c_replicaSets c" ns empty_heap Map.empty] nodes N(1) obtain h0 sets where
    o: "open_sets f [] empty_heap Map.empty (c_replicaSets c) = (all_dsns (c_replicaSets c), Inr (h0, sets))"
      "\<forall>(x, nd) \<in> set (primary_nodes (c_replicaSets c) ns). serves h0 sets x nd []"
      "(\<forall>spec \<in> set (c_replicaSets c). length (spec_replicaDSNs spec) < 2 ^ 63) \<longrightarrow> heap_ok h0"
    by auto
  have "\<forall>x \<in> ?N. serves h0 sets x (?P x) []" using o(2) primary_of_in by fast
  from configure_mappings_serves [OF N(2) this, of Map.empty] obtain h conf where
    "configure_mappings sets (h0, Map.empty) (c_mappings c) = Some (h, conf)"
      "heap_ok h0 \<longrightarrow> heap_ok h" "configured_ok h conf ?P (c_mappings c)"
    unfolding configured_ok_def by auto
  with o show ?thesis by blast
qed

lemma OpenMesh_run:
  assumes opts: "apply_options options (initial_config n) = Inr c" and c: "valid_config c"
    and nodes: "opens f 0 (all_dsns (c_replicaSets c)) = Some ns" and E: "\<And>p name. E p name = None"
    and P_def: "P = primary_of (c_replicaSets c) ns"
  shows "\<exists>m h conf. OpenMesh E n (Some f) (Some hasher) options = (all_dsns (c_replicaSets c), Returned (m, h))
    \<and> length (m_virtualShards m) = unat (c_virtualShardCount c) \<and> m_hasher m = hasher
    \<and> instruments_from (provider_or_global (c_meterProvider c)) (m_telemetry m)
    \<and> tracer (m_telemetry m) = Some (provider_or_global (c_tracerProvider c)) \<and> logger (m_telemetry m) = c_logger c
    \<and> ((\<forall>spec \<in> set (c_replicaSets c). length (spec_replicaDSNs spec) < 2 ^ 63) \<longrightarrow> heap_ok h)
    \<and> configured_ok h conf P (c_mappings c)
    \<and> (\<forall>(i, x) \<in> set (shard_pairs (c_mappings c)). conf x = Some (m_virtualShards m ! unat i))"
proof -
  from open_and_configure [OF c nodes, folded P_def] obtain h0 sets h conf where
    o: "open_sets f [] empty_heap Map.empty (c_replicaSets c) = (all_dsns (c_replicaSets c), Inr (h0, sets))"
    and g: "configure_mappings sets (h0, Map.empty) (c_mappings c) = Some (h, conf)"
      "(\<forall>spec \<in> set (c_replicaSets c). length (spec_replicaDSNs spec) < 2 ^ 63) \<longrightarrow> heap_ok h"
      "configured_ok h conf P (c_mappings c)"
    by blast
  note b = mesh_builder_for_ok [of E _ "Some hasher" c, OF E refl]
  from b have "b_err (mesh_builder_for E (Some hasher) c) = None"
    "b_virtualShards (mesh_builder_for E (Some hasher) c) = replicate (unat (c_virtualShardCount c)) None"
    "b_hasher (mesh_builder_for E (Some hasher) c) = Some hasher" by blast+
  from Build_valid [OF c g(3) this] obtain m where
    m: "Build h (map_shards conf (c_mappings c) (mesh_builder_for E (Some hasher) c)) = Inr m"
      "length (m_virtualShards m) = unat (c_virtualShardCount c)" "m_hasher m = hasher"
      "m_telemetry m = b_telemetry (mesh_builder_for E (Some hasher) c)"
      "\<forall>(i, x) \<in> set (shard_pairs (c_mappings c)). conf x = Some (m_virtualShards m ! unat i)" by blast
  have "validateMeshConfig c False False = Inr ()" using c by (simp add: validateMeshConfig_iff)
  then have "OpenMesh E n (Some f) (Some hasher) options = (all_dsns (c_replicaSets c), Returned (m, h))"
    using opts o g(1) m(1) by (simp add: OpenMesh_def)
  then show ?thesis using m b g(2,3) by auto
qed

lemma valid_config_names:
  assumes "valid_config c" and "m \<in> set (c_mappings c)" and "x \<in> set (vm_mirrorReplicaSets m)"
  shows "x \<noteq> [] \<and> (\<exists>spec \<in> set (c_replicaSets c). x = spec_name spec)"
proof -
  from assms have "x \<in> spec_name ` set (c_replicaSets c)"
    unfolding valid_config_def list_all_iff mapping_ok_def by blast
  then obtain spec where spec: "spec \<in> set (c_replicaSets c)" "x = spec_name spec" by auto
  with assms(1) have "TrimSpace x \<noteq> []" unfolding valid_config_def list_all_iff spec_ok_def by blast
  then have "x \<noteq> []" by (auto simp: TrimSpace_def)
  with spec show ?thesis by blast
qed

section \<open>Properties of OpenMesh\<close>

text \<open>
  C3: validation accepts a configuration exactly when it can be served: there is at least one
  replica set and one virtual shard, an opener and a hasher; set names are not blank and all
  different, no DSN is blank; every mapping goes between known sets, without self-mirroring and
  without duplicate mirrors; mappings of one main set agree on the mirror configuration; and every
  virtual shard is mapped exactly once, with no index out of range.
\<close>

theorem validateMeshConfig_accepts:
  "validateMeshConfig c openNil hashNil = Inr () \<longleftrightarrow>
     \<not> openNil \<and> \<not> hashNil \<and> c_replicaSets c \<noteq> [] \<and> c_virtualShardCount c \<noteq> 0 \<and>
     list_all spec_ok (c_replicaSets c) \<and> distinct (map spec_name (c_replicaSets c)) \<and>
     list_all (mapping_ok (spec_name ` set (c_replicaSets c))) (c_mappings c) \<and>
     mirrors_agree (c_mappings c) \<and>
     distinct (all_indexes (c_mappings c)) \<and>
     set (all_indexes (c_mappings c)) = {i. i < c_virtualShardCount c}"
  unfolding validateMeshConfig_iff valid_config_def by blast

text \<open>
  C4: whatever the options, the hasher and the opener, the opener is called once for each primary
  and each replica in the order of the options, up to and including the first call that fails; it
  is never called when an option is nil or the configuration is not valid.
\<close>

theorem OpenMesh_calls:
  "fst (OpenMesh E n openNode hasher options) =
     (case apply_options options (initial_config n) of Inl _ \<Rightarrow> []
      | Inr c \<Rightarrow> (case openNode of None \<Rightarrow> []
          | Some f \<Rightarrow> if hasher \<noteq> None \<and> valid_config c then calls f 0 (all_dsns (c_replicaSets c)) else []))"
proof (cases "apply_options options (initial_config n)")
  case (Inr c)
  show ?thesis
  proof (cases "validateMeshConfig c (openNode = None) (hasher = None)")
    case (Inl e)
    then have "\<not> (openNode \<noteq> None \<and> hasher \<noteq> None \<and> valid_config c)"
      using validateMeshConfig_iff [of c "openNode = None" "hasher = None"] by auto
    then show ?thesis using Inr Inl by (auto simp: OpenMesh_def split: option.split)
  next
    case v: (Inr u)
    then have ok: "openNode \<noteq> None" "hasher \<noteq> None" "valid_config c"
      using validateMeshConfig_iff [of c "openNode = None" "hasher = None"] by auto
    then obtain f where f: "openNode = Some f" by auto
    have d: "distinct (map spec_name (c_replicaSets c))" using ok(3) unfolding valid_config_def by blast
    have "fst (open_sets f [] empty_heap Map.empty (c_replicaSets c)) = calls f 0 (all_dsns (c_replicaSets c))"
    proof (cases "opens f 0 (all_dsns (c_replicaSets c))")
      case None
      then show ?thesis using open_sets_fails [of f "[]" "c_replicaSets c"] by simp
    next
      case (Some ns)
      then show ?thesis
        using open_sets_opens [of f "[]" "c_replicaSets c" ns empty_heap Map.empty] d
        by (auto simp: calls_all)
    qed
    then show ?thesis using Inr v f ok
      by (auto simp: OpenMesh_def split: prod.splits sum.splits option.splits)
  qed
qed (simp add: OpenMesh_def)

text \<open>
  C5: opening a mesh never panics: the lookups of replica sets by name that follow the validation
  always find one.
\<close>

theorem OpenMesh_never_panics: "snd (OpenMesh E n openNode hasher options) \<noteq> Panicked"
proof (cases "apply_options options (initial_config n)")
  case (Inr c)
  show ?thesis
  proof (cases "validateMeshConfig c (openNode = None) (hasher = None)")
    case v: (Inr u)
    then obtain f where f: "openNode = Some f" and c: "valid_config c"
      using validateMeshConfig_iff [of c "openNode = None" "hasher = None"] by auto
    show ?thesis
    proof (cases "opens f 0 (all_dsns (c_replicaSets c))")
      case None
      then obtain d e where "open_sets f [] empty_heap Map.empty (c_replicaSets c) = (d, Inl e)"
        using open_sets_fails [of f "[]" "c_replicaSets c" empty_heap Map.empty] by (metis list.size(3) prod.collapse)
      then show ?thesis using Inr v f by (simp add: OpenMesh_def)
    next
      case (Some ns)
      from open_and_configure [OF c this] obtain h0 sets h conf where
        "open_sets f [] empty_heap Map.empty (c_replicaSets c) = (all_dsns (c_replicaSets c), Inr (h0, sets))"
        "configure_mappings sets (h0, Map.empty) (c_mappings c) = Some (h, conf)" by blast
      then show ?thesis using Inr v f by (simp add: OpenMesh_def split: sum.split)
    qed
  qed (simp add: OpenMesh_def Inr)
qed (simp add: OpenMesh_def)

text \<open>The entry of each virtual shard in a mesh that was opened.\<close>

text \<open>
  Without any condition on the names: the mirrors of a set are those of the first mapping that has it
  as its main set.
\<close>

lemma OpenMesh_first:
  assumes "apply_options options (initial_config n) = Inr c" and "valid_config c"
    and "opens f 0 (all_dsns (c_replicaSets c)) = Some ns" and "\<And>p name. E p name = None"
  shows "\<exists>m h. OpenMesh E n (Some f) (Some hasher) options = (all_dsns (c_replicaSets c), Returned (m, h))
    \<and> m_hasher m = hasher \<and> length (m_virtualShards m) = unat (c_virtualShardCount c)
    \<and> (\<forall>mapping \<in> set (c_mappings c). \<forall>i \<in> set (vm_virtualShardIndexes mapping).
         \<exists>first s. find (\<lambda>m'. vm_mainReplicaSet m' = vm_mainReplicaSet mapping) (c_mappings c) = Some first
           \<and> mirror_configuration (vm_mirrorReplicaSets first) = mirror_configuration (vm_mirrorReplicaSets mapping)
           \<and> rs_at h (m_virtualShards m ! unat i) = Some s \<and> rs_name s = vm_mainReplicaSet mapping
           \<and> rs_primary s = primary_of (c_replicaSets c) ns (vm_mainReplicaSet mapping)
           \<and> rs_writeMirrors s =
               map (\<lambda>y. writer (primary_of (c_replicaSets c) ns y)) (vm_mirrorReplicaSets first))"
proof -
  let ?P = "primary_of (c_replicaSets c) ns" and ?ms = "c_mappings c"
  from OpenMesh_run [where E = E and hasher = hasher, OF assms refl] obtain m h conf where
    r: "OpenMesh E n (Some f) (Some hasher) options = (all_dsns (c_replicaSets c), Returned (m, h))"
      "m_hasher m = hasher \<and> length (m_virtualShards m) = unat (c_virtualShardCount c)" "configured_ok h conf ?P ?ms"
      "\<forall>(i, x) \<in> set (shard_pairs ?ms). conf x = Some (m_virtualShards m ! unat i)" by blast
  have "\<exists>m1 s. find (\<lambda>m'. vm_mainReplicaSet m' = vm_mainReplicaSet mp) ?ms = Some m1
      \<and> mirror_configuration (vm_mirrorReplicaSets m1) = mirror_configuration (vm_mirrorReplicaSets mp)
      \<and> rs_at h (m_virtualShards m ! unat i) = Some s \<and> rs_name s = vm_mainReplicaSet mp
      \<and> rs_primary s = ?P (vm_mainReplicaSet mp) \<and> rs_writeMirrors s = map (\<lambda>y. writer (?P y)) (vm_mirrorReplicaSets m1)"
    if mp: "mp \<in> set ?ms" and i: "i \<in> set (vm_virtualShardIndexes mp)" for mp i
  proof -
    obtain m1 where m1: "find (\<lambda>m'. vm_mainReplicaSet m' = vm_mainReplicaSet mp) ?ms = Some m1"
        "m1 \<in> set ?ms" "vm_mainReplicaSet m1 = vm_mainReplicaSet mp"
      using find_main [OF mp] .
    have "mirror_configuration (vm_mirrorReplicaSets m1) = mirror_configuration (vm_mirrorReplicaSets mp)"
      using assms(2) m1(2,3) mp unfolding valid_config_def mirrors_agree_def by blast
    moreover have "conf (vm_mainReplicaSet mp) = Some (m_virtualShards m ! unat i)"
      using r(4) mp i by (fastforce simp: shard_pairs_iff)
    moreover have "serves h conf (vm_mainReplicaSet mp) (?P (vm_mainReplicaSet mp))
        (map (\<lambda>y. writer (?P y)) (vm_mirrorReplicaSets m1))"
      using r(3) m1(1) unfolding configured_ok_def by blast
    ultimately show ?thesis using m1(1) by (auto simp: serves_def)
  qed
  with r(1,2) show ?thesis by blast
qed

text \<open>Names without NUL are recovered from the configuration, so every mapping of a main set has these mirrors.\<close>

lemma mirrors_of_first:
  assumes "valid_config c" and "\<forall>spec \<in> set (c_replicaSets c). CHR 0x00 \<notin> set (spec_name spec)"
    and "mp \<in> set (c_mappings c)" and "find P (c_mappings c) = Some m1"
    and "mirror_configuration (vm_mirrorReplicaSets m1) = mirror_configuration (vm_mirrorReplicaSets mp)"
  shows "vm_mirrorReplicaSets m1 = vm_mirrorReplicaSets mp"
proof -
  have "m1 \<in> set (c_mappings c)" using assms(4) by (auto simp: find_Some_iff)
  moreover have "x \<noteq> [] \<and> CHR 0x00 \<notin> set x" if "x \<in> set (vm_mirrorReplicaSets m2)" "m2 \<in> set (c_mappings c)" for x m2
    using that assms(1,2) valid_config_names by blast
  ultimately show ?thesis using assms(3,5) by (intro mirror_configuration_inj) blast+
qed

lemma OpenMesh_shards:
  assumes "apply_options options (initial_config n) = Inr c" and "valid_config c"
    and "\<forall>spec \<in> set (c_replicaSets c). CHR 0x00 \<notin> set (spec_name spec)"
    and "opens f 0 (all_dsns (c_replicaSets c)) = Some ns" and "\<And>p name. E p name = None"
  shows "\<exists>m h. OpenMesh E n (Some f) (Some hasher) options = (all_dsns (c_replicaSets c), Returned (m, h))
    \<and> m_hasher m = hasher \<and> length (m_virtualShards m) = unat (c_virtualShardCount c)
    \<and> (\<forall>mapping \<in> set (c_mappings c). \<forall>i \<in> set (vm_virtualShardIndexes mapping).
         \<exists>s. rs_at h (m_virtualShards m ! unat i) = Some s \<and> rs_name s = vm_mainReplicaSet mapping
           \<and> rs_primary s = primary_of (c_replicaSets c) ns (vm_mainReplicaSet mapping)
           \<and> rs_writeMirrors s =
               map (\<lambda>y. writer (primary_of (c_replicaSets c) ns y)) (vm_mirrorReplicaSets mapping))"
  using OpenMesh_first [where E = E and hasher = hasher, OF assms(1,2,4,5)] mirrors_of_first [OF assms(2,3)]
  by metis

text \<open>
  C2: with a valid configuration whose set names contain no NUL, an opener that opens every node
  and providers that hand out every instrument, \<^verbatim>\<open>OpenMesh\<close> returns a mesh: it has one entry per
  virtual shard, and the entry of a shard is a set with the name of the mapping's main set, the node
  opened for its primary, and as write mirrors the writers of the primaries of the mapping's mirrors,
  in the mapping's order.
\<close>

theorem OpenMesh_serves:
  assumes "apply_options options (initial_config n) = Inr c" and "valid_config c"
    and "\<forall>spec \<in> set (c_replicaSets c). CHR 0x00 \<notin> set (spec_name spec)"
    and "opens f 0 (all_dsns (c_replicaSets c)) = Some ns" and "\<And>p name. E p name = None"
  shows "\<exists>m h. OpenMesh E n (Some f) (Some hasher) options = (all_dsns (c_replicaSets c), Returned (m, h))
    \<and> length (m_virtualShards m) = unat (c_virtualShardCount c)
    \<and> (\<forall>mapping \<in> set (c_mappings c). \<forall>i \<in> set (vm_virtualShardIndexes mapping).
         \<exists>s. rs_at h (m_virtualShards m ! unat i) = Some s \<and> rs_name s = vm_mainReplicaSet mapping
           \<and> rs_primary s = primary_of (c_replicaSets c) ns (vm_mainReplicaSet mapping)
           \<and> rs_writeMirrors s =
               map (\<lambda>y. writer (primary_of (c_replicaSets c) ns y)) (vm_mirrorReplicaSets mapping))"
  using OpenMesh_shards [where E = E and hasher = hasher, OF assms] by blast

definition sample_options :: "(unit, unit, unit) openMeshOption option list" where
  "sample_options =
     [Some (WithReplicaSet ''a'' ''dsn-a'' [''dsn-a1'']), Some (WithReplicaSet ''b'' ''dsn-b'' []),
      Some (WithVirtualShardMapping ''a'' [0, 2] [''b'']), Some (WithVirtualShardMapping ''b'' [1] [])]"

definition sample_config :: "(unit, unit, unit) openMeshConfig" where
  "sample_config =
     \<lparr>c_replicaSets =
        [\<lparr>spec_name = ''a'', spec_primaryDSN = ''dsn-a'', spec_replicaDSNs = [''dsn-a1'']\<rparr>,
         \<lparr>spec_name = ''b'', spec_primaryDSN = ''dsn-b'', spec_replicaDSNs = []\<rparr>],
      c_virtualShardCount = 3,
      c_mappings =
        [\<lparr>vm_virtualShardIndexes = [0, 2], vm_mainReplicaSet = ''a'', vm_mirrorReplicaSets = [''b'']\<rparr>,
         \<lparr>vm_virtualShardIndexes = [1], vm_mainReplicaSet = ''b'', vm_mirrorReplicaSets = []\<rparr>],
      c_tracerProvider = None, c_meterProvider = None, c_logger = None\<rparr>"

definition open_echo :: "(string, string) nodeOpener" where
  "open_echo k dsn = Inr (NewNode dsn dsn)"

lemma sample_options_config: "apply_options sample_options (initial_config 3) = Inr sample_config"
  by (simp add: apply_options_def sample_options_def initial_config_def sample_config_def
      WithReplicaSet_def WithVirtualShardMapping_def)

lemma sample_config_valid: "valid_config sample_config"
proof -
  have "validateMeshConfig sample_config False False = Inr ()" by code_simp
  then show ?thesis unfolding validateMeshConfig_iff by blast
qed

lemma sample_opens:
  "opens open_echo 0 (all_dsns (c_replicaSets sample_config)) =
     Some [NewNode ''dsn-a'' ''dsn-a'', NewNode ''dsn-a1'' ''dsn-a1'', NewNode ''dsn-b'' ''dsn-b'']"
  by code_simp

theorem OpenMesh_serves_witness:
  "\<exists>m h. OpenMesh (\<lambda>_ _. None) 3 (Some open_echo) (Some (\<lambda>k. k mod 3)) sample_options =
      ([''dsn-a'', ''dsn-a1'', ''dsn-b''], Returned (m, h))
    \<and> (\<exists>s. rs_at h (m_virtualShards m ! 2) = Some s \<and> rs_name s = ''a'' \<and> rs_writeMirrors s = [''dsn-b''])"
proof -
  have nul: "\<forall>spec \<in> set (c_replicaSets sample_config). CHR 0x00 \<notin> set (spec_name spec)"
    by (simp add: sample_config_def)
  have "primary_of (c_replicaSets sample_config)
      [NewNode ''dsn-a'' ''dsn-a'', NewNode ''dsn-a1'' ''dsn-a1'', NewNode ''dsn-b'' ''dsn-b''] ''b''
      = NewNode ''dsn-b'' ''dsn-b''"
    by (simp add: primary_of_def sample_config_def spec_dsns_def)
  with OpenMesh_serves [where E = "\<lambda>_ _. None" and hasher = "\<lambda>k :: uint64. k mod 3",
      OF sample_options_config sample_config_valid nul sample_opens refl]
  show ?thesis by (fastforce simp: sample_config_def all_dsns_def spec_dsns_def NewNode_def)
qed

definition nul_options :: "(unit, unit, unit) openMeshOption option list" where
  "nul_options =
     [Some (WithReplicaSet ''m'' ''dsn-m'' []), Some (WithReplicaSet ''a'' ''dsn-a'' []),
      Some (WithReplicaSet ''b'' ''dsn-b'' []),
      Some (WithReplicaSet (''a'' @ [CHR 0x00] @ ''b'') ''dsn-ab'' []),
      Some (WithVirtualShardMapping ''m'' [0] [''a'' @ [CHR 0x00] @ ''b'']),
      Some (WithVirtualShardMapping ''m'' [1] [''a'', ''b''])]"

definition nul_config :: "(unit, unit, unit) openMeshConfig" where
  "nul_config = projr (apply_options nul_options (initial_config 2))"

text \<open>
  C11: the first mapping of a main set decides its mirrors. Validation compares the mirror lists of
  the mappings of one main set by the strings they join to with NUL, and set names may contain NUL.
  For every accepted configuration, without a condition on the names, the mapping that lists a shard
  and the first mapping of the same main set have lists that join to the same string, and the shard is
  served with the mirrors of the first. Where the lists differ, those of the later mapping are dropped
  without an error.
\<close>

theorem OpenMesh_first_mapping_mirrors:
  assumes "apply_options options (initial_config n) = Inr c" and "valid_config c"
    and "opens f 0 (all_dsns (c_replicaSets c)) = Some ns" and "\<And>p name. E p name = None"
  shows "\<exists>m h. OpenMesh E n (Some f) (Some hasher) options = (all_dsns (c_replicaSets c), Returned (m, h))
    \<and> (\<forall>mapping \<in> set (c_mappings c). \<forall>i \<in> set (vm_virtualShardIndexes mapping).
         \<exists>first s. find (\<lambda>m'. vm_mainReplicaSet m' = vm_mainReplicaSet mapping) (c_mappings c) = Some first
           \<and> mirror_configuration (vm_mirrorReplicaSets first) = mirror_configuration (vm_mirrorReplicaSets mapping)
           \<and> rs_at h (m_virtualShards m ! unat i) = Some s \<and> rs_name s = vm_mainReplicaSet mapping
           \<and> rs_primary s = primary_of (c_replicaSets c) ns (vm_mainReplicaSet mapping)
           \<and> rs_writeMirrors s =
               map (\<lambda>y. writer (primary_of (c_replicaSets c) ns y)) (vm_mirrorReplicaSets first))"
  using OpenMesh_first [where E = E and hasher = hasher, OF assms] by blast

text \<open>
  The mirrors \<open>a NUL b\<close> and \<open>a\<close>, \<open>b\<close> of two mappings of the main set \<open>m\<close>: shard 1 asks for the
  latter and is served with the former.
\<close>

theorem OpenMesh_first_mapping_mirrors_witness:
  "\<exists>m h s. OpenMesh (\<lambda>_ _. None) 2 (Some open_echo) (Some (\<lambda>k :: uint64. k mod 2)) nul_options =
      (all_dsns (c_replicaSets nul_config), Returned (m, h))
    \<and> rs_at h (m_virtualShards m ! 1) = Some s \<and> rs_writeMirrors s = [''dsn-ab'']
    \<and> vm_mirrorReplicaSets (c_mappings nul_config ! 1) = [''a'', ''b'']"
proof -
  let ?ns = "[NewNode ''dsn-m'' ''dsn-m'', NewNode ''dsn-a'' ''dsn-a'', NewNode ''dsn-b'' ''dsn-b'', NewNode ''dsn-ab'' ''dsn-ab'']"
  let ?m0 = "\<lparr>vm_virtualShardIndexes = [0], vm_mainReplicaSet = ''m'', vm_mirrorReplicaSets = [''a'' @ [CHR 0x00] @ ''b'']\<rparr>"
  let ?m1 = "\<lparr>vm_virtualShardIndexes = [1], vm_mainReplicaSet = ''m'', vm_mirrorReplicaSets = [''a'', ''b'']\<rparr>"
  have o: "apply_options nul_options (initial_config 2) = Inr nul_config"
    by (simp add: apply_options_def nul_options_def initial_config_def nul_config_def
        WithReplicaSet_def WithVirtualShardMapping_def)
  have "validateMeshConfig nul_config False False = Inr ()" by code_simp
  then have v: "valid_config nul_config" unfolding validateMeshConfig_iff by blast
  have n: "opens open_echo 0 (all_dsns (c_replicaSets nul_config)) = Some ?ns" by code_simp
  have ms: "c_mappings nul_config = [?m0, ?m1]" by code_simp
  have w: "map (\<lambda>y. writer (primary_of (c_replicaSets nul_config) ?ns y)) (vm_mirrorReplicaSets ?m0) = [''dsn-ab'']"
    by code_simp
  from OpenMesh_first_mapping_mirrors [where E = "\<lambda>_ _. None" and hasher = "\<lambda>k :: uint64. k mod 2", OF o v n refl]
  obtain m h where r: "OpenMesh (\<lambda>_ _. None) 2 (Some open_echo) (Some (\<lambda>k :: uint64. k mod 2)) nul_options =
      (all_dsns (c_replicaSets nul_config), Returned (m, h))"
    "\<forall>mapping \<in> set [?m0, ?m1]. \<forall>i \<in> set (vm_virtualShardIndexes mapping).
       \<exists>first s. find (\<lambda>m'. vm_mainReplicaSet m' = vm_mainReplicaSet mapping) [?m0, ?m1] = Some first
         \<and> rs_at h (m_virtualShards m ! unat i) = Some s
         \<and> rs_writeMirrors s = map (\<lambda>y. writer (primary_of (c_replicaSets nul_config) ?ns y)) (vm_mirrorReplicaSets first)"
    unfolding ms by blast
  from r(2) obtain s where "rs_at h (m_virtualShards m ! 1) = Some s" "rs_writeMirrors s = [''dsn-ab'']"
    using w by (auto simp del: list.map)
  with r(1) show ?thesis by (simp add: ms)
qed

end
