(* ===== verification/Generated_Topology.thy ===== *)
theory Generated_Topology
  imports Generated_Async Topology
begin

text \<open>
  How a generated store is built: the store options, the single-database topology, the sharded
  topology over \<^verbatim>\<open>OpenMesh\<close>, the COPY batchers and the query groups (\<^verbatim>\<open>zz_generated_store.go\<close> and
  \<^verbatim>\<open>zz_generated_store_sharded.go\<close>). A database handle that can be nil is an option. A query group is a
  value of any type: the group of the store itself, or what the factory made of it.
\<close>

section \<open>Options\<close>

record ('tp, 'mp, 'lg, 'a, 'b) storeOptions =
  so_tracerProvider :: "'tp option"
  so_meterProvider :: "'mp option"
  so_logger :: "'lg option"
  so_Accounts :: "('a \<Rightarrow> 'a) option"
  so_Reports :: "('b \<Rightarrow> 'b) option"
  so_copyAccounts :: "copyBatchConfig option"

type_synonym ('tp, 'mp, 'lg, 'a, 'b) storeOption = "('tp, 'mp, 'lg, 'a, 'b) storeOptions \<Rightarrow> ('tp, 'mp, 'lg, 'a, 'b) storeOptions"

definition store_WithTracerProvider :: "'tp option \<Rightarrow> ('tp, 'mp, 'lg, 'a, 'b) storeOption" where
  "store_WithTracerProvider provider options = options\<lparr>so_tracerProvider := provider\<rparr>"

definition store_WithMeterProvider :: "'mp option \<Rightarrow> ('tp, 'mp, 'lg, 'a, 'b) storeOption" where
  "store_WithMeterProvider provider options = options\<lparr>so_meterProvider := provider\<rparr>"

definition store_WithLogger :: "'lg option \<Rightarrow> ('tp, 'mp, 'lg, 'a, 'b) storeOption" where
  "store_WithLogger lg options = options\<lparr>so_logger := lg\<rparr>"

definition WithAccountsFactory :: "('a \<Rightarrow> 'a) option \<Rightarrow> ('tp, 'mp, 'lg, 'a, 'b) storeOption" where
  "WithAccountsFactory f options = options\<lparr>so_Accounts := f\<rparr>"

definition WithReportsFactory :: "('b \<Rightarrow> 'b) option \<Rightarrow> ('tp, 'mp, 'lg, 'a, 'b) storeOption" where
  "WithReportsFactory f options = options\<lparr>so_Reports := f\<rparr>"

definition WithCopyAccountsBatching :: "copyBatchConfig \<Rightarrow> ('tp, 'mp, 'lg, 'a, 'b) storeOption" where
  "WithCopyAccountsBatching config options = options\<lparr>so_copyAccounts := Some config\<rparr>"

text \<open>Options of every kind run in order, and a nil option stops with its index.\<close>

definition run_options :: "string \<Rightarrow> ('o \<Rightarrow> 'o) option list \<Rightarrow> 'o \<Rightarrow> 'o result" where
  "run_options format options zero =
     foldM (\<lambda>x (index, option). case option of None \<Rightarrow> Inl (Errorf format [ArgNat index]) | Some f \<Rightarrow> Inr (f x)) zero (enumerate 0 options)"

definition applyStoreOptions :: "('tp, 'mp, 'lg, 'a, 'b) storeOption option list \<Rightarrow> ('tp, 'mp, 'lg, 'a, 'b) storeOptions result" where
  "applyStoreOptions options = run_options ''pgmesh: store option %d is nil'' options
     \<lparr>so_tracerProvider = None, so_meterProvider = None, so_logger = None, so_Accounts = None, so_Reports = None, so_copyAccounts = None\<rparr>"

section \<open>The single-database topology\<close>

record 'd singletonConfig =
  sc_name :: string
  sc_primary :: "'d option"
  sc_replicas :: "'d option list"
  sc_mirrors :: "'d option list"

definition WithDatabaseName :: "string \<Rightarrow> 'd singletonConfig \<Rightarrow> 'd singletonConfig" where
  "WithDatabaseName name config = config\<lparr>sc_name := name\<rparr>"

definition WithReadReplicas :: "'d option list \<Rightarrow> 'd singletonConfig \<Rightarrow> 'd singletonConfig" where
  "WithReadReplicas databases config = config\<lparr>sc_replicas := sc_replicas config @ databases\<rparr>"

definition singleton_WithWriteMirrors :: "'d option list \<Rightarrow> 'd singletonConfig \<Rightarrow> 'd singletonConfig" where
  "singleton_WithWriteMirrors databases config = config\<lparr>sc_mirrors := sc_mirrors config @ databases\<rparr>"

text \<open>A topology is its configuration or the error of its options.\<close>

definition Singleton :: "'d option \<Rightarrow> ('d singletonConfig \<Rightarrow> 'd singletonConfig) option list \<Rightarrow> 'd singletonConfig result" where
  "Singleton primary options = run_options ''pgmesh: singleton option %d is nil'' options
     \<lparr>sc_name = ''default'', sc_primary = primary, sc_replicas = [], sc_mirrors = []\<rparr>"

section \<open>Building a store\<close>

datatype 'a storeGroup = InternalGroup 'a | TelemetryGroup 'a

record ('k, 'sk, 'tp, 'mp, 'lg, 'd, 'a, 'b) builtStore =
  bt_store :: "('k, 'sk, 'tp, 'mp, 'lg) meshStore"
  bt_heap :: "('d readQueries, 'd queryStore) mesh_heap"
  bt_batch :: "(tel_context, copyAccountsParams) copyAccountsBatchState"
  bt_routes :: "string \<rightharpoonup> 'd queryStore route"
  bt_Accounts :: "'a storeGroup"
  bt_Reports :: "'b storeGroup"

text \<open>
  The loop of \<^verbatim>\<open>initializeCopyBatchers\<close>: a batcher per replica set, and the write route that its copy
  function keeps. \<open>None\<close> is the panic of a nil replica set.
\<close>

fun init_batchers ::
  "copyBatchConfig \<Rightarrow> ('r, 'd queryStore) mesh_heap \<Rightarrow> rs_ptr list \<Rightarrow> (string \<rightharpoonup> ('c, 'p) copyBatcher) \<Rightarrow> (string \<rightharpoonup> 'd queryStore route) \<Rightarrow>
   ((string \<rightharpoonup> ('c, 'p) copyBatcher) \<times> (string \<rightharpoonup> 'd queryStore route)) result option" where
  "init_batchers config h [] batchers routes = Some (Inr (batchers, routes))"
| "init_batchers config h (p # ps) batchers routes =
     (case WriteRoute store_mirrors p h of None \<Rightarrow> None
      | Some route \<Rightarrow>
          (case NewCopyBatcher config False of
             Inl e \<Rightarrow> Some (Inl (Wrap ''configure CopyAccounts copy batching: %w'' [] e))
           | Inr b \<Rightarrow> init_batchers config h ps (batchers(rs_name_at h p \<mapsto> b)) (routes(rs_name_at h p \<mapsto> route))))"

definition zero_batch_config :: copyBatchConfig where
  "zero_batch_config = \<lparr>MaxRowsPerBatch = 0, Linger = 0, MaxConcurrentBatches = 0\<rparr>"

definition initializeCopyBatchers ::
  "('tp, 'mp, 'lg, 'a, 'b) storeOptions \<Rightarrow> ('sk, 'tp, 'mp, 'lg) mesh \<Rightarrow> ('r, 'd queryStore) mesh_heap \<Rightarrow>
   (('c, 'p) copyAccountsBatchState \<times> (string \<rightharpoonup> 'd queryStore route)) result option" where
  "initializeCopyBatchers options m h =
     (let config = (case so_copyAccounts options of None \<Rightarrow> zero_batch_config | Some c \<Rightarrow> c);
          enabled = (so_copyAccounts options \<noteq> None)
      in map_option (\<lambda>r. and_then r (\<lambda>(batchers, routes). Inr (\<lparr>bs_enabled = enabled, bs_batchers = batchers\<rparr>, routes)))
           (init_batchers config h (ReplicaSets m) Map.empty Map.empty))"

text \<open>The copy function of a batcher: one physical COPY on the primary and the mirrors of its route.\<close>

definition batch_copy where
  "batch_copy rt s route ctx rows st = do {
     (ctx1, p, w) \<leftarrow> mesh_StartPhysicalQuerySpan (m_telemetry (ms_mesh s)) ctx (now rt st) ''Accounts'' ''CopyAccounts'' QueryKindWrite
       (metadata route) RouteModePrimary (st_world st);
     let (res, cs) = write_query (rt_noRows rt) (rt_answer rt) 0 (qs_write (Target route)) rows (st_calls st);
     let st1 = st\<lparr>st_world := w, st_calls := cs\<rparr>;
     w' \<leftarrow> physical_End (rt_ErrorType rt) (rt_enabled rt) (now rt st1) (snd res) p (st_world st1);
     Some (res, st1\<lparr>st_world := w'\<rparr>)
   }"

definition initializeGroup :: "('a \<Rightarrow> 'a) option \<Rightarrow> 'a \<Rightarrow> 'a storeGroup" where
  "initializeGroup factory internal = (case factory of None \<Rightarrow> InternalGroup internal | Some f \<Rightarrow> TelemetryGroup (f internal))"

text \<open>
  The end of both \<^verbatim>\<open>buildStore\<close> functions. The groups are functions of the store, and \<open>Panicked\<close> is never
  reached by a built mesh.
\<close>

definition finish_store where
  "finish_store options accounts reports s h =
     (case initializeCopyBatchers options (ms_mesh s) h of
        None \<Rightarrow> Panicked
      | Some (Inl e) \<Rightarrow> Failed e
      | Some (Inr (batch, routes)) \<Rightarrow>
          Returned \<lparr>bt_store = s, bt_heap = h, bt_batch = batch, bt_routes = routes,
            bt_Accounts = initializeGroup (so_Accounts options) (accounts s),
            bt_Reports = initializeGroup (so_Reports options) (reports s)\<rparr>)"

definition nil_database :: "string \<Rightarrow> 'd option list \<Rightarrow> unit result" where
  "nil_database format databases = foldM (\<lambda>_ (index, d). check (d = None) (Errorf format [ArgNat index])) () (enumerate 0 databases)"

definition singleton_checks :: "'d singletonConfig \<Rightarrow> unit result" where
  "singleton_checks config =
     and_then (check (sc_primary config = None) (Errorf ''pgmesh: database primary is nil'' [])) (\<lambda>_.
     and_then (nil_database ''pgmesh: database replica %d is nil'' (sc_replicas config)) (\<lambda>_.
     nil_database ''pgmesh: database mirror %d is nil'' (sc_mirrors config)))"

text \<open>The mesh of one replica set; the keys are bytes and the hasher is constant.\<close>

definition singleton_mesh where
  "singleton_mesh E options name primary replicas mirrors =
     (case NewReplicaSet name (newStoreNode primary) (map newStoreNode replicas) empty_heap of (p, h) \<Rightarrow>
        Option.bind (WithWriteMirrors p (map (\<lambda>d. writer (newStoreNode d)) mirrors) h) (\<lambda>(p', h').
          Some (h', Build h' (MapVirtualShard 0 (Some p') (WithLogger (so_logger options) (WithMeterProvider E (so_meterProvider options)
            (WithTracerProvider (so_tracerProvider options) (WithShardHasher (Some (constant_Hash (NewConstantShardHasher 0) :: 8 word \<Rightarrow> uint64))
              (NewMeshBuilder E 1)))))))))"

definition singleton_buildStore where
  "singleton_buildStore E store_id options accounts reports c =
     (case c of Inl e \<Rightarrow> Failed e
      | Inr config \<Rightarrow>
          (let config = (if sc_name config = [] then config\<lparr>sc_name := ''default''\<rparr> else config) in
           case singleton_checks config of Inl e \<Rightarrow> Failed e
           | Inr _ \<Rightarrow>
               (case singleton_mesh E options (sc_name config) (the (sc_primary config)) (map the (sc_replicas config)) (map the (sc_mirrors config)) of
                  None \<Rightarrow> Panicked
                | Some (h, Inl e) \<Rightarrow> Failed e
                | Some (h, Inr m) \<Rightarrow>
                    finish_store options accounts reports
                      \<lparr>ms_id = store_id, ms_mesh = m, ms_resolver = None, ms_zeroKey = (0 :: 8 word)\<rparr> h)))"

section \<open>The sharded topology\<close>

record 'd shardDatabase =
  sd_name :: string
  sd_primary :: "'d option"
  sd_replicas :: "'d option list"

record shardMapping =
  sm_mainReplicaSet :: string
  sm_virtualShards :: "uint64 list"
  sm_mirrorReplicaSets :: "string list"

record 'd shardedOptions =
  sh_replicaSets :: "'d shardDatabase list"
  sh_mappings :: "shardMapping list"

definition sharded_WithReplicaSet :: "string \<Rightarrow> 'd option \<Rightarrow> 'd option list \<Rightarrow> 'd shardedOptions \<Rightarrow> 'd shardedOptions" where
  "sharded_WithReplicaSet name primary replicas options =
     options\<lparr>sh_replicaSets := sh_replicaSets options @ [\<lparr>sd_name = name, sd_primary = primary, sd_replicas = replicas\<rparr>]\<rparr>"

definition sharded_WithVirtualShardMapping :: "string \<Rightarrow> uint64 list \<Rightarrow> string list \<Rightarrow> 'd shardedOptions \<Rightarrow> 'd shardedOptions" where
  "sharded_WithVirtualShardMapping mainReplicaSet virtualShards mirrorReplicaSets options =
     options\<lparr>sh_mappings := sh_mappings options @
       [\<lparr>sm_mainReplicaSet = mainReplicaSet, sm_virtualShards = virtualShards, sm_mirrorReplicaSets = mirrorReplicaSets\<rparr>]\<rparr>"

record ('k, 'sk, 'd) shardedTopology =
  st_virtualShardCount :: uint64
  st_shardHasher :: "('sk \<Rightarrow> uint64) option"
  st_resolver :: "('k \<Rightarrow> 'sk) option"
  st_options :: "'d shardedOptions"

definition Sharded ::
  "uint64 \<Rightarrow> ('sk \<Rightarrow> uint64) option \<Rightarrow> ('k \<Rightarrow> 'sk) option \<Rightarrow> ('d shardedOptions \<Rightarrow> 'd shardedOptions) option list \<Rightarrow>
   ('k, 'sk, 'd) shardedTopology result" where
  "Sharded n hasher resolver options =
     and_then (run_options ''pgmesh: sharded option %d is nil'' options \<lparr>sh_replicaSets = [], sh_mappings = []\<rparr>) (\<lambda>configured.
     Inr \<lparr>st_virtualShardCount = n, st_shardHasher = hasher, st_resolver = resolver, st_options = configured\<rparr>)"

definition primaryDSN :: "nat \<Rightarrow> string" where
  "primaryDSN setIndex = ''pgmesh-internal://'' @ Itoa setIndex @ ''/primary''"

definition replicaDSN :: "nat \<Rightarrow> nat \<Rightarrow> string" where
  "replicaDSN setIndex replicaIndex = ''pgmesh-internal://'' @ Itoa setIndex @ ''/replica/'' @ Itoa replicaIndex"

text \<open>The DSNs of a set, and the entries it writes into the map of nodes, in the order of the code.\<close>

definition set_DSNs :: "nat \<Rightarrow> 'd shardDatabase \<Rightarrow> string list" where
  "set_DSNs setIndex x = map (replicaDSN setIndex) [0..<length (sd_replicas x)]"

definition set_nodes :: "nat \<Rightarrow> 'd shardDatabase \<Rightarrow> (string \<times> 'd option) list" where
  "set_nodes setIndex x = (primaryDSN setIndex, sd_primary x) # zip (set_DSNs setIndex x) (sd_replicas x)"

definition sharded_nodes :: "'d shardDatabase list \<Rightarrow> string \<rightharpoonup> 'd option" where
  "sharded_nodes sets = foldl (\<lambda>m (dsn, d). m(dsn \<mapsto> d)) Map.empty (concat (map (\<lambda>(i, x). set_nodes i x) (enumerate 0 sets)))"

definition sharded_openNode :: "(string \<rightharpoonup> 'd option) \<Rightarrow> ('d readQueries, 'd queryStore) nodeOpener" where
  "sharded_openNode nodes call dsn =
     (case nodes dsn of Some (Some database) \<Rightarrow> Inr (newStoreNode database)
      | _ \<Rightarrow> Inl (Errorf ''pgmesh: database node %q is nil'' [ArgStr dsn]))"

definition sharded_meshOptions ::
  "('tp, 'mp, 'lg, 'a, 'b) storeOptions \<Rightarrow> 'd shardedOptions \<Rightarrow> ('tp, 'mp, 'lg) openMeshOption option list" where
  "sharded_meshOptions options c =
     map Some (map (\<lambda>(i, x). WithReplicaSet (sd_name x) (primaryDSN i) (set_DSNs i x)) (enumerate 0 (sh_replicaSets c)) @
       map (\<lambda>m. WithVirtualShardMapping (sm_mainReplicaSet m) (sm_virtualShards m) (sm_mirrorReplicaSets m)) (sh_mappings c) @
       [OptTracerProvider (so_tracerProvider options), OptMeterProvider (so_meterProvider options), OptLogger (so_logger options)])"

definition sharded_buildStore where
  "sharded_buildStore E store_id zeroKey options accounts reports c =
     (case c of Inl e \<Rightarrow> Failed e
      | Inr t \<Rightarrow>
          if st_resolver t = None then Failed (Errorf ''pgmesh: shard resolver is nil'' [])
          else
            (case snd (OpenMesh E (st_virtualShardCount t) (Some (sharded_openNode (sharded_nodes (sh_replicaSets (st_options t)))))
                    (st_shardHasher t) (sharded_meshOptions options (st_options t))) of
               Panicked \<Rightarrow> Panicked
             | Failed e \<Rightarrow> Failed e
             | Returned (m, h) \<Rightarrow>
                 finish_store options accounts reports
                   \<lparr>ms_id = store_id, ms_mesh = m, ms_resolver = st_resolver t, ms_zeroKey = zeroKey\<rparr> h))"

text \<open>\<^verbatim>\<open>NewStore\<close> over the build function of a topology that may be nil.\<close>

definition NewStore where
  "NewStore topology options =
     (case topology of None \<Rightarrow> Failed (Errorf ''pgmesh: topology is nil'' [])
      | Some buildStore \<Rightarrow>
          (case applyStoreOptions options of Inl e \<Rightarrow> Failed e | Inr so \<Rightarrow> buildStore so))"

section \<open>Options and batchers\<close>

lemma run_options_Some: "run_options format (map Some fs) z = Inr (foldl (\<lambda>x f. f x) z fs)"
proof -
  have "foldM (\<lambda>x (index, option). case option of None \<Rightarrow> Inl (Errorf format [ArgNat index]) | Some f \<Rightarrow> Inr (f x)) z (enumerate k (map Some fs)) =
      Inr (foldl (\<lambda>x f. f x) z fs)" for k z
    by (induction fs arbitrary: k z) simp_all
  then show ?thesis by (simp add: run_options_def)
qed

lemma apply_options_Some: "apply_options (map Some fs) config = Inr (foldl (\<lambda>x f. f x) config fs)"
  using run_options_Some [of "''pgmesh: mesh option %d is nil''" fs config] by (simp add: run_options_def apply_options_def)

lemma init_batchers_ok:
  fixes batchers :: "string \<rightharpoonup> ('c, 'p) copyBatcher"
  assumes "Validate config = None" and "\<forall>p \<in> set ps. rs_at h p \<noteq> None"
  shows "\<exists>batchers' routes'. init_batchers config h ps batchers routes = Some (Inr (batchers', routes'))
    \<and> dom batchers' = dom batchers \<union> rs_name_at h ` set ps
    \<and> (\<forall>name b. batchers' name = Some b \<longrightarrow> batchers name = Some b \<or> batcher_ok b)"
  using assms(2)
proof (induction ps arbitrary: batchers routes)
  case Nil
  then show ?case by simp
next
  case (Cons p ps)
  obtain b :: "('c, 'p) copyBatcher" where b: "NewCopyBatcher config False = Inr b" using assms(1) by (simp add: NewCopyBatcher_def)
  obtain route where r: "WriteRoute store_mirrors p h = Some route" using Cons.prems by (auto simp: WriteRoute_def)
  obtain batchers' routes' where
    i: "init_batchers config h ps (batchers(rs_name_at h p \<mapsto> b)) (routes(rs_name_at h p \<mapsto> route)) = Some (Inr (batchers', routes'))"
    "dom batchers' = dom (batchers(rs_name_at h p \<mapsto> b)) \<union> rs_name_at h ` set ps"
    "\<forall>name b'. batchers' name = Some b' \<longrightarrow> (batchers(rs_name_at h p \<mapsto> b)) name = Some b' \<or> batcher_ok b'"
    using Cons.IH Cons.prems by (meson list.set_intros(2))
  have "batcher_ok b" using NewCopyBatcher_ok [OF b] by blast
  then have "\<forall>name b'. batchers' name = Some b' \<longrightarrow> batchers name = Some b' \<or> batcher_ok b'"
    using i(3) by (metis fun_upd_apply option.inject)
  with i(1,2) b r show ?case by simp
qed

lemma initializeCopyBatchers_ok:
  assumes "case so_copyAccounts options of None \<Rightarrow> True | Some c \<Rightarrow> Validate c = None" and "mesh_wf m h"
  shows "\<exists>(batch :: ('c, 'p) copyAccountsBatchState) routes. initializeCopyBatchers options m h = Some (Inr (batch, routes))
    \<and> dom (bs_batchers batch) = rs_name_at h ` set (ReplicaSets m) \<and> bs_enabled batch = (so_copyAccounts options \<noteq> None)
    \<and> (\<forall>name b. bs_batchers batch name = Some b \<longrightarrow> batcher_ok b)"
proof -
  let ?c = "case so_copyAccounts options of None \<Rightarrow> zero_batch_config | Some c \<Rightarrow> c"
  have "Validate ?c = None" using assms(1) by (cases "so_copyAccounts options") (simp_all add: Validate_def zero_batch_config_def)
  from init_batchers_ok [OF this, of "ReplicaSets m" h Map.empty Map.empty] assms(2)
  obtain batchers :: "string \<rightharpoonup> ('c, 'p) copyBatcher" and routes where i: "init_batchers ?c h (ReplicaSets m) Map.empty Map.empty = Some (Inr (batchers, routes))"
    "dom batchers = rs_name_at h ` set (ReplicaSets m)" "\<forall>name b. batchers name = Some b \<longrightarrow> batcher_ok b" by (auto simp: mesh_wf_def)
  then show ?thesis
    by (intro exI [of _ "\<lparr>bs_enabled = (so_copyAccounts options \<noteq> None), bs_batchers = batchers\<rparr>"] exI [of _ routes])
      (simp add: initializeCopyBatchers_def Let_def)
qed

section \<open>What the sharded topology opens\<close>

lemma digits_before_slash: "takeWhile is_digit (Itoa n @ CHR ''/'' # xs) = Itoa n"
  using Itoa_digits by (subst takeWhile_append2) (auto simp: is_digit_def)

lemma primaryDSN_not_replica: "primaryDSN i \<noteq> replicaDSN j r"
proof
  assume "primaryDSN i = replicaDSN j r"
  then have e: "Itoa i @ CHR ''/'' # ''primary'' = Itoa j @ CHR ''/'' # ''replica/'' @ Itoa r" by (simp add: primaryDSN_def replicaDSN_def)
  have "Itoa i = Itoa j" using arg_cong [OF e, of "takeWhile is_digit"] by (simp only: digits_before_slash)
  with e show False by simp
qed

lemma primaryDSN_inj [simp]: "primaryDSN i = primaryDSN j \<longleftrightarrow> i = j"
  by (simp add: primaryDSN_def)

lemma replicaDSN_inj [simp]: "replicaDSN i r = replicaDSN j q \<longleftrightarrow> i = j \<and> r = q"
proof
  assume "replicaDSN i r = replicaDSN j q"
  then have e: "Itoa i @ CHR ''/'' # ''replica/'' @ Itoa r = Itoa j @ CHR ''/'' # ''replica/'' @ Itoa q" by (simp add: replicaDSN_def)
  have "Itoa i = Itoa j" using arg_cong [OF e, of "takeWhile is_digit"] by (simp only: digits_before_slash)
  with e show "i = j \<and> r = q" by simp
qed simp

definition sharded_specs :: "nat \<Rightarrow> 'd shardDatabase list \<Rightarrow> replicaSetSpec list" where
  "sharded_specs k sets = map (\<lambda>(i, x). \<lparr>spec_name = sd_name x, spec_primaryDSN = primaryDSN i, spec_replicaDSNs = set_DSNs i x\<rparr>) (enumerate k sets)"

definition node_list :: "nat \<Rightarrow> 'd shardDatabase list \<Rightarrow> (string \<times> 'd option) list" where
  "node_list k sets = concat (map (\<lambda>(i, x). set_nodes i x) (enumerate k sets))"

lemma sharded_specs_simps [simp]:
  "sharded_specs k [] = []"
  "sharded_specs k (x # sets) = \<lparr>spec_name = sd_name x, spec_primaryDSN = primaryDSN k, spec_replicaDSNs = set_DSNs k x\<rparr> # sharded_specs (Suc k) sets"
  by (simp_all add: sharded_specs_def)

lemma node_list_simps [simp]: "node_list k [] = []" "node_list k (x # sets) = set_nodes k x @ node_list (Suc k) sets"
  by (simp_all add: node_list_def)

lemma length_set_DSNs [simp]: "length (set_DSNs i x) = length (sd_replicas x)"
  by (simp add: set_DSNs_def)

lemma all_dsns_sharded: "all_dsns (sharded_specs k sets) = map fst (node_list k sets)"
  by (induction sets arbitrary: k) (simp_all add: spec_dsns_def set_nodes_def)

lemma node_list_keys:
  assumes "dsn \<in> fst ` set (node_list k sets)"
  shows "\<exists>i \<ge> k. dsn = primaryDSN i \<or> (\<exists>r. dsn = replicaDSN i r)"
  using assms
proof (induction sets arbitrary: k)
  case (Cons x sets)
  then consider "dsn \<in> fst ` set (set_nodes k x)" | "dsn \<in> fst ` set (node_list (Suc k) sets)" by auto
  then show ?case
  proof cases
    case 1
    then have "dsn = primaryDSN k \<or> (\<exists>r. dsn = replicaDSN k r)" by (auto simp: set_nodes_def set_DSNs_def dest!: set_zip_leftD)
    then show ?thesis by blast
  next
    case 2
    from Cons.IH [OF this] obtain i where "i \<ge> Suc k" "dsn = primaryDSN i \<or> (\<exists>r. dsn = replicaDSN i r)" by blast
    then show ?thesis using Suc_leD by blast
  qed
qed simp

lemma distinct_node_list: "distinct (map fst (node_list k sets))"
proof (induction sets arbitrary: k)
  case (Cons x sets)
  have "map fst (set_nodes k x) = primaryDSN k # set_DSNs k x" by (simp add: set_nodes_def)
  moreover have "distinct (primaryDSN k # set_DSNs k x)"
    by (auto simp: set_DSNs_def distinct_map inj_on_def primaryDSN_not_replica)
  moreover have "dsn \<notin> fst ` set (node_list (Suc k) sets)" if "dsn \<in> set (primaryDSN k # set_DSNs k x)" for dsn
  proof
    assume "dsn \<in> fst ` set (node_list (Suc k) sets)"
    then obtain i where "i \<ge> Suc k" "dsn = primaryDSN i \<or> (\<exists>r. dsn = replicaDSN i r)" using node_list_keys by blast
    with that show False by (auto simp: set_DSNs_def primaryDSN_not_replica primaryDSN_not_replica [symmetric])
  qed
  ultimately show ?case using Cons by auto
qed simp

lemma sharded_nodes_lookup: "sharded_nodes sets dsn = map_of (node_list 0 sets) dsn"
proof -
  have "foldl (\<lambda>m (dsn, d). m(dsn \<mapsto> d)) m xs = m ++ map_of xs" if "distinct (map fst xs)" for m :: "string \<rightharpoonup> 'a option" and xs
    using that by (induction xs arbitrary: m) (auto simp: map_add_upd_left dom_map_of_conv_image_fst)
  from this [OF distinct_node_list] show ?thesis by (simp add: sharded_nodes_def node_list_def [symmetric])
qed

definition opened_nodes :: "'d shardDatabase list \<Rightarrow> ('d readQueries, 'd queryStore) node list" where
  "opened_nodes sets = concat (map (\<lambda>x. map (newStoreNode \<circ> the) (sd_primary x # sd_replicas x)) sets)"

definition databases_ok :: "'d shardDatabase list \<Rightarrow> bool" where
  "databases_ok sets \<longleftrightarrow> list_all (\<lambda>x. sd_primary x \<noteq> None \<and> list_all (\<lambda>d. d \<noteq> None) (sd_replicas x)) sets"

lemma opens_all:
  assumes "\<forall>(dsn, d) \<in> set xs. nodes dsn = Some d \<and> d \<noteq> None"
  shows "opens (sharded_openNode nodes) k (map fst xs) = Some (map (newStoreNode \<circ> the \<circ> snd) xs)"
  using assms by (induction xs arbitrary: k) (auto simp: sharded_openNode_def split: option.splits)

lemma sharded_opens:
  assumes "databases_ok sets"
  shows "opens (sharded_openNode (sharded_nodes sets)) 0 (all_dsns (sharded_specs 0 sets)) = Some (opened_nodes sets)"
proof -
  have v: "map snd (node_list k sets') = concat (map (\<lambda>x. sd_primary x # sd_replicas x) sets')" for k and sets' :: "'a shardDatabase list"
    by (induction sets' arbitrary: k) (simp_all add: set_nodes_def)
  have "\<forall>d \<in> set (map snd (node_list 0 sets)). d \<noteq> None" using assms unfolding v by (auto simp: databases_ok_def list_all_iff)
  then have "\<forall>(dsn, d) \<in> set (node_list 0 sets). sharded_nodes sets dsn = Some d \<and> d \<noteq> None"
    using map_of_is_SomeI [OF distinct_node_list] by (fastforce simp: sharded_nodes_lookup)
  from opens_all [OF this] have "opens (sharded_openNode (sharded_nodes sets)) 0 (all_dsns (sharded_specs 0 sets)) =
      Some (map (newStoreNode \<circ> the) (map snd (node_list 0 sets)))" by (simp add: all_dsns_sharded)
  then show ?thesis unfolding v by (simp add: opened_nodes_def map_concat comp_def)
qed

lemma sharded_primary_nodes:
  "primary_nodes (sharded_specs k sets) (opened_nodes sets) = map (\<lambda>x. (sd_name x, newStoreNode (the (sd_primary x)))) sets"
  by (induction sets arbitrary: k) (simp_all add: opened_nodes_def spec_dsns_def)

section \<open>The configuration of the sharded topology\<close>

definition mesh_mapping :: "shardMapping \<Rightarrow> virtualShardMapping" where
  "mesh_mapping m = \<lparr>vm_virtualShardIndexes = sm_virtualShards m, vm_mainReplicaSet = sm_mainReplicaSet m, vm_mirrorReplicaSets = sm_mirrorReplicaSets m\<rparr>"

definition sharded_config :: "('tp, 'mp, 'lg, 'a, 'b) storeOptions \<Rightarrow> uint64 \<Rightarrow> 'd shardedOptions \<Rightarrow> ('tp, 'mp, 'lg) openMeshConfig" where
  "sharded_config options n c = \<lparr>c_replicaSets = sharded_specs 0 (sh_replicaSets c), c_virtualShardCount = n, c_mappings = map mesh_mapping (sh_mappings c),
     c_tracerProvider = so_tracerProvider options, c_meterProvider = so_meterProvider options, c_logger = so_logger options\<rparr>"

lemma fold_sets:
  "foldl (\<lambda>x f. f x) config (map (\<lambda>(i, x). WithReplicaSet (sd_name x) (primaryDSN i) (set_DSNs i x)) (enumerate k sets)) =
     config\<lparr>c_replicaSets := c_replicaSets config @ sharded_specs k sets\<rparr>"
  by (induction sets arbitrary: k config) (simp_all add: WithReplicaSet_def)

lemma fold_mappings:
  "foldl (\<lambda>x f. f x) config (map (\<lambda>m. WithVirtualShardMapping (sm_mainReplicaSet m) (sm_virtualShards m) (sm_mirrorReplicaSets m)) ms) =
     config\<lparr>c_mappings := c_mappings config @ map mesh_mapping ms\<rparr>"
  by (induction ms arbitrary: config) (simp_all add: WithVirtualShardMapping_def mesh_mapping_def)

lemma sharded_options: "apply_options (sharded_meshOptions options c) (initial_config n) = Inr (sharded_config options n c)"
  unfolding sharded_meshOptions_def apply_options_Some
  by (simp add: fold_sets fold_mappings initial_config_def sharded_config_def OptTracerProvider_def OptMeterProvider_def OptLogger_def)

text \<open>
  Options that describe a topology: databases that are not nil, names that are not blank, all different
  and free of NUL, mappings between known sets that agree on the mirrors of a main set, and every virtual shard
  mapped once.
\<close>

definition sharded_ok :: "uint64 \<Rightarrow> 'd shardedOptions \<Rightarrow> bool" where
  "sharded_ok n c \<longleftrightarrow> sh_replicaSets c \<noteq> [] \<and> n \<noteq> 0 \<and> databases_ok (sh_replicaSets c) \<and>
     (\<forall>x \<in> set (sh_replicaSets c). TrimSpace (sd_name x) \<noteq> [] \<and> CHR 0x00 \<notin> set (sd_name x) \<and> length (sd_replicas x) < 2 ^ 63) \<and>
     distinct (map sd_name (sh_replicaSets c)) \<and>
     (\<forall>m \<in> set (sh_mappings c). sm_mainReplicaSet m \<in> sd_name ` set (sh_replicaSets c) \<and>
        set (sm_mirrorReplicaSets m) \<subseteq> sd_name ` set (sh_replicaSets c) \<and> sm_mainReplicaSet m \<notin> set (sm_mirrorReplicaSets m) \<and>
        distinct (sm_mirrorReplicaSets m)) \<and>
     (\<forall>m \<in> set (sh_mappings c). \<forall>m' \<in> set (sh_mappings c). sm_mainReplicaSet m = sm_mainReplicaSet m' \<longrightarrow>
        sm_mirrorReplicaSets m = sm_mirrorReplicaSets m') \<and>
     distinct (concat (map sm_virtualShards (sh_mappings c))) \<and>
     set (concat (map sm_virtualShards (sh_mappings c))) = {i. i < n}"

lemma spec_names: "map spec_name (sharded_specs k sets) = map sd_name sets"
  by (induction sets arbitrary: k) simp_all

lemma TrimSpace_starts: "\<not> is_space c \<Longrightarrow> TrimSpace (c # s) \<noteq> []"
  by (simp add: TrimSpace_def)

lemma specs_ok:
  assumes "\<forall>x \<in> set sets. TrimSpace (sd_name x) \<noteq> []"
  shows "list_all spec_ok (sharded_specs k sets)"
proof -
  have "TrimSpace (primaryDSN i) \<noteq> []" "TrimSpace (replicaDSN i r) \<noteq> []" for i r
    unfolding primaryDSN_def replicaDSN_def by (simp_all add: TrimSpace_starts is_space_def)
  then show ?thesis using assms by (induction sets arbitrary: k) (auto simp: spec_ok_def set_DSNs_def)
qed

lemma sharded_valid:
  assumes "sharded_ok n c"
  shows "valid_config (sharded_config options n c)"
proof -
  have n: "spec_name ` set (sharded_specs 0 (sh_replicaSets c)) = sd_name ` set (sh_replicaSets c)"
    using spec_names [of 0 "sh_replicaSets c"] by (metis list.set_map)
  have "sharded_specs 0 (sh_replicaSets c) \<noteq> []" using assms by (auto simp: sharded_ok_def sharded_specs_def enumerate_eq_zip)
  moreover have "list_all spec_ok (sharded_specs 0 (sh_replicaSets c))" using assms by (intro specs_ok) (auto simp: sharded_ok_def)
  moreover have "list_all (mapping_ok (sd_name ` set (sh_replicaSets c))) (map mesh_mapping (sh_mappings c))"
  proof -
    have "\<forall>m \<in> set (sh_mappings c). mapping_ok (sd_name ` set (sh_replicaSets c)) (mesh_mapping m)"
      using assms unfolding sharded_ok_def mapping_ok_def mesh_mapping_def virtualShardMapping.select_convs by blast
    then show ?thesis by (simp add: list_all_iff)
  qed
  moreover have "mirrors_agree (map mesh_mapping (sh_mappings c))"
  proof -
    have "\<forall>m \<in> set (sh_mappings c). \<forall>m' \<in> set (sh_mappings c). sm_mainReplicaSet m = sm_mainReplicaSet m' \<longrightarrow>
        sm_mirrorReplicaSets m = sm_mirrorReplicaSets m'" using assms unfolding sharded_ok_def by blast
    then show ?thesis unfolding mirrors_agree_def mesh_mapping_def set_map ball_simps virtualShardMapping.select_convs by metis
  qed
  moreover have "all_indexes (map mesh_mapping (sh_mappings c)) = concat (map sm_virtualShards (sh_mappings c))"
    by (simp add: all_indexes_def mesh_mapping_def comp_def)
  moreover have "n \<noteq> 0" "distinct (map sd_name (sh_replicaSets c))" "distinct (concat (map sm_virtualShards (sh_mappings c)))"
    "set (concat (map sm_virtualShards (sh_mappings c))) = {i. i < n}" using assms unfolding sharded_ok_def by blast+
  ultimately show ?thesis unfolding valid_config_def sharded_config_def openMeshConfig.select_convs n spec_names by presburger
qed

definition primary_database :: "'d shardedOptions \<Rightarrow> string \<Rightarrow> 'd" where
  "primary_database c name = the (map_of (map (\<lambda>x. (sd_name x, the (sd_primary x))) (sh_replicaSets c)) name)"

lemma sharded_primary:
  assumes "name \<in> sd_name ` set (sh_replicaSets c)"
  shows "primary_of (sharded_specs 0 (sh_replicaSets c)) (opened_nodes (sh_replicaSets c)) name = newStoreNode (primary_database c name)"
proof -
  have "map_of (map (\<lambda>x. (sd_name x, newStoreNode (the (sd_primary x)))) (sh_replicaSets c)) name =
      map_option newStoreNode (map_of (map (\<lambda>x. (sd_name x, the (sd_primary x))) (sh_replicaSets c)) name)"
    using map_of_map [of newStoreNode "map (\<lambda>x. (sd_name x, the (sd_primary x))) (sh_replicaSets c)"] by (simp add: comp_def)
  moreover have "map_of (map (\<lambda>x. (sd_name x, the (sd_primary x))) (sh_replicaSets c)) name \<noteq> None"
    using assms unfolding map_of_eq_None_iff by (auto simp: image_image)
  ultimately show ?thesis by (auto simp: primary_of_def sharded_primary_nodes primary_database_def)
qed

lemma OpenMesh_mesh_wf:
  assumes "snd (OpenMesh E n opener hasher options) = Returned (m, h)" and "length (m_virtualShards m) < 2 ^ 64"
  shows "mesh_wf m h"
proof -
  from assms(1) obtain b where b: "Build h b = Inr m"
    by (auto simp: OpenMesh_def split: sum.splits prod.splits option.splits)
  then have "length (b_virtualShards b) = length (m_virtualShards m)" by (auto simp: Build_iff)
  with Build_mesh_wf [OF b] assms(2) show ?thesis by simp
qed

text \<open>What the writes for a mapping reach: the primary of the main set, then those of its mirrors in their order.\<close>

definition mapping_databases :: "'d shardedOptions \<Rightarrow> shardMapping \<Rightarrow> 'd list" where
  "mapping_databases c m = map (primary_database c) (sm_mainReplicaSet m # sm_mirrorReplicaSets m)"

definition set_databases :: "('d readQueries, 'd queryStore) replicaSet \<Rightarrow> 'd list" where
  "set_databases rs = written (writer (rs_primary rs)) @ concat (map written (rs_writeMirrors rs))"

lemma written_nodes: "\<forall>y \<in> set ys. P y = newStoreNode (g y) \<Longrightarrow> concat (map written (map (\<lambda>y. writer (P y)) ys)) = map g ys"
  by (induction ys) simp_all

lemma sharded_mesh:
  assumes ok: "sharded_ok n c" and E: "\<And>p name. E p name = None"
  shows "\<exists>m h. snd (OpenMesh E n (Some (sharded_openNode (sharded_nodes (sh_replicaSets c)))) (Some hasher) (sharded_meshOptions options c)) = Returned (m, h)
    \<and> mesh_wf m h \<and> heap_ok h \<and> m_hasher m = hasher \<and> length (m_virtualShards m) = unat n
    \<and> instruments_from (provider_or_global (so_meterProvider options)) (m_telemetry m) \<and> tracer (m_telemetry m) \<noteq> None
    \<and> (\<forall>mapping \<in> set (sh_mappings c). \<forall>i \<in> set (sm_virtualShards mapping).
         \<exists>rs. rs_at h (m_virtualShards m ! unat i) = Some rs \<and> rs_name rs = sm_mainReplicaSet mapping \<and> set_databases rs = mapping_databases c mapping)"
proof -
  let ?c = "sharded_config options n c" and ?sets = "sh_replicaSets c"
  let ?f = "sharded_openNode (sharded_nodes ?sets)" and ?P = "primary_of (sharded_specs 0 ?sets) (opened_nodes ?sets)"
  have v: "valid_config ?c" by (rule sharded_valid [OF ok])
  have sets: "c_replicaSets ?c = sharded_specs 0 ?sets" "c_mappings ?c = map mesh_mapping (sh_mappings c)" "c_virtualShardCount ?c = n"
    "c_meterProvider ?c = so_meterProvider options" by (simp_all add: sharded_config_def)
  have o: "opens ?f 0 (all_dsns (c_replicaSets ?c)) = Some (opened_nodes ?sets)"
    unfolding sets(1) using ok by (intro sharded_opens) (simp add: sharded_ok_def)
  from OpenMesh_run [where E = E and hasher = hasher, OF sharded_options v o E refl] obtain m h where
    r: "snd (OpenMesh E n (Some ?f) (Some hasher) (sharded_meshOptions options c)) = Returned (m, h)"
      "length (m_virtualShards m) = unat n" "m_hasher m = hasher"
      "instruments_from (provider_or_global (so_meterProvider options)) (m_telemetry m)" "tracer (m_telemetry m) \<noteq> None"
      "(\<forall>spec \<in> set (c_replicaSets ?c). length (spec_replicaDSNs spec) < 2 ^ 63) \<longrightarrow> heap_ok h"
    unfolding sets(3,4) by fastforce
  have names: "spec_name ` set (c_replicaSets ?c) = sd_name ` set ?sets" unfolding sets(1) using spec_names [of 0 ?sets] by (metis list.set_map)
  have nul: "\<forall>spec \<in> set (c_replicaSets ?c). CHR 0x00 \<notin> set (spec_name spec)"
  proof -
    have "\<forall>x \<in> sd_name ` set ?sets. CHR 0x00 \<notin> set x" using ok unfolding sharded_ok_def by blast
    then show ?thesis unfolding names [symmetric] by blast
  qed
  from OpenMesh_shards [where E = E and hasher = hasher, OF sharded_options v nul o E] r(1)
  have s: "\<forall>mapping \<in> set (c_mappings ?c). \<forall>i \<in> set (vm_virtualShardIndexes mapping).
      \<exists>s. rs_at h (m_virtualShards m ! unat i) = Some s \<and> rs_name s = vm_mainReplicaSet mapping
        \<and> rs_primary s = primary_of (c_replicaSets ?c) (opened_nodes ?sets) (vm_mainReplicaSet mapping)
        \<and> rs_writeMirrors s = map (\<lambda>y. writer (primary_of (c_replicaSets ?c) (opened_nodes ?sets) y)) (vm_mirrorReplicaSets mapping)"
    by auto
  have d: "\<exists>rs. rs_at h (m_virtualShards m ! unat i) = Some rs \<and> rs_name rs = sm_mainReplicaSet mp \<and> set_databases rs = mapping_databases c mp"
    if mp: "mp \<in> set (sh_mappings c)" and i: "i \<in> set (sm_virtualShards mp)" for mp i
  proof -
    from s [unfolded sets(1,2)] mp i obtain rs where rs: "rs_at h (m_virtualShards m ! unat i) = Some rs" "rs_name rs = sm_mainReplicaSet mp"
      "rs_primary rs = ?P (sm_mainReplicaSet mp)" "rs_writeMirrors rs = map (\<lambda>y. writer (?P y)) (sm_mirrorReplicaSets mp)"
      by (auto simp: mesh_mapping_def)
    have "sm_mainReplicaSet mp \<in> sd_name ` set ?sets" "set (sm_mirrorReplicaSets mp) \<subseteq> sd_name ` set ?sets"
      using ok mp unfolding sharded_ok_def by blast+
    then have pr: "?P (sm_mainReplicaSet mp) = newStoreNode (primary_database c (sm_mainReplicaSet mp))"
      "\<forall>y \<in> set (sm_mirrorReplicaSets mp). ?P y = newStoreNode (primary_database c y)" using sharded_primary [of _ c] by blast+
    have "set_databases rs = mapping_databases c mp"
      unfolding set_databases_def mapping_databases_def rs(3,4) written_nodes [OF pr(2)] using pr(1) by simp
    with rs show ?thesis by blast
  qed
  have "unat n < 2 ^ 64" using unsigned_less [of n, where 'a = nat] by simp
  then have "mesh_wf m h" using OpenMesh_mesh_wf [OF r(1)] r(2) by simp
  moreover have "heap_ok h"
  proof -
    have "\<forall>x \<in> set ?sets. length (sd_replicas x) < 2 ^ 63" using ok unfolding sharded_ok_def by blast
    then have "\<forall>spec \<in> set (sharded_specs 0 ?sets). length (spec_replicaDSNs spec) < 2 ^ 63"
      by (auto simp: sharded_specs_def enumerate_eq_zip dest!: set_zip_rightD)
    then show ?thesis using r(6) unfolding sets(1) by blast
  qed
  ultimately show ?thesis using r(1-5) d by blast
qed

text \<open>What a built store promises to its methods.\<close>

definition store_ready where
  "store_ready options b \<longleftrightarrow> mesh_wf (ms_mesh (bt_store b)) (bt_heap b) \<and> heap_ok (bt_heap b)
     \<and> instruments_from (provider_or_global (so_meterProvider options)) (m_telemetry (ms_mesh (bt_store b)))
     \<and> tracer (m_telemetry (ms_mesh (bt_store b))) \<noteq> None
     \<and> dom (bs_batchers (bt_batch b)) = rs_name_at (bt_heap b) ` set (ReplicaSets (ms_mesh (bt_store b)))
     \<and> (\<forall>name x. bs_batchers (bt_batch b) name = Some x \<longrightarrow> batcher_ok x)"

lemma finish_store_ready:
  assumes "case so_copyAccounts options of None \<Rightarrow> True | Some c \<Rightarrow> Validate c = None" and "mesh_wf (ms_mesh s) h"
    and "instruments_from (provider_or_global (so_meterProvider options)) (m_telemetry (ms_mesh s))" and "tracer (m_telemetry (ms_mesh s)) \<noteq> None"
  shows "\<exists>b. finish_store options accounts reports s h = Returned b \<and> bt_store b = s \<and> bt_heap b = h \<and> (heap_ok h \<longrightarrow> store_ready options b)"
proof -
  obtain batch :: "(tel_context, copyAccountsParams) copyAccountsBatchState" and routes where
    "initializeCopyBatchers options (ms_mesh s) h = Some (Inr (batch, routes))"
    "dom (bs_batchers batch) = rs_name_at h ` set (ReplicaSets (ms_mesh s))" "\<forall>name b. bs_batchers batch name = Some b \<longrightarrow> batcher_ok b"
    using initializeCopyBatchers_ok [OF assms(1,2)] by blast
  with assms show ?thesis by (simp add: finish_store_def store_ready_def env_ok_def)
qed

text \<open>
  A store built from sharded options is ready, and a key whose hash is in range resolves to a set with the
  databases of a mapping that lists its virtual shard.
\<close>

lemma sharded_store_resolves:
  assumes "sharded_ok n c" and "\<And>p name. E p name = None"
    and "t = \<lparr>st_virtualShardCount = n, st_shardHasher = Some hasher, st_resolver = Some resolver, st_options = c\<rparr>"
    and "applyStoreOptions storeOptions = Inr options" and "case so_copyAccounts options of None \<Rightarrow> True | Some config \<Rightarrow> Validate config = None"
  shows "\<exists>b. NewStore (Some (\<lambda>so. sharded_buildStore E store_id zeroKey so accounts reports (Inr t))) storeOptions = Returned b
    \<and> store_ready options b
    \<and> (\<forall>key. hasher (resolver key) < n \<longrightarrow> (\<exists>mapping \<in> set (sh_mappings c). hasher (resolver key) \<in> set (sm_virtualShards mapping)
         \<and> (\<exists>shard rs. Resolve (ms_mesh (bt_store b)) (shardKey_of (bt_store b) key) = Inr shard
              \<and> rs_at (bt_heap b) (sh_replicaSet shard) = Some rs \<and> set_databases rs = mapping_databases c mapping)))"
proof -
  obtain m h where m: "snd (OpenMesh E n (Some (sharded_openNode (sharded_nodes (sh_replicaSets c)))) (Some hasher) (sharded_meshOptions options c)) = Returned (m, h)"
    "mesh_wf m h" "heap_ok h" "m_hasher m = hasher" "length (m_virtualShards m) = unat n"
    "instruments_from (provider_or_global (so_meterProvider options)) (m_telemetry m)" "tracer (m_telemetry m) \<noteq> None"
    "\<forall>mapping \<in> set (sh_mappings c). \<forall>i \<in> set (sm_virtualShards mapping).
       \<exists>rs. rs_at h (m_virtualShards m ! unat i) = Some rs \<and> rs_name rs = sm_mainReplicaSet mapping \<and> set_databases rs = mapping_databases c mapping"
    using sharded_mesh [where E = E and hasher = hasher and options = options, OF assms(1,2)] by blast
  let ?s = "\<lparr>ms_id = store_id, ms_mesh = m, ms_resolver = Some resolver, ms_zeroKey = zeroKey\<rparr>"
  obtain b where b: "finish_store options accounts reports ?s h = Returned b" "bt_store b = ?s" "bt_heap b = h" "store_ready options b"
    using finish_store_ready [OF assms(5), of ?s h accounts reports] m(2,3,6,7) by auto
  have "NewStore (Some (\<lambda>so. sharded_buildStore E store_id zeroKey so accounts reports (Inr t))) storeOptions = Returned b"
    using m(1) b(1) by (simp add: NewStore_def assms(3,4) sharded_buildStore_def)
  moreover have "\<exists>mapping \<in> set (sh_mappings c). hasher (resolver key) \<in> set (sm_virtualShards mapping)
      \<and> (\<exists>shard rs. Resolve m (resolver key) = Inr shard \<and> rs_at h (sh_replicaSet shard) = Some rs
           \<and> set_databases rs = mapping_databases c mapping)"
    if i: "hasher (resolver key) < n" for key
  proof -
    let ?i = "hasher (resolver key)"
    have "set (concat (map sm_virtualShards (sh_mappings c))) = {i. i < n}" using assms(1) unfolding sharded_ok_def by blast
    then obtain mapping where mp: "mapping \<in> set (sh_mappings c)" "?i \<in> set (sm_virtualShards mapping)" using i by (auto simp: set_eq_iff)
    then obtain rs where rs: "rs_at h (m_virtualShards m ! unat ?i) = Some rs" "set_databases rs = mapping_databases c mapping" using m(8) by blast
    have len: "length (m_virtualShards m) < 2 ^ 64" using m(2) by (simp add: mesh_wf_def)
    have "Resolve m (resolver key) = Inr \<lparr>sh_virtualShardIndex = ?i, sh_replicaSet = m_virtualShards m ! unat ?i\<rparr>"
      unfolding Resolve_Inr [OF len] using m(4,5) i by (simp add: word_less_nat_alt)
    with mp rs show ?thesis by fastforce
  qed
  ultimately show ?thesis using b by (intro exI [of _ b]) (simp add: shardKey_of_def)
qed

text \<open>The databases that a routed write may reach: those of the mapping, or the transaction alone.\<close>

definition write_databases where
  "write_databases c mapping queryOptions =
     (case opt_tx (applyQueryOptions queryOptions) of
        None \<Rightarrow> mapping_databases c mapping
      | Some transaction \<Rightarrow> [transaction])"

lemma ready_write_reaches:
  assumes "store_ready options b" and "\<forall>e. fst (rt_ErrorType rt e) = ''error.type''" and "st_heap st = bt_heap b"
    and "Resolve (ms_mesh (bt_store b)) (shardKey_of (bt_store b) key) = Inr shard"
    and "rs_at (bt_heap b) (sh_replicaSet shard) = Some rs" and "set_databases rs = mapping_databases c mapping"
  shows "\<exists>r new w target. routed_write rt (bt_store b) ctx storeName queryName zero key params queryOptions st =
      Some (r, st\<lparr>st_world := w, st_calls := st_calls st @ new\<rparr>)
    \<and> written target = write_databases c mapping queryOptions
    \<and> write_outcome (rt_noRows rt) zero (qs_write target) params r new"
proof -
  have "env_ok rt (bt_store b) (provider_or_global (so_meterProvider options))"
    using assms(1,2) by (simp add: env_ok_def store_ready_def)
  moreover have "rs_at (st_heap st) (sh_replicaSet shard) = Some rs" using assms(3,5) by simp
  ultimately show ?thesis
    using routed_write_reaches [OF _ assms(4), where st = st and storeOptions = queryOptions] assms(6)
    unfolding write_databases_def set_databases_def by metis
qed

text \<open>
  C30: the single-row writes of a store over a sharded topology reach the databases it was given. For options
  that describe a topology (\<open>sharded_ok\<close>: among others no set name contains NUL), with providers that hand
  out every instrument and valid COPY batching, \<^verbatim>\<open>NewStore\<close> succeeds. For a key whose hash is in range,
  \<^verbatim>\<open>UpdateAccountName\<close> and \<^verbatim>\<open>UpsertAccount\<close> with any query options then do not panic and change neither the
  heap nor the read selectors. Without a transaction they write to the primary database of the main set that
  the key's virtual shard is mapped to and after it to the primaries of the mirrors of that mapping, in their
  order, as far as the write wrapper lets them; with \<^verbatim>\<open>WithTx\<close> they write to the transaction alone. The
  grouped COPY is not part of this statement.
\<close>

theorem sharded_store_writes:
  assumes "sharded_ok n c" and "\<And>p name. E p name = None"
    and "t = \<lparr>st_virtualShardCount = n, st_shardHasher = Some hasher, st_resolver = Some resolver, st_options = c\<rparr>"
    and "applyStoreOptions storeOptions = Inr options" and "case so_copyAccounts options of None \<Rightarrow> True | Some config \<Rightarrow> Validate config = None"
  shows "\<exists>b. NewStore (Some (\<lambda>so. sharded_buildStore E store_id zeroKey so accounts reports (Inr t))) storeOptions = Returned b
    \<and> store_ready options b
    \<and> (\<forall>rt ctx arg queryOptions st. (\<forall>e. fst (rt_ErrorType rt e) = ''error.type'') \<longrightarrow> st_heap st = bt_heap b \<longrightarrow> hasher (resolver (ua_TenantKey arg)) < n \<longrightarrow>
         (\<exists>mapping \<in> set (sh_mappings c). hasher (resolver (ua_TenantKey arg)) \<in> set (sm_virtualShards mapping)
           \<and> (\<exists>r new w target. UpdateAccountName rt (bt_store b) ctx arg queryOptions st = Some (r, st\<lparr>st_world := w, st_calls := st_calls st @ new\<rparr>)
             \<and> written target = write_databases c mapping queryOptions
             \<and> write_outcome (rt_noRows rt) None (qs_write target) (updateAccountName_sqlcParams arg) r new)))
    \<and> (\<forall>rt ctx arg queryOptions st. (\<forall>e. fst (rt_ErrorType rt e) = ''error.type'') \<longrightarrow> st_heap st = bt_heap b \<longrightarrow> hasher (resolver (up_TenantKey arg)) < n \<longrightarrow>
         (\<exists>mapping \<in> set (sh_mappings c). hasher (resolver (up_TenantKey arg)) \<in> set (sm_virtualShards mapping)
           \<and> (\<exists>r new w target. UpsertAccount rt (bt_store b) ctx arg queryOptions st = Some (r, st\<lparr>st_world := w, st_calls := st_calls st @ new\<rparr>)
             \<and> written target = write_databases c mapping queryOptions
             \<and> write_outcome (rt_noRows rt) None (qs_write target) (upsertAccount_sqlcParams arg) r new)))"
proof -
  obtain b where b: "NewStore (Some (\<lambda>so. sharded_buildStore E store_id zeroKey so accounts reports (Inr t))) storeOptions = Returned b"
    "store_ready options b"
    "\<forall>key. hasher (resolver key) < n \<longrightarrow> (\<exists>mapping \<in> set (sh_mappings c). hasher (resolver key) \<in> set (sm_virtualShards mapping)
       \<and> (\<exists>shard rs. Resolve (ms_mesh (bt_store b)) (shardKey_of (bt_store b) key) = Inr shard
            \<and> rs_at (bt_heap b) (sh_replicaSet shard) = Some rs \<and> set_databases rs = mapping_databases c mapping))"
    using sharded_store_resolves [where E = E and store_id = store_id and zeroKey = zeroKey and accounts = accounts and reports = reports,
        OF assms] by blast
  have "\<exists>mapping \<in> set (sh_mappings c). hasher (resolver (ua_TenantKey arg)) \<in> set (sm_virtualShards mapping)
      \<and> (\<exists>r new w target. UpdateAccountName rt (bt_store b) ctx arg queryOptions st = Some (r, st\<lparr>st_world := w, st_calls := st_calls st @ new\<rparr>)
        \<and> written target = write_databases c mapping queryOptions
        \<and> write_outcome (rt_noRows rt) None (qs_write target) (updateAccountName_sqlcParams arg) r new)"
    if p: "\<forall>e. fst (rt_ErrorType rt e) = ''error.type''" "st_heap st = bt_heap b" "hasher (resolver (ua_TenantKey arg)) < n"
    for rt ctx arg queryOptions st
    unfolding UpdateAccountName_def using b(3) [rule_format, OF p(3)] ready_write_reaches [OF b(2) p(1,2)] by meson
  moreover have "\<exists>mapping \<in> set (sh_mappings c). hasher (resolver (up_TenantKey arg)) \<in> set (sm_virtualShards mapping)
      \<and> (\<exists>r new w target. UpsertAccount rt (bt_store b) ctx arg queryOptions st = Some (r, st\<lparr>st_world := w, st_calls := st_calls st @ new\<rparr>)
        \<and> written target = write_databases c mapping queryOptions
        \<and> write_outcome (rt_noRows rt) None (qs_write target) (upsertAccount_sqlcParams arg) r new)"
    if p: "\<forall>e. fst (rt_ErrorType rt e) = ''error.type''" "st_heap st = bt_heap b" "hasher (resolver (up_TenantKey arg)) < n"
    for rt ctx arg queryOptions st
    unfolding UpsertAccount_def using b(3) [rule_format, OF p(3)] ready_write_reaches [OF b(2) p(1,2)] by meson
  ultimately show ?thesis using b(1,2) by blast
qed

definition sample_sharded :: "nat shardedOptions" where
  "sample_sharded = \<lparr>sh_replicaSets = [\<lparr>sd_name = ''a'', sd_primary = Some 1, sd_replicas = [Some 2]\<rparr>, \<lparr>sd_name = ''b'', sd_primary = Some 3, sd_replicas = []\<rparr>],
     sh_mappings = [\<lparr>sm_mainReplicaSet = ''a'', sm_virtualShards = [0], sm_mirrorReplicaSets = [''b'']\<rparr>,
       \<lparr>sm_mainReplicaSet = ''b'', sm_virtualShards = [1], sm_mirrorReplicaSets = []\<rparr>]\<rparr>"

lemma sample_sharded_ok: "sharded_ok 2 sample_sharded"
proof -
  have "i = 0 \<or> i = 1" if "i < 2" for i :: uint64
  proof -
    have "unat i = 0 \<or> unat i = 1" using that by (auto simp: word_less_nat_alt)
    then show ?thesis by (simp add: word_unat_eq_iff)
  qed
  then have "{i :: uint64. i < 2} = {0, 1}" by (auto simp: word_less_nat_alt)
  then show ?thesis by (simp add: sharded_ok_def sample_sharded_def databases_ok_def TrimSpace_def is_space_def)
qed

theorem sharded_store_writes_witness:
  "\<exists>b :: (tenantKey, uint64, unit, unit, unit, nat, unit, unit) builtStore.
     NewStore (Some (\<lambda>so. sharded_buildStore (\<lambda>_ _. None) 0 0 so (\<lambda>_. ()) (\<lambda>_. ())
       (Inr \<lparr>st_virtualShardCount = 2, st_shardHasher = Some (\<lambda>k. k mod 2), st_resolver = Some TenantID, st_options = sample_sharded\<rparr>)))
       [Some (store_WithLogger None)] = Returned b
   \<and> (\<exists>r new w target. UpdateAccountName (sample_runtime None) (bt_store b) sample_context \<lparr>ua_TenantKey = \<lparr>TenantID = 4\<rparr>, ua_ID = 5, ua_DisplayName = ''x''\<rparr> []
          (sample_state\<lparr>st_heap := bt_heap b\<rparr>) = Some (r, sample_state\<lparr>st_heap := bt_heap b, st_world := w, st_calls := new\<rparr>)
        \<and> written target = [1, 3] \<and> write_outcome (Foreign 0) None (qs_write target) \<lparr>uap_TenantID = 4, uap_ID = 5, uap_DisplayName = ''x''\<rparr> r new)"
proof -
  let ?rt = "sample_runtime None :: (unit, nat, updateAccountNameParams, account option) runtime"
  let ?t = "\<lparr>st_virtualShardCount = 2, st_shardHasher = Some (\<lambda>k. k mod 2), st_resolver = Some TenantID, st_options = sample_sharded\<rparr> :: (tenantKey, uint64, nat) shardedTopology"
  let ?o = "\<lparr>so_tracerProvider = None, so_meterProvider = None, so_logger = None, so_Accounts = None, so_Reports = None, so_copyAccounts = None\<rparr> :: (unit, unit, unit, unit, unit) storeOptions"
  let ?arg = "\<lparr>ua_TenantKey = \<lparr>TenantID = 4\<rparr>, ua_ID = 5, ua_DisplayName = ''x''\<rparr> :: updateAccountNameT"
  have o: "applyStoreOptions [Some (store_WithLogger None)] = Inr ?o"
    by (simp add: applyStoreOptions_def run_options_def store_WithLogger_def)
  have v: "case so_copyAccounts ?o of None \<Rightarrow> True | Some config \<Rightarrow> Validate config = None" by simp
  from sharded_store_writes [where E = "\<lambda>_ _. None" and store_id = 0 and zeroKey = 0 and accounts = "\<lambda>_. ()" and reports = "\<lambda>_. ()",
      OF sample_sharded_ok refl refl o v]
  obtain b :: "(tenantKey, uint64, unit, unit, unit, nat, unit, unit) builtStore" where
    b: "NewStore (Some (\<lambda>so. sharded_buildStore (\<lambda>_ _. None) 0 0 so (\<lambda>_. ()) (\<lambda>_. ()) (Inr ?t))) [Some (store_WithLogger None)] = Returned b"
    "\<forall>rt ctx arg queryOptions st. (\<forall>e. fst (rt_ErrorType rt e) = ''error.type'') \<longrightarrow> st_heap st = bt_heap b \<longrightarrow> TenantID (ua_TenantKey arg) mod 2 < 2 \<longrightarrow>
         (\<exists>mapping \<in> set (sh_mappings sample_sharded). TenantID (ua_TenantKey arg) mod 2 \<in> set (sm_virtualShards mapping)
           \<and> (\<exists>r new w target. UpdateAccountName rt (bt_store b) ctx arg queryOptions st = Some (r, st\<lparr>st_world := w, st_calls := st_calls st @ new\<rparr>)
             \<and> written target = write_databases sample_sharded mapping queryOptions
             \<and> write_outcome (rt_noRows rt) None (qs_write target) (updateAccountName_sqlcParams arg) r new))" by blast
  have rt: "\<forall>e. fst (rt_ErrorType ?rt e) = ''error.type''" by (simp add: sample_runtime_def sample_error_type_def)
  have h: "st_heap (sample_state\<lparr>st_heap := bt_heap b\<rparr>) = bt_heap b" by simp
  have k: "TenantID (ua_TenantKey ?arg) mod 2 < 2" by simp
  from b(2) [rule_format, OF rt [THEN spec] h k, of sample_context "[]"]
  obtain mapping r new w target where m: "mapping \<in> set (sh_mappings sample_sharded)" "TenantID (ua_TenantKey ?arg) mod 2 \<in> set (sm_virtualShards mapping)"
    "UpdateAccountName ?rt (bt_store b) sample_context ?arg [] (sample_state\<lparr>st_heap := bt_heap b\<rparr>) =
       Some (r, sample_state\<lparr>st_heap := bt_heap b, st_world := w, st_calls := st_calls (sample_state\<lparr>st_heap := bt_heap b\<rparr>) @ new\<rparr>)"
    "written target = write_databases sample_sharded mapping []"
    "write_outcome (rt_noRows ?rt) None (qs_write target) (updateAccountName_sqlcParams ?arg) r new" by blast
  have "write_databases sample_sharded mapping [] = [1, 3]" using m(1,2) by (auto simp: write_databases_def applyQueryOptions_def sample_sharded_def mapping_databases_def primary_database_def)
  with b(1) m(3-5) show ?thesis
    by (intro exI [of _ b] conjI exI [of _ r] exI [of _ new] exI [of _ w] exI [of _ target])
      (simp_all add: sample_state_def sample_runtime_def updateAccountName_sqlcParams_def)
qed

section \<open>What the single-database topology serves\<close>

definition singleton_ok :: "('tp, 'mp, 'lg, 'a, 'b) storeOptions \<Rightarrow> 'd singletonConfig \<Rightarrow> bool" where
  "singleton_ok options config \<longleftrightarrow> sc_primary config \<noteq> None \<and> None \<notin> set (sc_replicas config) \<and> None \<notin> set (sc_mirrors config) \<and>
     (sc_name config = [] \<or> TrimSpace (sc_name config) \<noteq> []) \<and>
     (case so_copyAccounts options of None \<Rightarrow> True | Some c \<Rightarrow> Validate c = None)"

lemma nil_database_Inr: "nil_database format databases = Inr () \<longleftrightarrow> None \<notin> set databases"
  by (auto simp: nil_database_def foldM_check_enumerate in_set_conv_nth)

lemma singleton_sets:
  assumes "NewReplicaSet name (newStoreNode primary) (map newStoreNode replicas) empty_heap = (p, h)"
    and "WithWriteMirrors p mirrors h = Some (p', h')"
  shows "p' = 1 \<and> rs_at h' 1 = Some \<lparr>rs_name = name, rs_primary = newStoreNode primary, rs_readTargets = 0, rs_writeMirrors = mirrors\<rparr>
    \<and> (length replicas < 2 ^ 63 \<longrightarrow> heap_ok h')"
proof -
  have "heap_ok h'" if "length replicas < 2 ^ 63"
    using heap_ok_WithWriteMirrors [OF heap_ok_NewReplicaSet [OF heap_ok_empty _ assms(1), THEN conjunct1] assms(2)] that by simp
  with assms show ?thesis by (auto simp: NewReplicaSet_def WithWriteMirrors_def rs_at_def empty_heap_def)
qed

lemma singleton_mesh_ok:
  assumes E: "\<And>p name. E p name = None"
  obtains (failed) h e where "singleton_mesh E options name primary replicas mirrors = Some (h, Inl e)" and "TrimSpace name = []"
  | (built) h m where "singleton_mesh E options name primary replicas mirrors = Some (h, Inr m)" and "TrimSpace name \<noteq> []" and "mesh_wf m h"
      and "m_virtualShards m = [1]" and "m_hasher m = constant_Hash (NewConstantShardHasher 0)"
      and "rs_at h 1 = Some \<lparr>rs_name = name, rs_primary = newStoreNode primary, rs_readTargets = 0, rs_writeMirrors = map (\<lambda>d. writer (newStoreNode d)) mirrors\<rparr>"
      and "instruments_from (provider_or_global (so_meterProvider options)) (m_telemetry m)" and "tracer (m_telemetry m) \<noteq> None"
      and "length replicas < 2 ^ 63 \<Longrightarrow> heap_ok h"
proof -
  let ?c = "\<lparr>c_replicaSets = [], c_virtualShardCount = 1, c_mappings = [], c_tracerProvider = so_tracerProvider options,
    c_meterProvider = so_meterProvider options, c_logger = so_logger options\<rparr>"
  define b where "b = mesh_builder_for E (Some (constant_Hash (NewConstantShardHasher 0) :: 8 word \<Rightarrow> uint64)) ?c"
  note k = mesh_builder_for_ok [OF E b_def]
  let ?b = "MapVirtualShard 0 (Some 1) b"
  obtain p h0 where n: "NewReplicaSet name (newStoreNode primary) (map newStoreNode replicas) empty_heap = (p, h0)" by (meson surj_pair)
  obtain p' h where w: "WithWriteMirrors p (map (\<lambda>d. writer (newStoreNode d)) mirrors) h0 = Some (p', h)"
    using n by (auto simp: NewReplicaSet_def WithWriteMirrors_def rs_at_def empty_heap_def)
  note s = singleton_sets [OF n w]
  have m: "singleton_mesh E options name primary replicas mirrors = Some (h, Build h ?b)"
    using n w s by (simp add: singleton_mesh_def b_def mesh_builder_for_def)
  have v: "b_virtualShards ?b = [Some 1]" "b_err ?b = None" "b_hasher ?b = Some (constant_Hash (NewConstantShardHasher 0))" "b_telemetry ?b = b_telemetry b"
    using k by (simp_all add: MapVirtualShard_def)
  have name: "rs_name_at h 1 = name" using s by (simp add: rs_name_at_def)
  show thesis
  proof (cases "Build h ?b")
    case (Inl e)
    then have "\<not> (\<exists>x. Build h ?b = Inr x)" by simp
    then have "TrimSpace name = []" unfolding Build_iff using v name by (auto simp: names_ok_def)
    then show thesis using failed [of h e] m Inl by simp
  next
    case (Inr x)
    then have x: "TrimSpace name \<noteq> []" "m_virtualShards x = [1]" "m_hasher x = constant_Hash (NewConstantShardHasher 0)" "m_telemetry x = b_telemetry b"
      using v name by (auto simp: Build_iff names_ok_def)
    have "mesh_wf x h" using Build_mesh_wf [OF Inr] v(1) by simp
    then show thesis using built [of h x] m Inr x s k by simp
  qed
qed

lemma singleton_checks_Inr:
  "singleton_checks config = Inr () \<longleftrightarrow> sc_primary config \<noteq> None \<and> None \<notin> set (sc_replicas config) \<and> None \<notin> set (sc_mirrors config)"
  by (auto simp: singleton_checks_def result_simps nil_database_Inr)

lemma singleton_named:
  assumes "sc_primary config = Some primary" and "None \<notin> set (sc_replicas config)" and "None \<notin> set (sc_mirrors config)"
    and "name = (if sc_name config = [] then ''default'' else sc_name config)"
  shows "singleton_buildStore E store_id options accounts reports (Inr config) =
    (case singleton_mesh E options name primary (map the (sc_replicas config)) (map the (sc_mirrors config)) of
       None \<Rightarrow> Panicked
     | Some (h, Inl e) \<Rightarrow> Failed e
     | Some (h, Inr m) \<Rightarrow> finish_store options accounts reports \<lparr>ms_id = store_id, ms_mesh = m, ms_resolver = None, ms_zeroKey = 0\<rparr> h)"
proof -
  let ?c = "if sc_name config = [] then config\<lparr>sc_name := ''default''\<rparr> else config"
  have "singleton_checks ?c = Inr ()" using assms by (simp add: singleton_checks_Inr)
  with assms show ?thesis by (simp add: singleton_buildStore_def Let_def)
qed

lemma finish_store_fails:
  assumes "so_copyAccounts options = Some c" and "Validate c \<noteq> None" and "mesh_wf (ms_mesh s) h" and "ReplicaSets (ms_mesh s) \<noteq> []"
  shows "\<exists>e. finish_store options accounts reports s h = Failed e"
proof -
  obtain p ps where p: "ReplicaSets (ms_mesh s) = p # ps" using assms(4) by (cases "ReplicaSets (ms_mesh s)") auto
  then obtain rs where "rs_at h p = Some rs" using assms(3) by (auto simp: mesh_wf_def)
  then obtain route where "WriteRoute store_mirrors p h = Some route" by (auto simp: WriteRoute_def)
  moreover obtain e where "NewCopyBatcher c False = (Inl e :: (tel_context, copyAccountsParams) copyBatcher result)"
    using assms(2) by (auto simp: NewCopyBatcher_def)
  ultimately show ?thesis using assms(1) p by (simp add: finish_store_def initializeCopyBatchers_def Let_def)
qed

text \<open>
  C31: with providers that hand out every instrument, the single-database topology is built exactly when its handles are not nil, its name is not
  blank (an empty name becomes ``default''), and the configuration of the batching is valid. In a built
  store every key leads to the one replica set, whose writes reach the primary and then the mirrors in their order.
\<close>

theorem singleton_store_builds:
  assumes "\<And>p name. E p name = None"
  shows "if singleton_ok options config
    then \<exists>b. singleton_buildStore E store_id options accounts reports (Inr config) = Returned b
      \<and> (length (sc_replicas config) < 2 ^ 63 \<longrightarrow> store_ready options b)
      \<and> (\<forall>key. \<exists>shard rs. Resolve (ms_mesh (bt_store b)) (shardKey_of (bt_store b) key) = Inr shard \<and> rs_at (bt_heap b) (sh_replicaSet shard) = Some rs
           \<and> set_databases rs = the (sc_primary config) # map the (sc_mirrors config))
    else \<exists>e. singleton_buildStore E store_id options accounts reports (Inr config) = Failed e"
proof (cases "sc_primary config \<noteq> None \<and> None \<notin> set (sc_replicas config) \<and> None \<notin> set (sc_mirrors config)")
  case False
  let ?c = "if sc_name config = [] then config\<lparr>sc_name := ''default''\<rparr> else config"
  have "singleton_checks ?c \<noteq> Inr ()" using False by (auto simp: singleton_checks_Inr)
  then obtain e where "singleton_checks ?c = Inl e" by (cases "singleton_checks ?c") auto
  then show ?thesis using False by (auto simp: singleton_ok_def singleton_buildStore_def Let_def)
next
  case True
  then obtain primary where primary: "sc_primary config = Some primary" by blast
  define name where "name = (if sc_name config = [] then ''default'' else sc_name config)"
  have blank: "TrimSpace name = [] \<longleftrightarrow> \<not> (sc_name config = [] \<or> TrimSpace (sc_name config) \<noteq> [])"
    by (simp add: name_def TrimSpace_def is_space_def)
  note build = singleton_named [OF primary _ _ name_def, of E store_id options accounts reports]
  show ?thesis
  proof (cases rule: singleton_mesh_ok [where E = E, OF assms, of options name primary "map the (sc_replicas config)" "map the (sc_mirrors config)",
      case_names failed built])
    case (failed h e)
    then show ?thesis using True build blank by (simp add: singleton_ok_def)
  next
    case (built h m)
    let ?s = "\<lparr>ms_id = store_id, ms_mesh = m, ms_resolver = None, ms_zeroKey = 0\<rparr>"
    have b: "singleton_buildStore E store_id options accounts reports (Inr config) = finish_store options accounts reports ?s h"
      using True build built(1) by simp
    have sets: "ReplicaSets m \<noteq> []" using built(3,4) by (auto simp: mesh_wf_def)
    show ?thesis
    proof (cases "singleton_ok options config")
      case True
      then have "case so_copyAccounts options of None \<Rightarrow> True | Some c \<Rightarrow> Validate c = None" by (simp add: singleton_ok_def)
      from finish_store_ready [OF this, of ?s h accounts reports] built(3,7,8) obtain x where
        x: "finish_store options accounts reports ?s h = Returned x" "bt_store x = ?s" "bt_heap x = h" "heap_ok h \<longrightarrow> store_ready options x" by auto
      have "Resolve m k = Inr \<lparr>sh_virtualShardIndex = 0, sh_replicaSet = 1\<rparr>" for k
        using built(4,5) by (simp add: Resolve_def Let_def constant_Hash_def NewConstantShardHasher_def)
      moreover have "set_databases \<lparr>rs_name = name, rs_primary = newStoreNode primary, rs_readTargets = 0,
          rs_writeMirrors = map (\<lambda>d. writer (newStoreNode d)) (map the (sc_mirrors config))\<rparr> = primary # map the (sc_mirrors config)"
        using written_nodes [of "map the (sc_mirrors config)" newStoreNode "\<lambda>d. d"] by (simp add: set_databases_def)
      ultimately show ?thesis using True b x built(6,9) primary by (auto simp: comp_def)
    next
      case False
      then obtain c where "so_copyAccounts options = Some c" "Validate c \<noteq> None"
        using True primary built(2) blank by (auto simp: singleton_ok_def split: option.splits)
      from finish_store_fails [OF this, of ?s h accounts reports] built(3) sets False b show ?thesis by auto
    qed
  qed
qed

theorem singleton_store_builds_witness:
  "\<exists>b :: (tenantKey, 8 word, unit, unit, unit, nat, unit, unit) builtStore.
     singleton_buildStore (\<lambda>_ _. None) 0
       \<lparr>so_tracerProvider = None, so_meterProvider = None, so_logger = None, so_Accounts = None, so_Reports = None, so_copyAccounts = Some zero_batch_config\<rparr>
       (\<lambda>_. ()) (\<lambda>_. ()) (Inr \<lparr>sc_name = [], sc_primary = Some 1, sc_replicas = [Some 2], sc_mirrors = [Some 3]\<rparr>) = Returned b
   \<and> (\<exists>shard rs. Resolve (ms_mesh (bt_store b)) (shardKey_of (bt_store b) \<lparr>TenantID = 9\<rparr>) = Inr shard \<and> rs_at (bt_heap b) (sh_replicaSet shard) = Some rs
        \<and> set_databases rs = [1, 3])"
proof -
  let ?o = "\<lparr>so_tracerProvider = None, so_meterProvider = None, so_logger = None, so_Accounts = None, so_Reports = None, so_copyAccounts = Some zero_batch_config\<rparr> :: (unit, unit, unit, unit, unit) storeOptions"
  let ?c = "\<lparr>sc_name = [], sc_primary = Some 1, sc_replicas = [Some 2], sc_mirrors = [Some 3]\<rparr> :: nat singletonConfig"
  have ok: "singleton_ok ?o ?c = True" by (simp add: singleton_ok_def Validate_def zero_batch_config_def)
  from singleton_store_builds [where E = "\<lambda>_ _. None" and options = ?o and config = ?c and store_id = 0 and accounts = "\<lambda>_. ()" and reports = "\<lambda>_. ()",
      OF refl, unfolded ok if_True]
  obtain b :: "(tenantKey, 8 word, unit, unit, unit, nat, unit, unit) builtStore" where
    b: "singleton_buildStore (\<lambda>_ _. None) 0 ?o (\<lambda>_. ()) (\<lambda>_. ()) (Inr ?c) = Returned b
      \<and> (length (sc_replicas ?c) < 2 ^ 63 \<longrightarrow> store_ready ?o b)
      \<and> (\<forall>key. \<exists>shard rs. Resolve (ms_mesh (bt_store b)) (shardKey_of (bt_store b) key) = Inr shard \<and> rs_at (bt_heap b) (sh_replicaSet shard) = Some rs
       \<and> set_databases rs = the (sc_primary ?c) # map the (sc_mirrors ?c))" by (rule exE)
  from b [THEN conjunct2, THEN conjunct2, THEN spec, of "\<lparr>TenantID = 9\<rparr>"] have "\<exists>shard rs. Resolve (ms_mesh (bt_store b)) (shardKey_of (bt_store b) \<lparr>TenantID = 9\<rparr>) = Inr shard
      \<and> rs_at (bt_heap b) (sh_replicaSet shard) = Some rs \<and> set_databases rs = [1, 3]" by simp
  with b [THEN conjunct1] show ?thesis by blast
qed

end
