(* ===== verification/Plugin_Request.thy ===== *)
theory Plugin_Request
  imports Go_Text "HOL-Library.AList" "HOL-Library.Product_Lexorder"
begin

text \<open>
  The input of the code generator \<^verbatim>\<open>sqlcplugin\<close>: the messages of sqlc's plugin protocol as far as
  the generator reads them, the plugin's options, and the functions of Go's \<^verbatim>\<open>path/filepath\<close>
  the generator calls. A message is read through getters only, which answer the zero value on a
  nil message, so a message that may be absent is an option only where the code compares it with
  nil. Counts and positions that sqlc sends (\<^verbatim>\<open>array_dims\<close>, parameter numbers) are natural
  numbers.
\<close>

section \<open>Messages of the protocol\<close>

record sql_identifier =
  id_Catalog :: string
  id_Schema :: string
  id_Name :: string

record column =
  col_Name :: string
  col_OriginalName :: string
  col_Type :: "sql_identifier option"
  col_Table :: "sql_identifier option"
  col_EmbedTable :: "sql_identifier option"
  col_NotNull :: bool
  col_IsArray :: bool
  col_ArrayDims :: nat
  col_IsSqlcSlice :: bool
  col_IsNamedParam :: bool
  col_Unsigned :: bool

record parameter =
  par_Number :: nat
  par_Column :: column

record sql_query =
  sq_Name :: string
  sq_Cmd :: string
  sq_Text :: string
  sq_Comments :: "string list"
  sq_Columns :: "column list"
  sq_Params :: "parameter list"
  sq_InsertIntoTable :: "sql_identifier option"

record table =
  tab_Rel :: sql_identifier
  tab_Columns :: "column list"

record schema =
  sch_Name :: string
  sch_Tables :: "table list"
  sch_Enums :: "string list"
  sch_CompositeTypes :: "string list"

record catalog =
  cat_DefaultSchema :: string
  cat_Schemas :: "schema list"

record request =
  req_Engine :: string
  req_CodegenOut :: "string option"
  req_PluginOptions :: string
  req_Catalog :: catalog
  req_Queries :: "sql_query list"

section \<open>Options of the plugin\<close>

text \<open>
  The options record of \<^verbatim>\<open>options.go\<close> with the type overrides of \<^verbatim>\<open>postgresql_type.go\<close>. The map
  \<open>Rename\<close> is an association list, whose order is the order a Go \<^verbatim>\<open>range\<close> over the map takes.
\<close>

record go_type =
  gt_path :: string
  gt_pkg :: string
  gt_name :: string
  gt_pointer :: bool
  gt_slice :: bool
  gt_spec :: string

record override =
  ov_GoType :: go_type
  ov_DBType :: string
  ov_Nullable :: bool
  ov_Unsigned :: bool
  ov_Column :: string
  ov_typeName :: string
  ov_importPath :: string
  ov_importAlias :: string
  ov_columnName :: string
  ov_tableCatalog :: string
  ov_tableSchema :: string
  ov_tableName :: string

record options =
  OutputFileName :: string
  PackageName :: string
  InternalImportPath :: string
  InternalImportAlias :: string
  ExportSQLCTypes :: bool
  ConstructorName :: string
  IgnoreMirrorError :: bool
  StoreInterfaceName :: string
  RuntimeImportPath :: string
  ResolverInterfaceName :: string
  ShardedConstructor :: string
  SQLPackage :: string
  QueryParameterLimit :: "int option"
  EmitParamsStructPointers :: bool
  EmitResultStructPointers :: bool
  EmitPointersForNullTypes :: bool
  EmitPointersForNullEnumType :: "bool option"
  EmitExactTableNames :: bool
  EmitJSONTags :: bool
  Rename :: "(string \<times> string) list"
  Overrides :: "override list"

text \<open>The lookup \<^verbatim>\<open>opts.Rename[name]\<close>: the empty string when there is no entry.\<close>

definition rename_of :: "options \<Rightarrow> string \<Rightarrow> string" where
  "rename_of opts nm = (case map_of (Rename opts) nm of None \<Rightarrow> [] | Some r \<Rightarrow> r)"

text \<open>The zero value of the options, into which the JSON decoder writes.\<close>

definition zero_options :: options where
  "zero_options = \<lparr>OutputFileName = [], PackageName = [], InternalImportPath = [],
     InternalImportAlias = [], ExportSQLCTypes = False, ConstructorName = [],
     IgnoreMirrorError = False, StoreInterfaceName = [], RuntimeImportPath = [],
     ResolverInterfaceName = [], ShardedConstructor = [], SQLPackage = [],
     QueryParameterLimit = None, EmitParamsStructPointers = False,
     EmitResultStructPointers = False, EmitPointersForNullTypes = False,
     EmitPointersForNullEnumType = None, EmitExactTableNames = False, EmitJSONTags = False,
     Rename = [], Overrides = []\<rparr>"

section \<open>Paths\<close>

text \<open>\<^verbatim>\<open>filepath.Base\<close>, \<^verbatim>\<open>filepath.Ext\<close>, \<^verbatim>\<open>filepath.Clean\<close> and \<^verbatim>\<open>filepath.Dir\<close> with separator \<open>/\<close>.\<close>

definition path_Base :: "string \<Rightarrow> string" where
  "path_Base p =
     (if p = [] then ''.''
      else let q = rev (dropWhile (\<lambda>c. c = CHR ''/'') (rev p));
               b = rev (takeWhile (\<lambda>c. c \<noteq> CHR ''/'') (rev q))
           in if b = [] then ''/'' else b)"

definition path_Ext :: "string \<Rightarrow> string" where
  "path_Ext p =
     (let t = takeWhile (\<lambda>c. c \<noteq> CHR ''.'' \<and> c \<noteq> CHR ''/'') (rev p);
          r = drop (length t) (rev p)
      in case r of [] \<Rightarrow> [] | c # _ \<Rightarrow> if c = CHR ''.'' then c # rev t else [])"

fun clean_parts :: "bool \<Rightarrow> string list \<Rightarrow> string list \<Rightarrow> string list" where
  "clean_parts rooted stack [] = rev stack"
| "clean_parts rooted stack (w # ws) =
     (if w = [] \<or> w = ''.'' then clean_parts rooted stack ws
      else if w = ''..'' then
        (case stack of
           [] \<Rightarrow> clean_parts rooted (if rooted then [] else [w]) ws
         | t # ts \<Rightarrow> clean_parts rooted (if t = ''..'' then w # stack else ts) ws)
      else clean_parts rooted (w # stack) ws)"

definition path_Clean :: "string \<Rightarrow> string" where
  "path_Clean p =
     (let rooted = HasPrefix p ''/'';
          body = join_with ''/'' (clean_parts rooted [] (split_on CHR ''/'' p))
      in if rooted then CHR ''/'' # body else if body = [] then ''.'' else body)"

definition path_Dir :: "string \<Rightarrow> string" where
  "path_Dir p = path_Clean (rev (dropWhile (\<lambda>c. c \<noteq> CHR ''/'') (rev p)))"

text \<open>The extension is a suffix of the path; a path is its stem with the extension.\<close>

lemma path_Ext_suffix: "HasSuffix p (path_Ext p)"
proof -
  let ?t = "takeWhile (\<lambda>c. c \<noteq> CHR ''.'' \<and> c \<noteq> CHR ''/'') (rev p)"
  let ?r = "drop (length ?t) (rev p)"
  have "rev p = ?t @ ?r" by (metis dropWhile_eq_drop takeWhile_dropWhile_id)
  then have p: "p = rev ?r @ rev ?t" by (metis rev_append rev_rev_ident)
  show ?thesis
  proof (cases ?r)
    case Nil
    then show ?thesis by (simp add: path_Ext_def Let_def HasSuffix_def)
  next
    case (Cons c cs)
    then have "p = rev cs @ c # rev ?t" using p by simp
    then show ?thesis
      using Cons by (cases "c = CHR ''.''")
        (auto simp: path_Ext_def Let_def HasSuffix_iff HasSuffix_def)
  qed
qed

lemma path_stem: "TrimSuffix p (path_Ext p) @ path_Ext p = p"
proof -
  obtain t where "p = t @ path_Ext p" using path_Ext_suffix HasSuffix_iff by blast
  then show ?thesis by (metis TrimSuffix_append)
qed

end
