(* ===== verification/Plugin_Naming.thy ===== *)
theory Plugin_Naming
  imports Plugin_Request
begin

text \<open>
  Names in generated code: \<^verbatim>\<open>naming.go\<close> (SQL names to Go names), \<^verbatim>\<open>declarations.go\<close> (the names the
  generator always declares), \<^verbatim>\<open>imports.go\<close> (the import set of a file) and the choice of fresh
  result names of \<^verbatim>\<open>query.go\<close>.
\<close>

section \<open>Identifiers\<close>

definition goKeywords :: "string list" where
  "goKeywords = [''break'', ''default'', ''func'', ''interface'', ''select'', ''case'', ''defer'',
     ''go'', ''map'', ''struct'', ''chan'', ''else'', ''goto'', ''package'', ''switch'', ''const'',
     ''fallthrough'', ''if'', ''range'', ''type'', ''continue'', ''for'', ''import'', ''return'',
     ''var'']"

definition escape :: "string \<Rightarrow> string" where
  "escape nm = (if nm \<in> set goKeywords then nm @ ''_'' else nm)"

fun valid_rest :: "nat \<Rightarrow> string \<Rightarrow> bool" where
  "valid_rest i [] = True"
| "valid_rest i (r # rs) =
     (if is_letter r \<or> r = CHR ''_'' \<or> 0 < i \<and> is_digit r then valid_rest (Suc i) rs else False)"

definition validRouteIdentifier :: "string \<Rightarrow> bool" where
  "validRouteIdentifier s = (if s = [] then False else valid_rest 0 s)"

definition first_upper :: "string \<Rightarrow> bool" where
  "first_upper s = (case s of [] \<Rightarrow> False | c # _ \<Rightarrow> is_upper c)"

definition title :: "string \<Rightarrow> string" where
  "title s = (case s of [] \<Rightarrow> [] | c # cs \<Rightarrow> to_upper_char c # cs)"

definition lowerTitle :: "string \<Rightarrow> string" where
  "lowerTitle s = (case s of [] \<Rightarrow> [] | c # cs \<Rightarrow> to_lower_char c # cs)"

fun splitIdentifier_loop :: "string \<Rightarrow> string \<Rightarrow> string list" where
  "splitIdentifier_loop current [] = (if current \<noteq> [] then [current] else [])"
| "splitIdentifier_loop current (r # rs) =
     (if is_letter r \<or> is_digit r then splitIdentifier_loop (current @ [r]) rs
      else if current \<noteq> [] then current # splitIdentifier_loop [] rs
      else splitIdentifier_loop [] rs)"

definition splitIdentifier :: "string \<Rightarrow> string list" where
  "splitIdentifier nm = splitIdentifier_loop [] nm"

definition struct_part :: "string \<Rightarrow> string" where
  "struct_part part =
     (let lower = ToLower part in if EqualFold lower ''id'' then ''ID'' else title lower)"

definition structName :: "string \<Rightarrow> options \<Rightarrow> string" where
  "structName nm opts =
     (if rename_of opts nm \<noteq> [] then rename_of opts nm
      else let res = concat (map struct_part (splitIdentifier nm))
           in case res of
                [] \<Rightarrow> []
              | c # _ \<Rightarrow> if is_digit c then CHR ''_'' # res else res)"

fun argName_parts :: "nat \<Rightarrow> string list \<Rightarrow> string" where
  "argName_parts idx [] = []"
| "argName_parts idx (part # parts) =
     (if idx = 0 then ToLower part
      else if EqualFold part ''id'' then ''ID''
      else title part) @ argName_parts (Suc idx) parts"

definition argName :: "string \<Rightarrow> string" where
  "argName nm = argName_parts 0 (split_on CHR ''_'' nm)"

definition columnName :: "column \<Rightarrow> nat \<Rightarrow> string" where
  "columnName c pos = (if col_Name c \<noteq> [] then col_Name c else ''column_'' @ Itoa (pos + 1))"

definition paramName :: "parameter \<Rightarrow> string" where
  "paramName p =
     (if col_Name (par_Column p) \<noteq> [] then argName (col_Name (par_Column p))
      else ''dollar_'' @ Itoa (par_Number p))"

text \<open>
  \<^verbatim>\<open>snakeCaseIdentifier\<close> walks over the name with the previous rune (none at the start) and the
  runes that follow.
\<close>

fun snake_from :: "char option \<Rightarrow> string \<Rightarrow> string" where
  "snake_from previous [] = []"
| "snake_from previous (current # rest) =
     (case previous of
        None \<Rightarrow> []
      | Some p \<Rightarrow>
          if is_upper current then
            let nextIsLower = (case rest of [] \<Rightarrow> False | n # _ \<Rightarrow> is_lower n)
            in if is_lower p \<or> is_digit p \<or> is_upper p \<and> nextIsLower then ''_'' else []
          else [])
     @ to_lower_char current # snake_from (Some current) rest"

definition snakeCaseIdentifier :: "string \<Rightarrow> string" where
  "snakeCaseIdentifier nm = snake_from None nm"

definition isDigits :: "string \<Rightarrow> bool" where
  "isDigits s \<longleftrightarrow> list_all is_digit s \<and> s \<noteq> []"

definition importPackageRune :: "char \<Rightarrow> char" where
  "importPackageRune r =
     (if is_letter r \<or> is_digit r \<or> r = CHR ''_'' then to_lower_char r else CHR ''_'')"

definition packageNameForImport :: "string \<Rightarrow> string" where
  "packageNameForImport path =
     (let base = TrimSuffix (TrimPrefix (path_Base path) ''go-'') ''-go''
      in if HasPrefix base ''v'' \<and> length base > 1 \<and> isDigits (drop 1 base) then
           let parent = TrimSuffix (TrimPrefix (path_Base (path_Dir path)) ''go-'') ''-go''
           in map importPackageRune parent
         else map importPackageRune base)"

section \<open>Declared names and imports\<close>

definition constructorOption :: string where "constructorOption = ''constructor''"
definition generatedOptionDeclaration :: string where
  "generatedOptionDeclaration = ''generated option constructor''"
definition sqlcDeclaration :: string where "sqlcDeclaration = ''sqlc declaration''"

definition fixedGeneratedDeclarations :: "bool \<Rightarrow> (string \<times> string) list" where
  "fixedGeneratedDeclarations includeSQLC =
     [(''QueryOption'', ''generated query option''),
      (''ReadFromPrimary'', generatedOptionDeclaration),
      (''ShardedOption'', ''generated sharded option''),
      (''Singleton'', ''generated singleton constructor''),
      (''SingletonOption'', ''generated singleton option''),
      (''StoreOption'', ''generated store option''),
      (''Topology'', ''generated topology''),
      (''WithDatabaseName'', generatedOptionDeclaration),
      (''WithLogger'', generatedOptionDeclaration),
      (''WithMeterProvider'', generatedOptionDeclaration),
      (''WithReadReplicas'', generatedOptionDeclaration),
      (''WithReplicaSet'', generatedOptionDeclaration),
      (''WithTracerProvider'', generatedOptionDeclaration),
      (''WithTx'', generatedOptionDeclaration),
      (''WithVirtualShardMapping'', generatedOptionDeclaration),
      (''WithWriteMirrors'', generatedOptionDeclaration)]
     @ (if includeSQLC then
          [(''DBTX'', sqlcDeclaration), (''New'', sqlcDeclaration), (''Queries'', sqlcDeclaration),
           (''Querier'', sqlcDeclaration)]
        else [])"

definition generatedDeclarations :: "options \<Rightarrow> string \<rightharpoonup> string" where
  "generatedDeclarations opts =
     (map_of (fixedGeneratedDeclarations (InternalImportPath opts = [])))
       (ConstructorName opts \<mapsto> constructorOption,
        ResolverInterfaceName opts \<mapsto> ''resolver interface'',
        ShardedConstructor opts \<mapsto> ''sharded constructor'',
        StoreInterfaceName opts \<mapsto> ''store interface'')"

record import_spec =
  imp_name :: string
  imp_path :: string

type_synonym import_set = "(string \<times> import_spec) list"

definition addNamed :: "string \<Rightarrow> string \<Rightarrow> import_set \<Rightarrow> import_set" where
  "addNamed nm path s =
     (if path = [] then s else AList.update path \<lparr>imp_name = nm, imp_path = path\<rparr> s)"

definition import_add :: "string \<Rightarrow> import_set \<Rightarrow> import_set" where
  "import_add path s = addNamed [] path s"

definition knownSelectorImports :: "(string \<times> string) list" where
  "knownSelectorImports =
     [(''driver'', ''database/sql/driver''), (''context'', ''context''), (''json'', ''encoding/json''),
      (''net'', ''net''), (''netip'', ''net/netip''), (''sql'', ''database/sql''), (''time'', ''time''),
      (''uuid'', ''github.com/google/uuid''), (''pgconn'', ''github.com/jackc/pgx/v5/pgconn''),
      (''pgtype'', ''github.com/jackc/pgx/v5/pgtype''),
      (''pgvector'', ''github.com/pgvector/pgvector-go''), (''pqtype'', ''github.com/sqlc-dev/pqtype'')]"

definition typeUsesQualifier :: "string \<Rightarrow> string \<Rightarrow> bool" where
  "typeUsesQualifier typ qualifier \<longleftrightarrow>
     Contains typ (qualifier @ ''.'') \<or> Contains typ (''*'' @ qualifier @ ''.'')
     \<or> Contains typ (''[]'' @ qualifier @ ''.'')"

definition addForType :: "string \<Rightarrow> import_set \<Rightarrow> import_set" where
  "addForType typ s =
     fold (\<lambda>(qualifier, path) t. if typeUsesQualifier typ qualifier then import_add path t else t)
       knownSelectorImports s"

definition imports_sorted :: "import_set \<Rightarrow> import_spec list" where
  "imports_sorted s = sort_key (\<lambda>i. (imp_path i, imp_name i)) (map snd s)"

section \<open>Fresh names\<close>

text \<open>
  \<^verbatim>\<open>uniqueGeneratedName\<close>: the preferred name, or the preferred name with the first suffix from 2
  that is not used. The loop ends because the used names are finitely many and every suffix
  gives another candidate.
\<close>

lemma suffix_finite: "finite {n. p @ Itoa n \<in> set used}"
  by (rule finite_subset [of _ "(\<lambda>n. p @ Itoa n) -` set used"])
    (auto intro: finite_vimageI simp: inj_def)

function unique_suffix :: "string \<Rightarrow> string list \<Rightarrow> nat \<Rightarrow> string" where
  "unique_suffix preferred used n =
     (let candidate = preferred @ Itoa n
      in if candidate \<in> set used then unique_suffix preferred used (n + 1) else candidate)"
  by pat_completeness auto
termination
proof (relation "measure (\<lambda>(p, used, s). card {n. s \<le> n \<and> p @ Itoa n \<in> set used})")
  fix p :: string and used s candidate
  assume "candidate = p @ Itoa s" "candidate \<in> set used"
  then have "s \<in> {n. s \<le> n \<and> p @ Itoa n \<in> set used} - {n. s + 1 \<le> n \<and> p @ Itoa n \<in> set used}"
    by simp
  moreover have "{n. s + 1 \<le> n \<and> p @ Itoa n \<in> set used} \<subseteq> {n. s \<le> n \<and> p @ Itoa n \<in> set used}"
    by auto
  ultimately have "{n. s + 1 \<le> n \<and> p @ Itoa n \<in> set used} \<subset> {n. s \<le> n \<and> p @ Itoa n \<in> set used}"
    by blast
  moreover have "finite {n. s \<le> n \<and> p @ Itoa n \<in> set used}"
    by (rule finite_subset [OF _ suffix_finite]) auto
  ultimately show "((p, used, s + 1), p, used, s)
      \<in> measure (\<lambda>(p, used, s). card {n. s \<le> n \<and> p @ Itoa n \<in> set used})"
    by (simp add: psubset_card_mono)
qed auto

declare unique_suffix.simps [simp del]

definition uniqueGeneratedName :: "string \<Rightarrow> string list \<Rightarrow> string" where
  "uniqueGeneratedName preferred used =
     (if preferred \<notin> set used then preferred else unique_suffix preferred used 2)"

record argument =
  arg_name :: string
  arg_typ :: string

fun result_names :: "string list \<Rightarrow> nat \<Rightarrow> nat \<Rightarrow> string list \<Rightarrow> string list" where
  "result_names used cnt idx [] = []"
| "result_names used cnt idx (r # rs) =
     (let preferred = (if cnt > 2 then ''result'' @ Itoa idx else ''result'');
          preferred = (if idx = cnt - 1 \<and> r = ''error'' then ''err'' else preferred);
          nm = uniqueGeneratedName preferred used
      in nm # result_names (nm # used) cnt (Suc idx) rs)"

definition namedResultsSignature ::
  "argument list \<Rightarrow> string list \<Rightarrow> string list \<Rightarrow> string \<times> string list \<times> string" where
  "namedResultsSignature params results reserved =
     (let names = result_names (map arg_name params @ reserved) (length results) 0 results;
          parts = map2 (\<lambda>n r. n @ '' '' @ r) names results;
          signature = (if parts \<noteq> [] then '' ('' @ join_with '', '' parts @ '')'' else []);
          errName = (if results \<noteq> [] \<and> last results = ''error'' then last names else [])
      in (signature, names, errName))"

section \<open>Identifiers are well formed\<close>

definition ident_char :: "char \<Rightarrow> bool" where
  "ident_char c \<longleftrightarrow> is_letter c \<or> is_digit c \<or> c = CHR ''_''"

lemma valid_rest_Suc: "valid_rest (Suc i) s \<longleftrightarrow> list_all ident_char s"
  by (induction s arbitrary: i) (auto simp: ident_char_def)

lemma validRouteIdentifier_Cons:
  "validRouteIdentifier (c # cs) \<longleftrightarrow> (is_letter c \<or> c = CHR ''_'') \<and> list_all ident_char cs"
  by (auto simp: validRouteIdentifier_def valid_rest_Suc)

lemma validRouteIdentifier_chars:
  "validRouteIdentifier s \<Longrightarrow> s \<noteq> [] \<and> list_all ident_char s"
  by (cases s) (auto simp: validRouteIdentifier_Cons ident_char_def validRouteIdentifier_def [of "[]"])

lemma escape_not_keyword: "escape nm \<notin> set goKeywords"
proof -
  have "\<forall>k \<in> set goKeywords. k = [] \<or> last k \<noteq> CHR ''_''" by (simp add: goKeywords_def)
  then have "nm @ ''_'' \<notin> set goKeywords" by (metis append_is_Nil_conv last_snoc list.distinct(1))
  then show ?thesis by (simp add: escape_def)
qed

lemma keyword_lower: "k \<in> set goKeywords \<Longrightarrow> k \<noteq> [] \<and> is_lower (hd k)"
  by (auto simp: goKeywords_def is_lower_def)

lemma splitIdentifier_parts:
  "part \<in> set (splitIdentifier_loop current s) \<Longrightarrow> list_all (\<lambda>c. is_letter c \<or> is_digit c) current
    \<Longrightarrow> part \<noteq> [] \<and> list_all (\<lambda>c. is_letter c \<or> is_digit c) part"
  by (induction current s rule: splitIdentifier_loop.induct) (auto split: if_splits)

lemma concat_splitIdentifier:
  "concat (splitIdentifier_loop current s) = current @ filter (\<lambda>c. is_letter c \<or> is_digit c) s"
  by (induction current s rule: splitIdentifier_loop.induct) auto

lemma title_alnum:
  assumes "list_all (\<lambda>c. is_letter c \<or> is_digit c) s" and "s \<noteq> []"
  shows "title s \<noteq> [] \<and> list_all (\<lambda>c. is_letter c \<or> is_digit c) (title s)
    \<and> (is_upper (hd (title s)) \<or> is_digit (hd (title s)))"
  using assms by (cases s) (auto simp: title_def is_upper_upper)

lemma struct_part_alnum:
  assumes "list_all (\<lambda>c. is_letter c \<or> is_digit c) part" and "part \<noteq> []"
  shows "struct_part part \<noteq> [] \<and> list_all (\<lambda>c. is_letter c \<or> is_digit c) (struct_part part)
    \<and> (is_upper (hd (struct_part part)) \<or> is_digit (hd (struct_part part)))"
proof -
  have lower: "list_all (\<lambda>c. is_letter c \<or> is_digit c) (ToLower part)" "ToLower part \<noteq> []"
    using assms by (auto simp: ToLower_def list_all_iff)
  show ?thesis
  proof (cases "EqualFold (ToLower part) ''id''")
    case True
    then show ?thesis by (simp add: struct_part_def Let_def char_class_defs)
  next
    case False
    then show ?thesis using title_alnum [OF lower] by (simp add: struct_part_def Let_def)
  qed
qed

text \<open>
  A SQL name with a letter or digit in it and without an entry in the rename map becomes a Go
  identifier that is no keyword, and an exported one unless its first letter or digit is a digit.
\<close>

lemma structName_identifier:
  assumes none: "rename_of opts nm = []" and some: "\<exists>c \<in> set nm. is_letter c \<or> is_digit c"
  shows "validRouteIdentifier (structName nm opts)
    \<and> structName nm opts \<notin> set goKeywords
    \<and> (first_upper (structName nm opts) \<or> hd (structName nm opts) = CHR ''_'')"
proof -
  let ?parts = "splitIdentifier nm" and ?res = "concat (map struct_part (splitIdentifier nm))"
  have alnum: "struct_part p \<noteq> [] \<and> list_all (\<lambda>c. is_letter c \<or> is_digit c) (struct_part p)
      \<and> (is_upper (hd (struct_part p)) \<or> is_digit (hd (struct_part p)))"
    if "p \<in> set ?parts" for p
    using splitIdentifier_parts [of p "[]" nm] that
    by (intro struct_part_alnum) (simp_all add: splitIdentifier_def)
  have "concat ?parts \<noteq> []"
    using some by (auto simp: splitIdentifier_def concat_splitIdentifier filter_empty_conv)
  then obtain p ps where parts: "?parts = p # ps" by (cases ?parts) auto
  have all: "list_all (\<lambda>c. is_letter c \<or> is_digit c) ?res"
    using alnum by (auto simp: list_all_iff)
  have "struct_part p \<noteq> []" using alnum parts by simp
  then obtain c cs where res: "?res = c # cs" and hd: "c = hd (struct_part p)"
    using parts by (cases "struct_part p") auto
  have c: "is_upper c \<or> is_digit c" using alnum [of p] parts hd by simp
  have rest: "list_all ident_char cs"
    using all res by (auto simp: list_all_iff ident_char_def)
  show ?thesis
  proof (cases "is_digit c")
    case True
    then have "structName nm opts = CHR ''_'' # c # cs" using none res by (simp add: structName_def)
    moreover have "\<not> is_lower (CHR ''_'')" by (simp add: is_lower_def)
    ultimately show ?thesis
      using True rest keyword_lower [of "CHR ''_'' # c # cs"]
      by (auto simp: validRouteIdentifier_Cons ident_char_def)
  next
    case False
    then have "structName nm opts = c # cs" using none res by (simp add: structName_def)
    moreover have "\<not> is_lower c" using c False by (auto simp: char_class_defs)
    ultimately show ?thesis
      using c False rest keyword_lower [of "c # cs"]
      by (auto simp: validRouteIdentifier_Cons first_upper_def is_letter_def)
  qed
qed

section \<open>Fresh names are fresh\<close>

lemma unique_suffix_fresh: "unique_suffix p used n \<notin> set used"
  by (induction p used n rule: unique_suffix.induct)
    (subst unique_suffix.simps, simp add: Let_def)

lemma uniqueGeneratedName_fresh: "uniqueGeneratedName p used \<notin> set used"
  by (simp add: uniqueGeneratedName_def unique_suffix_fresh)

lemma length_result_names [simp]: "length (result_names used cnt i rs) = length rs"
  by (induction used cnt i rs rule: result_names.induct) (simp_all add: Let_def)

lemma result_names_fresh:
  "distinct (result_names used cnt i rs) \<and> set (result_names used cnt i rs) \<inter> set used = {}"
proof (induction used cnt i rs rule: result_names.induct)
  case (1 used cnt i)
  then show ?case by simp
next
  case (2 used cnt i r rs)
  then show ?case by (auto simp: Let_def uniqueGeneratedName_fresh)
qed

section \<open>The order of imports does not depend on the order of additions\<close>

definition import_keys_ok :: "import_set \<Rightarrow> bool" where
  "import_keys_ok s \<longleftrightarrow> distinct (map fst s) \<and> (\<forall>(p, i) \<in> set s. imp_path i = p)"

lemma set_alist_update: "set (AList.update k v s) \<subseteq> insert (k, v) (set s)"
  by (induction s) auto

lemma addNamed_keys_ok: "import_keys_ok s \<Longrightarrow> import_keys_ok (addNamed nm path s)"
  unfolding import_keys_ok_def addNamed_def
  by (auto simp: distinct_update dest: set_alist_update [THEN subsetD] split: if_splits)

lemma map_of_addNamed:
  "map_of (addNamed nm path s) = (if path = [] then map_of s
     else (map_of s)(path \<mapsto> \<lparr>imp_name = nm, imp_path = path\<rparr>))"
  by (simp add: addNamed_def update_conv')

lemma imports_sorted_of_map:
  assumes s: "import_keys_ok s" and t: "import_keys_ok t" and eq: "map_of s = map_of t"
  shows "imports_sorted s = imports_sorted t"
proof -
  have "set s = set t" using s t eq by (metis import_keys_ok_def map_of_inject_set)
  moreover have "distinct s" "distinct t" using s t by (auto simp: import_keys_ok_def distinct_map)
  ultimately have "mset s = mset t" by (simp add: set_eq_iff_mset_eq_distinct)
  then have m: "mset (map snd s) = mset (map snd t)" by simp
  have "inj_on (\<lambda>i :: import_spec. (imp_path i, imp_name i)) (set (map snd s))"
    by (rule inj_onI) simp
  then show ?thesis
    unfolding imports_sorted_def by (intro sort_key_inj_key_eq) (use m in simp_all)
qed

end
