(* ===== verification/Postgres_Types.thy ===== *)
theory Postgres_Types
  imports Plugin_Naming
begin

text \<open>
  Go types of PostgreSQL columns: \<^verbatim>\<open>postgresql_type.go\<close> with the identifier and import path checks
  of \<^verbatim>\<open>options.go\<close> and the package qualifier of \<^verbatim>\<open>emission.go\<close> it uses. The expression parser of
  Go's \<^verbatim>\<open>go/parser\<close> is a parameter from type texts to syntax trees; the regular expressions built
  by \<^verbatim>\<open>compileMatchPattern\<close> are lists of atoms with the matching that Go's \<^verbatim>\<open>regexp\<close> gives them.
\<close>

section \<open>Checks on option values\<close>

definition validateImportPath :: "string \<Rightarrow> string \<Rightarrow> unit result" where
  "validateImportPath option_name path =
     check (path = [] \<or> TrimSpace path \<noteq> path \<or> ContainsAny path [CHR 0x22, CHR 0x5C]
            \<or> list_ex (\<lambda>r. is_space r \<or> is_control r) path)
       (Errorf ''%s %q is invalid'' [ArgStr option_name, ArgStr path])"

definition validateIdentifier :: "string \<Rightarrow> string \<Rightarrow> bool \<Rightarrow> unit result" where
  "validateIdentifier option_name val exported =
     and_then (check (\<not> validRouteIdentifier val \<or> val \<in> set goKeywords)
       (Errorf ''%s %q must be a valid Go identifier'' [ArgStr option_name, ArgStr val])) (\<lambda>_.
     check (exported \<and> \<not> first_upper val)
       (Errorf ''%s %q must be an exported Go identifier'' [ArgStr option_name, ArgStr val]))"

definition internalQualifier :: "options \<Rightarrow> string" where
  "internalQualifier opts =
     (if InternalImportAlias opts \<noteq> [] then InternalImportAlias opts else ''internal'')"

definition targetName :: "options \<Rightarrow> string \<Rightarrow> string" where
  "targetName opts nm =
     (if InternalImportPath opts = [] then nm else internalQualifier opts @ ''.'' @ nm)"

section \<open>Type overrides\<close>

definition sameTableName ::
  "sql_identifier option \<Rightarrow> sql_identifier option \<Rightarrow> string \<Rightarrow> bool" where
  "sameTableName left right defaultSchema =
     (case (left, right) of
        (Some l, Some r) \<Rightarrow>
          let leftSchema = (if id_Schema l = [] then defaultSchema else id_Schema l);
              rightSchema = (if id_Schema r = [] then defaultSchema else id_Schema r)
          in id_Catalog l = id_Catalog r \<and> leftSchema = rightSchema \<and> id_Name l = id_Name r
      | _ \<Rightarrow> False)"

definition dataType :: "sql_identifier option \<Rightarrow> string" where
  "dataType ident =
     (case ident of
        None \<Rightarrow> []
      | Some i \<Rightarrow> if id_Schema i \<noteq> [] then id_Schema i @ ''.'' @ id_Name i else id_Name i)"

definition dbTypesEqual :: "string \<Rightarrow> string \<Rightarrow> string \<Rightarrow> bool" where
  "dbTypesEqual configured actual defaultSchema =
     (if configured = actual then True
      else if \<not> Contains actual ''.'' \<and> defaultSchema \<noteq> [] \<and> configured = defaultSchema @ ''.'' @ actual
      then True else False)"

function strip_type :: "string \<Rightarrow> string" where
  "strip_type typ =
     (if HasPrefix typ ''[]'' \<or> HasPrefix typ ''*''
      then strip_type (TrimPrefix (TrimPrefix typ ''[]'') ''*'') else typ)"
  by pat_completeness auto

lemma length_TrimPrefix: "length (TrimPrefix s p) \<le> length s"
  by (simp add: TrimPrefix_def)

lemma TrimPrefix_shorter: "HasPrefix s p \<Longrightarrow> p \<noteq> [] \<Longrightarrow> length (TrimPrefix s p) < length s"
  by (cases s) (auto simp: TrimPrefix_def HasPrefix_def)

termination strip_type
proof (relation "measure length")
  fix t :: string
  assume p: "HasPrefix t ''[]'' \<or> HasPrefix t ''*''"
  show "(TrimPrefix (TrimPrefix t ''[]'') ''*'', t) \<in> measure length"
  proof (cases "HasPrefix t ''[]''")
    case True
    then show ?thesis
      using length_TrimPrefix [of "TrimPrefix t ''[]''" "''*''"] TrimPrefix_shorter [OF True]
      by simp
  next
    case False
    then have "TrimPrefix t ''[]'' = t" by (simp add: TrimPrefix_def)
    then show ?thesis using TrimPrefix_shorter [of t "''*''"] p False by simp
  qed
qed simp

declare strip_type.simps [simp del]

definition typeQualifier :: "string \<Rightarrow> string" where
  "typeQualifier typ = (case Cut (strip_type typ) ''.'' of None \<Rightarrow> [] | Some (b, _) \<Rightarrow> b)"

text \<open>The identifiers that Go predeclares (\<^verbatim>\<open>types.Universe\<close>) and the basic types (\<^verbatim>\<open>types.Typ\<close>).\<close>

definition basic_types :: "string list" where
  "basic_types = [''bool'', ''int'', ''int8'', ''int16'', ''int32'', ''int64'', ''uint'', ''uint8'',
     ''uint16'', ''uint32'', ''uint64'', ''uintptr'', ''float32'', ''float64'', ''complex64'',
     ''complex128'', ''string'']"

definition universe :: "string list" where
  "universe = basic_types @ [''any'', ''byte'', ''comparable'', ''error'', ''rune'', ''false'', ''iota'',
     ''true'', ''nil'', ''append'', ''cap'', ''clear'', ''close'', ''complex'', ''copy'', ''delete'',
     ''imag'', ''len'', ''make'', ''max'', ''min'', ''new'', ''panic'', ''print'', ''println'', ''real'',
     ''recover'']"

text \<open>The length of the longest prefix of a type text made of \<open>[]\<close> and \<open>*\<close>.\<close>

fun type_prefix_length :: "string \<Rightarrow> nat" where
  "type_prefix_length [] = 0"
| "type_prefix_length [c] = (if c = CHR ''*'' then 1 else 0)"
| "type_prefix_length (c # d # s) =
     (if c = CHR ''['' \<and> d = CHR '']'' then 2 + type_prefix_length s
      else if c = CHR ''*'' then 1 + type_prefix_length (d # s)
      else 0)"

definition overrideType :: "options \<Rightarrow> override \<Rightarrow> string" where
  "overrideType opts ov =
     (let typ = ov_typeName ov
      in if InternalImportPath opts = [] \<or> ov_importPath ov \<noteq> [] \<or> typeQualifier typ \<noteq> [] then typ
         else let n = type_prefix_length typ; base = drop n typ
              in if base = ''interface{}'' \<or> base \<in> set universe then typ
                 else take n typ @ targetName opts base)"

section \<open>Column patterns\<close>

datatype pattern_atom = Literal char | AnyChar | AnyText

fun compile_from :: "bool \<Rightarrow> string \<Rightarrow> pattern_atom list result" where
  "compile_from escaped [] =
     (if escaped then Inl (Errorf ''unterminated escape at end of pattern'' []) else Inr [])"
| "compile_from escaped (c # cs) =
     (if escaped then
        if c = CHR ''*'' \<or> c = CHR ''?'' \<or> c = CHR 0x5C
        then and_then (compile_from False cs) (\<lambda>as. Inr (Literal c # as))
        else Inl (Errorf ''invalid escaped character %q'' [ArgStr [c]])
      else if c = CHR 0x5C then compile_from True cs
      else if c = CHR ''*'' then and_then (compile_from False cs) (\<lambda>as. Inr (AnyText # as))
      else if c = CHR ''?'' then and_then (compile_from False cs) (\<lambda>as. Inr (AnyChar # as))
      else and_then (compile_from False cs) (\<lambda>as. Inr (Literal c # as)))"

definition compileMatchPattern :: "string \<Rightarrow> pattern_atom list result" where
  "compileMatchPattern pattern = compile_from False pattern"

text \<open>
  The anchored expression matches the whole text; \<^verbatim>\<open>.\<close> and \<^verbatim>\<open>.*\<close> match any character but a
  newline.
\<close>

fun pattern_matches :: "pattern_atom list \<Rightarrow> string \<Rightarrow> bool" where
  "pattern_matches [] s = (s = [])"
| "pattern_matches (Literal c # as) s = (case s of [] \<Rightarrow> False | x # xs \<Rightarrow> x = c \<and> pattern_matches as xs)"
| "pattern_matches (AnyChar # as) s =
     (case s of [] \<Rightarrow> False | x # xs \<Rightarrow> x \<noteq> CHR 0x0A \<and> pattern_matches as xs)"
| "pattern_matches (AnyText # as) s =
     (pattern_matches as s
      \<or> (case s of [] \<Rightarrow> False | x # xs \<Rightarrow> x \<noteq> CHR 0x0A \<and> pattern_matches (AnyText # as) xs))"

definition matchPattern :: "string \<Rightarrow> string \<Rightarrow> bool" where
  "matchPattern pattern s =
     (case compileMatchPattern pattern of Inl _ \<Rightarrow> False | Inr as \<Rightarrow> pattern_matches as s)"

definition matchesColumn :: "override \<Rightarrow> column \<Rightarrow> string \<Rightarrow> bool" where
  "matchesColumn ov c defaultSchema =
     (if ov_DBType ov \<noteq> [] then
        let notNull = (col_NotNull c \<or> col_IsArray c)
        in dbTypesEqual (ov_DBType ov) (dataType (col_Type c)) defaultSchema
           \<and> ov_Nullable ov \<noteq> notNull \<and> ov_Unsigned ov = col_Unsigned c
      else if ov_Column ov = [] then False
      else case col_Table c of
             None \<Rightarrow> False
           | Some t \<Rightarrow>
               let sch = (if id_Schema t = [] then defaultSchema else id_Schema t);
                   nm = (if col_OriginalName c \<noteq> [] then col_OriginalName c else col_Name c)
               in if ov_tableCatalog ov \<noteq> [] \<and> \<not> matchPattern (ov_tableCatalog ov) (id_Catalog t) then False
                  else matchPattern (ov_tableSchema ov) sch \<and> matchPattern (ov_tableName ov) (id_Name t)
                       \<and> matchPattern (ov_columnName ov) nm)"

section \<open>Types of columns\<close>

definition nullableType :: "string \<Rightarrow> string \<Rightarrow> string \<Rightarrow> bool \<Rightarrow> bool \<Rightarrow> string" where
  "nullableType notNullType pointerType pgxType notNull emitPointersForNull =
     (if notNull then notNullType else if emitPointersForNull then pointerType else pgxType)"

definition nullableStdlibType :: "string \<Rightarrow> string \<Rightarrow> string \<Rightarrow> bool \<Rightarrow> bool \<Rightarrow> string" where
  "nullableStdlibType notNullType pointerType nullType notNull emitPointersForNull =
     (if notNull then notNullType else if emitPointersForNull then pointerType else nullType)"

definition skippedSchema :: "string \<Rightarrow> bool" where
  "skippedSchema nm \<longleftrightarrow> nm = ''pg_catalog'' \<or> nm = ''information_schema''"

definition enum_type ::
  "catalog \<Rightarrow> options \<Rightarrow> string \<Rightarrow> string \<Rightarrow> bool \<Rightarrow> bool \<Rightarrow> string" where
  "enum_type cat opts schemaName enum notNull emitPointersForNullEnums =
     (let nm = structName (if schemaName \<noteq> cat_DefaultSchema cat then schemaName @ ''_'' @ enum else enum) opts
      in if notNull then targetName opts nm
         else if emitPointersForNullEnums then ''*'' @ targetName opts nm
         else targetName opts (''Null'' @ nm))"

fun custom_type_in ::
  "catalog \<Rightarrow> options \<Rightarrow> string \<Rightarrow> string \<Rightarrow> bool \<Rightarrow> bool \<Rightarrow> bool \<Rightarrow> schema list \<Rightarrow> string" where
  "custom_type_in cat opts schemaName typeName notNull ptr ptrEnums [] = ''interface{}''"
| "custom_type_in cat opts schemaName typeName notNull ptr ptrEnums (s # ss) =
     (if sch_Name s \<noteq> schemaName \<or> skippedSchema (sch_Name s)
      then custom_type_in cat opts schemaName typeName notNull ptr ptrEnums ss
      else if typeName \<in> set (sch_Enums s) then enum_type cat opts schemaName typeName notNull ptrEnums
      else if typeName \<in> set (sch_CompositeTypes s)
        then nullableStdlibType ''string'' ''*string'' ''sql.NullString'' notNull ptr
      else custom_type_in cat opts schemaName typeName notNull ptr ptrEnums ss)"

definition customPostgresType ::
  "catalog \<Rightarrow> options \<Rightarrow> string \<Rightarrow> bool \<Rightarrow> bool \<Rightarrow> bool \<Rightarrow> string" where
  "customPostgresType cat opts columnType notNull ptr ptrEnums =
     (case split_on CHR ''.'' columnType of
        [t] \<Rightarrow> custom_type_in cat opts (cat_DefaultSchema cat) t notNull ptr ptrEnums (cat_Schemas cat)
      | [s, t] \<Rightarrow> custom_type_in cat opts s t notNull ptr ptrEnums (cat_Schemas cat)
      | [c, s, t] \<Rightarrow> custom_type_in cat opts s t notNull ptr ptrEnums (cat_Schemas cat)
      | _ \<Rightarrow> ''interface{}'')"

definition null_family ::
  "bool \<Rightarrow> bool \<Rightarrow> string \<Rightarrow> string \<Rightarrow> string" where
  "null_family notNull ptr goName pgx = nullableType goName (''*'' @ goName) pgx notNull ptr"

text \<open>The switch of \<^verbatim>\<open>postgresType\<close>, by its cases in order.\<close>

definition postgresType :: "catalog \<Rightarrow> options \<Rightarrow> column \<Rightarrow> string" where
  "postgresType cat opts c =
     (let ct = dataType (col_Type c);
          notNull = (col_NotNull c \<or> col_IsArray c);
          ptr = EmitPointersForNullTypes opts;
          ptrEnums = (case EmitPointersForNullEnumType opts of None \<Rightarrow> ptr | Some b \<Rightarrow> b)
      in if ct \<in> {''serial'', ''serial4'', ''pg_catalog.serial4'', ''integer'', ''int'', ''int4'', ''pg_catalog.int4''}
           then null_family notNull ptr ''int32'' ''pgtype.Int4''
         else if ct \<in> {''bigserial'', ''serial8'', ''pg_catalog.serial8'', ''bigint'', ''int8'', ''pg_catalog.int8''}
           then null_family notNull ptr ''int64'' ''pgtype.Int8''
         else if ct \<in> {''smallserial'', ''serial2'', ''pg_catalog.serial2'', ''smallint'', ''int2'', ''pg_catalog.int2''}
           then null_family notNull ptr ''int16'' ''pgtype.Int2''
         else if ct \<in> {''float'', ''double precision'', ''float8'', ''pg_catalog.float8''}
           then null_family notNull ptr ''float64'' ''pgtype.Float8''
         else if ct \<in> {''real'', ''float4'', ''pg_catalog.float4''}
           then null_family notNull ptr ''float32'' ''pgtype.Float4''
         else if ct \<in> {''boolean'', ''bool'', ''pg_catalog.bool''}
           then null_family notNull ptr ''bool'' ''pgtype.Bool''
         else if ct \<in> {''text'', ''pg_catalog.varchar'', ''pg_catalog.bpchar'', ''varchar'', ''string'', ''citext'', ''name''}
           then null_family notNull ptr ''string'' ''pgtype.Text''
         else if ct \<in> {''bytea'', ''blob'', ''pg_catalog.bytea''} then ''[]byte''
         else if ct \<in> {''json'', ''pg_catalog.json'', ''jsonb'', ''pg_catalog.jsonb''} then ''[]byte''
         else if ct = ''date'' then ''pgtype.Date''
         else if ct = ''pg_catalog.time'' then ''pgtype.Time''
         else if ct = ''pg_catalog.timetz''
           then nullableStdlibType ''time.Time'' ''*time.Time'' ''sql.NullTime'' notNull ptr
         else if ct \<in> {''pg_catalog.timestamp'', ''timestamp''} then ''pgtype.Timestamp''
         else if ct \<in> {''pg_catalog.timestamptz'', ''timestamptz''} then ''pgtype.Timestamptz''
         else if ct = ''uuid'' then ''pgtype.UUID''
         else if ct \<in> {''numeric'', ''pg_catalog.numeric'', ''money''} then ''pgtype.Numeric''
         else if ct = ''inet'' then (if notNull then ''netip.Addr'' else ''*netip.Addr'')
         else if ct = ''cidr'' then (if notNull then ''netip.Prefix'' else ''*netip.Prefix'')
         else if ct \<in> {''macaddr'', ''macaddr8''} then ''net.HardwareAddr''
         else if ct \<in> {''ltree'', ''lquery'', ''ltxtquery''} then null_family notNull ptr ''string'' ''pgtype.Text''
         else if ct \<in> {''interval'', ''pg_catalog.interval''} then ''pgtype.Interval''
         else if ct = ''daterange'' then ''pgtype.Range[pgtype.Date]''
         else if ct = ''datemultirange'' then ''pgtype.Multirange[pgtype.Range[pgtype.Date]]''
         else if ct = ''tsrange'' then ''pgtype.Range[pgtype.Timestamp]''
         else if ct = ''tsmultirange'' then ''pgtype.Multirange[pgtype.Range[pgtype.Timestamp]]''
         else if ct = ''tstzrange'' then ''pgtype.Range[pgtype.Timestamptz]''
         else if ct = ''tstzmultirange'' then ''pgtype.Multirange[pgtype.Range[pgtype.Timestamptz]]''
         else if ct = ''numrange'' then ''pgtype.Range[pgtype.Numeric]''
         else if ct = ''nummultirange'' then ''pgtype.Multirange[pgtype.Range[pgtype.Numeric]]''
         else if ct = ''int4range'' then ''pgtype.Range[pgtype.Int4]''
         else if ct = ''int4multirange'' then ''pgtype.Multirange[pgtype.Range[pgtype.Int4]]''
         else if ct = ''int8range'' then ''pgtype.Range[pgtype.Int8]''
         else if ct = ''int8multirange'' then ''pgtype.Multirange[pgtype.Range[pgtype.Int8]]''
         else if ct = ''hstore'' then ''pgtype.Hstore''
         else if ct \<in> {''bit'', ''varbit'', ''pg_catalog.bit'', ''pg_catalog.varbit''} then ''pgtype.Bits''
         else if ct \<in> {''cid'', ''oid''} then ''pgtype.Uint32''
         else if ct = ''tid'' then ''pgtype.TID''
         else if ct = ''xid'' then ''pgtype.Uint32''
         else if ct = ''xid8'' then ''pgtype.Uint64''
         else if ct = ''box'' then ''pgtype.Box''
         else if ct = ''circle'' then ''pgtype.Circle''
         else if ct = ''line'' then ''pgtype.Line''
         else if ct = ''lseg'' then ''pgtype.Lseg''
         else if ct = ''path'' then ''pgtype.Path''
         else if ct = ''point'' then ''pgtype.Point''
         else if ct = ''polygon'' then ''pgtype.Polygon''
         else if ct = ''vector'' then (if ptr then ''*pgvector.Vector'' else ''pgvector.Vector'')
         else if ct \<in> {''void'', ''any''} then ''interface{}''
         else customPostgresType cat opts ct notNull ptr ptrEnums)"

definition slice_prefix :: "column \<Rightarrow> string \<Rightarrow> string" where
  "slice_prefix c typ =
     (if col_IsSqlcSlice c then ''[]'' @ typ
      else if col_IsArray c then concat (replicate (col_ArrayDims c) ''[]'') @ typ
      else typ)"

definition goType :: "catalog \<Rightarrow> options \<Rightarrow> column \<Rightarrow> string" where
  "goType cat opts c =
     (case List.find (\<lambda>ov. ov_Column ov \<noteq> [] \<and> matchesColumn ov c (cat_DefaultSchema cat)) (Overrides opts) of
        Some ov \<Rightarrow> if col_IsSqlcSlice c then ''[]'' @ overrideType opts ov else overrideType opts ov
      | None \<Rightarrow>
          (case List.find (\<lambda>ov. matchesColumn ov c (cat_DefaultSchema cat)) (Overrides opts) of
             Some ov \<Rightarrow> slice_prefix c (overrideType opts ov)
           | None \<Rightarrow> slice_prefix c (postgresType cat opts c)))"

definition addImportsForType :: "options \<Rightarrow> string \<Rightarrow> import_set \<Rightarrow> import_set" where
  "addImportsForType opts typ imps =
     fold (\<lambda>ov s.
         if ov_importPath ov = [] then s
         else let qualifier = typeQualifier (ov_typeName ov)
              in if qualifier = [] \<or> \<not> typeUsesQualifier typ qualifier then s
                 else addNamed (ov_importAlias ov) (ov_importPath ov) s)
       (Overrides opts) (addForType typ imps)"

section \<open>Parsing overrides\<close>

text \<open>Syntax trees of Go types, with the node kinds that \<^verbatim>\<open>validTypeExpression\<close> tells apart.\<close>

datatype ast_expr =
    Ident string
  | InterfaceType "ast_expr list option"
  | MapType ast_expr ast_expr
  | ChanType ast_expr
  | FuncType "ast_expr list option" "ast_expr list option" "ast_expr list option"
  | StructType "ast_expr list option"
  | SelectorExpr ast_expr string
  | StarExpr ast_expr
  | ArrayType ast_expr
  | IndexExpr ast_expr ast_expr
  | IndexListExpr ast_expr "ast_expr list"
  | ParenExpr ast_expr
  | OtherExpr

definition validTypeFields :: "('a \<Rightarrow> bool) \<Rightarrow> 'a list option \<Rightarrow> bool" where
  "validTypeFields valid fl = (case fl of None \<Rightarrow> True | Some fs \<Rightarrow> list_all valid fs)"

lemma validTypeFields_cong [fundef_cong]:
  assumes "fs = gs" and "\<And>l x. gs = Some l \<Longrightarrow> x \<in> set l \<Longrightarrow> P x = Q x"
  shows "validTypeFields P fs = validTypeFields Q gs"
  using assms by (auto simp: validTypeFields_def list_all_iff split: option.split)

fun validTypeExpression :: "ast_expr \<Rightarrow> bool" where
  "validTypeExpression (Ident n) = True"
| "validTypeExpression (InterfaceType ms) = validTypeFields validTypeExpression ms"
| "validTypeExpression (MapType k v) = (validTypeExpression k \<and> validTypeExpression v)"
| "validTypeExpression (ChanType v) = validTypeExpression v"
| "validTypeExpression (FuncType tps ps rs) =
     (validTypeFields validTypeExpression tps \<and> validTypeFields validTypeExpression ps
      \<and> validTypeFields validTypeExpression rs)"
| "validTypeExpression (StructType fs) = validTypeFields validTypeExpression fs"
| "validTypeExpression (SelectorExpr x sel) = (case x of Ident _ \<Rightarrow> True | _ \<Rightarrow> False)"
| "validTypeExpression (StarExpr x) = validTypeExpression x"
| "validTypeExpression (ArrayType e) = validTypeExpression e"
| "validTypeExpression (IndexExpr x i) = (validTypeExpression x \<and> validTypeExpression i)"
| "validTypeExpression (IndexListExpr x is) = (validTypeExpression x \<and> list_all validTypeExpression is)"
| "validTypeExpression (ParenExpr x) = validTypeExpression x"
| "validTypeExpression OtherExpr = False"

record parsed_go_type =
  pt_typeName :: string
  pt_importPath :: string
  pt_importAlias :: string

definition parseGoTypeSpec :: "string \<Rightarrow> parsed_go_type result" where
  "parseGoTypeSpec spec =
     (let lastDot = LastIndex spec CHR ''.''; lastSlash = LastIndex spec CHR ''/''
      in if lastDot = None \<and> lastSlash = None then
           if spec \<in> set basic_types
           then Inr \<lparr>pt_typeName = spec, pt_importPath = [], pt_importAlias = []\<rparr>
           else Inl (Errorf ''go_type specifier %q is not a Go basic type'' [ArgStr spec])
         else case lastDot of
           None \<Rightarrow> Inl (Errorf ''go_type specifier %q must use package.type format'' [ArgStr spec])
         | Some dot \<Rightarrow>
             let nm = (case lastSlash of None \<Rightarrow> spec | Some i \<Rightarrow> drop (i + 1) spec);
                 nm = TrimSuffix (TrimPrefix nm ''go-'') ''-go'';
                 path = take dot spec
             in if HasPrefix spec ''*''
                then Inr \<lparr>pt_typeName = ''*'' @ TrimPrefix nm ''*'', pt_importPath = TrimPrefix path ''*'',
                          pt_importAlias = []\<rparr>
                else Inr \<lparr>pt_typeName = nm, pt_importPath = path, pt_importAlias = []\<rparr>)"

definition goType_parse :: "go_type \<Rightarrow> parsed_go_type result" where
  "goType_parse g =
     (if gt_spec g \<noteq> [] then parseGoTypeSpec (gt_spec g)
      else if gt_name g = [] then Inl (Errorf ''go_type must specify a nonempty type'' [])
      else if gt_path g = [] \<and> gt_pkg g \<noteq> [] then Inl (Errorf ''go_type package requires an import path'' [])
      else let pkg = (if gt_pkg g = [] \<and> gt_path g \<noteq> [] then packageNameForImport (gt_path g) else gt_pkg g);
               nm = (if pkg \<noteq> [] then pkg @ ''.'' @ gt_name g else gt_name g);
               alias = (if pkg \<noteq> [] \<and> gt_pkg g \<noteq> [] \<and> gt_pkg g \<noteq> packageNameForImport (gt_path g)
                        then gt_pkg g else []);
               nm = (if gt_pointer g then ''*'' @ nm else nm);
               nm = (if gt_slice g then ''[]'' @ nm else nm)
           in Inr \<lparr>pt_typeName = nm, pt_importPath = gt_path g, pt_importAlias = alias\<rparr>)"

definition validateParsedGoType :: "(string \<Rightarrow> ast_expr option) \<Rightarrow> parsed_go_type \<Rightarrow> unit result" where
  "validateParsedGoType parse_expr p =
     and_then (check (pt_typeName p = []) (Errorf ''override go_type must not be empty'' [])) (\<lambda>_.
     and_then (if pt_importAlias p \<noteq> [] then validateIdentifier ''go_type package'' (pt_importAlias p) False
               else Inr ()) (\<lambda>_.
     and_then (if pt_importPath p \<noteq> [] then validateImportPath ''go_type import'' (pt_importPath p)
               else Inr ()) (\<lambda>_.
     and_then (check (case parse_expr (pt_typeName p) of None \<Rightarrow> True | Some e \<Rightarrow> \<not> validTypeExpression e)
       (Errorf ''go_type %q is not a valid Go type'' [ArgStr (pt_typeName p)])) (\<lambda>_.
     if pt_importPath p \<noteq> [] \<and> typeQualifier (pt_typeName p) \<noteq> []
     then validateIdentifier ''go_type package'' (typeQualifier (pt_typeName p)) False
     else Inr ()))))"

fun compile_all :: "string \<Rightarrow> string list \<Rightarrow> unit result" where
  "compile_all col [] = Inr ()"
| "compile_all col (p # ps) =
     (if p = [] then compile_all col ps
      else case compileMatchPattern p of
             Inl e \<Rightarrow> Inl (Wrap ''invalid column override %q: %w'' [ArgStr col] e)
           | Inr _ \<Rightarrow> compile_all col ps)"

definition parseColumn :: "catalog \<Rightarrow> override \<Rightarrow> override result" where
  "parseColumn cat ov =
     (let defaultSchema = (if cat_DefaultSchema cat = [] then ''public'' else cat_DefaultSchema cat);
          split = (case split_on CHR ''.'' (ov_Column ov) of
             [t, c] \<Rightarrow> Some (ov \<lparr>ov_tableSchema := defaultSchema, ov_tableName := t, ov_columnName := c\<rparr>)
           | [s, t, c] \<Rightarrow> Some (ov \<lparr>ov_tableSchema := s, ov_tableName := t, ov_columnName := c\<rparr>)
           | [g, s, t, c] \<Rightarrow> Some (ov \<lparr>ov_tableCatalog := g, ov_tableSchema := s, ov_tableName := t,
                                     ov_columnName := c\<rparr>)
           | _ \<Rightarrow> None)
      in case split of
           None \<Rightarrow> Inl (Errorf ''invalid column override %q'' [ArgStr (ov_Column ov)])
         | Some o2 \<Rightarrow>
             and_then (compile_all (ov_Column ov)
               [ov_tableCatalog o2, ov_tableSchema o2, ov_tableName o2, ov_columnName o2])
               (\<lambda>_. Inr o2))"

definition override_parse ::
  "(string \<Rightarrow> ast_expr option) \<Rightarrow> catalog \<Rightarrow> override \<Rightarrow> override result" where
  "override_parse parse_expr cat ov0 =
     (let ov = ov0 \<lparr>ov_DBType := TrimSpace (ov_DBType ov0), ov_Column := TrimSpace (ov_Column ov0)\<rparr>
      in and_then (check (ov_DBType ov = [] \<and> ov_Column ov = [])
           (Errorf ''override must specify db_type or column'' [])) (\<lambda>_.
         and_then (check (ov_DBType ov \<noteq> [] \<and> ov_Column ov \<noteq> [])
           (Errorf ''override cannot specify both db_type and column'' [])) (\<lambda>_.
         and_then (goType_parse (ov_GoType ov)) (\<lambda>parsed.
         and_then (validateParsedGoType parse_expr parsed) (\<lambda>_.
         let o2 = ov \<lparr>ov_typeName := pt_typeName parsed, ov_importPath := pt_importPath parsed,
                      ov_importAlias := pt_importAlias parsed\<rparr>
         in if ov_Column o2 \<noteq> [] then parseColumn cat o2 else Inr o2)))))"

section \<open>Patterns\<close>

text \<open>
  A pattern without special characters matches exactly its own text, and escaping every special
  character of a text gives a pattern that matches exactly that text.
\<close>

definition special_char :: "char \<Rightarrow> bool" where
  "special_char c \<longleftrightarrow> c = CHR ''*'' \<or> c = CHR ''?'' \<or> c = CHR 0x5C"

definition escape_pattern :: "string \<Rightarrow> string" where
  "escape_pattern s = concat (map (\<lambda>c. if special_char c then [CHR 0x5C, c] else [c]) s)"

lemma compile_escaped: "compile_from False (escape_pattern s) = Inr (map Literal s)"
  by (induction s) (auto simp: escape_pattern_def special_char_def)

lemma matches_literal: "pattern_matches (map Literal s) t \<longleftrightarrow> t = s"
  by (induction s arbitrary: t) (auto split: list.splits)

lemma matchPattern_escaped: "matchPattern (escape_pattern s) t \<longleftrightarrow> t = s"
  by (simp add: matchPattern_def compileMatchPattern_def compile_escaped matches_literal)

lemma escape_pattern_id: "\<forall>c \<in> set s. \<not> special_char c \<Longrightarrow> escape_pattern s = s"
  by (induction s) (auto simp: escape_pattern_def)

lemma matchPattern_plain:
  "\<forall>c \<in> set s. \<not> special_char c \<Longrightarrow> matchPattern s t \<longleftrightarrow> t = s"
  using matchPattern_escaped [of s t] by (simp add: escape_pattern_id)

lemma matches_any_text:
  "pattern_matches (AnyText # as) t \<longleftrightarrow>
    (\<exists>u v. t = u @ v \<and> CHR 0x0A \<notin> set u \<and> pattern_matches as v)"
proof (induction t)
  case Nil
  then show ?case by simp
next
  case (Cons x xs)
  have "(\<exists>u v. x # xs = u @ v \<and> CHR 0x0A \<notin> set u \<and> pattern_matches as v) \<longleftrightarrow>
      pattern_matches as (x # xs)
      \<or> x \<noteq> CHR 0x0A \<and> (\<exists>u v. xs = u @ v \<and> CHR 0x0A \<notin> set u \<and> pattern_matches as v)"
    (is "?l \<longleftrightarrow> ?a \<or> x \<noteq> CHR 0x0A \<and> ?b")
  proof
    assume ?l
    then obtain u v where uv: "x # xs = u @ v" "CHR 0x0A \<notin> set u" "pattern_matches as v" by blast
    show "?a \<or> x \<noteq> CHR 0x0A \<and> ?b"
    proof (cases u)
      case Nil
      then show ?thesis using uv by simp
    next
      case (Cons y w)
      then have "xs = w @ v" "CHR 0x0A \<notin> set w" "x \<noteq> CHR 0x0A" using uv by auto
      then show ?thesis using uv(3) by blast
    qed
  next
    assume "?a \<or> x \<noteq> CHR 0x0A \<and> ?b"
    then show ?l
    proof
      assume ?a
      then show ?l by (intro exI [of _ "[]"] exI [of _ "x # xs"]) simp
    next
      assume "x \<noteq> CHR 0x0A \<and> ?b"
      then obtain u v where "xs = u @ v" "CHR 0x0A \<notin> set u" "pattern_matches as v" "x \<noteq> CHR 0x0A"
        by blast
      then show ?l by (intro exI [of _ "x # u"] exI [of _ v]) simp
    qed
  qed
  with Cons show ?case by simp
qed

end
