(* ===== verification/Query_Values.thy ===== *)
theory Query_Values
  imports Postgres_Types
begin

text \<open>
  Arguments and results of generated query methods, the first half of \<^verbatim>\<open>query.go\<close>: the Go structs
  of the tables, the parameter struct or parameters of a query, its result struct or value, and
  the Go result types by query command. The singular of a table name comes from a third-party
  inflection package and is a parameter. Go's \<^verbatim>\<open>sort.Slice\<close> is a stable sort here; the order of
  structs with equal names is not specified by Go.
\<close>

section \<open>Data\<close>

record goField =
  gf_name :: string
  gf_dbName :: string
  gf_typ :: string

record goStruct =
  gs_table :: "sql_identifier option"
  gs_name :: string
  gs_fields :: "goField list"

record queryValue =
  qv_emit :: bool
  qv_emitPointer :: bool
  qv_name :: string
  qv_dbName :: string
  qv_structType :: "goStruct option"
  qv_typ :: string

definition zero_value :: queryValue where
  "zero_value = \<lparr>qv_emit = False, qv_emitPointer = False, qv_name = [], qv_dbName = [],
     qv_structType = None, qv_typ = []\<rparr>"

definition value_isEmpty :: "queryValue \<Rightarrow> bool" where
  "value_isEmpty v \<longleftrightarrow> qv_typ v = [] \<and> qv_name v = [] \<and> qv_structType v = None"

definition defineType :: "queryValue \<Rightarrow> options \<Rightarrow> string" where
  "defineType v opts =
     (let typ = (if qv_typ v = [] then
                   (case qv_structType v of None \<Rightarrow> [] | Some s \<Rightarrow> targetName opts (gs_name s))
                 else qv_typ v)
      in if qv_emitPointer v \<and> qv_structType v \<noteq> None then ''*'' @ typ else typ)"

definition value_pairs :: "queryValue \<Rightarrow> options \<Rightarrow> argument list" where
  "value_pairs v opts =
     (if value_isEmpty v then []
      else case qv_structType v of
             Some s \<Rightarrow>
               if \<not> qv_emit v
               then map (\<lambda>f. \<lparr>arg_name = escape (lowerTitle (gf_name f)), arg_typ = gf_typ f\<rparr>) (gs_fields s)
               else [\<lparr>arg_name = escape (qv_name v), arg_typ = defineType v opts\<rparr>]
           | None \<Rightarrow> [\<lparr>arg_name = escape (qv_name v), arg_typ = defineType v opts\<rparr>])"

definition slicePair :: "queryValue \<Rightarrow> options \<Rightarrow> argument" where
  "slicePair v opts = \<lparr>arg_name = escape (qv_name v), arg_typ = ''[]'' @ defineType v opts\<rparr>"

section \<open>Structs of tables\<close>

definition singular :: "(string \<Rightarrow> string) \<Rightarrow> string \<Rightarrow> string" where
  "singular inflect nm =
     (let l = ToLower nm
      in if l \<in> {''campus'', ''meta'', ''metadata''} then nm
         else if l = ''calories'' then ''calorie''
         else if l = ''waves'' then ''wave''
         else inflect nm)"

definition table_struct ::
  "(string \<Rightarrow> string) \<Rightarrow> catalog \<Rightarrow> options \<Rightarrow> schema \<Rightarrow> table \<Rightarrow> goStruct" where
  "table_struct inflect cat opts sch tab =
     (let tableName = id_Name (tab_Rel tab);
          tableName = (if sch_Name sch \<noteq> cat_DefaultSchema cat then sch_Name sch @ ''_'' @ tableName
                       else tableName);
          tableName = (if EmitExactTableNames opts then tableName else singular inflect tableName)
      in \<lparr>gs_table = Some \<lparr>id_Catalog = id_Catalog (tab_Rel tab), id_Schema = sch_Name sch,
                           id_Name = id_Name (tab_Rel tab)\<rparr>,
          gs_name = structName tableName opts,
          gs_fields = map (\<lambda>c. \<lparr>gf_name = structName (col_Name c) opts, gf_dbName = col_Name c,
                                gf_typ = goType cat opts c\<rparr>) (tab_Columns tab)\<rparr>)"

definition buildStructs :: "(string \<Rightarrow> string) \<Rightarrow> catalog \<Rightarrow> options \<Rightarrow> goStruct list" where
  "buildStructs inflect cat opts =
     sort_key gs_name
       (concat (map (\<lambda>sch. if skippedSchema (sch_Name sch) then []
                           else map (table_struct inflect cat opts sch) (sch_Tables sch))
          (cat_Schemas cat)))"

section \<open>Structs of columns\<close>

record goColumn =
  gc_id :: nat
  gc_column :: column

text \<open>
  The loop of \<^verbatim>\<open>columnsToStruct\<close>: \<open>seen\<close> lists the field names before suffixing, \<open>sfxs\<close> maps
  column ids to their suffix.
\<close>

fun columns_fields ::
  "catalog \<Rightarrow> options \<Rightarrow> bool \<Rightarrow> string list \<Rightarrow> (nat \<rightharpoonup> nat) \<Rightarrow> nat \<Rightarrow> goColumn list \<Rightarrow> goField list" where
  "columns_fields cat opts useID seen sfxs idx [] = []"
| "columns_fields cat opts useID seen sfxs idx (col # cols) =
     (let nm = columnName (gc_column col) idx;
          base = structName nm opts;
          cnt = length (filter (\<lambda>s. s = base) seen);
          fresh = (if 0 < cnt \<and> \<not> col_IsNamedParam (gc_column col) then cnt + 1 else 0);
          sfx = (case sfxs (gc_id col) of
                   Some existing \<Rightarrow> if useID then existing else fresh
                 | None \<Rightarrow> fresh);
          field = (if 0 < sfx then base @ ''_'' @ Itoa sfx else base)
      in \<lparr>gf_name = field, gf_dbName = nm, gf_typ = goType cat opts (gc_column col)\<rparr>
         # columns_fields cat opts useID (base # seen) (sfxs(gc_id col \<mapsto> sfx)) (Suc idx) cols)"

fun check_field_types :: "(string \<rightharpoonup> string) \<Rightarrow> goField list \<Rightarrow> unit result" where
  "check_field_types types [] = Inr ()"
| "check_field_types types (f # fs) =
     (case types (gf_name f) of
        Some existing \<Rightarrow>
          if existing \<noteq> gf_typ f
          then Inl (Errorf ''named param %s has incompatible types: %s, %s''
                      [ArgStr (gf_name f), ArgStr existing, ArgStr (gf_typ f)])
          else check_field_types (types(gf_name f \<mapsto> gf_typ f)) fs
      | None \<Rightarrow> check_field_types (types(gf_name f \<mapsto> gf_typ f)) fs)"

definition checkIncompatibleFieldTypes :: "goField list \<Rightarrow> unit result" where
  "checkIncompatibleFieldTypes fs = check_field_types Map.empty fs"

definition columnsToStruct ::
  "string \<Rightarrow> goColumn list \<Rightarrow> catalog \<Rightarrow> options \<Rightarrow> bool \<Rightarrow> goStruct result" where
  "columnsToStruct nm cols cat opts useID =
     (let fs = columns_fields cat opts useID [] Map.empty 0 cols
      in and_then (checkIncompatibleFieldTypes fs)
           (\<lambda>_. Inr \<lparr>gs_table = None, gs_name = nm, gs_fields = fs\<rparr>))"

section \<open>Argument and result of a query\<close>

text \<open>The parameter limit; \<^verbatim>\<open>parseOptions\<close> has set it, to 1 when the options leave it out.\<close>

definition parameter_limit :: "options \<Rightarrow> int" where
  "parameter_limit opts = (case QueryParameterLimit opts of None \<Rightarrow> 1 | Some l \<Rightarrow> l)"

definition buildQueryArg :: "sql_query \<Rightarrow> catalog \<Rightarrow> options \<Rightarrow> queryValue result" where
  "buildQueryArg q cat opts =
     (let params = sq_Params q; limit = parameter_limit opts
      in if length params = 1 \<and> limit \<noteq> 0 then
           let p = hd params
           in Inr (zero_value \<lparr>qv_name := escape (paramName p), qv_dbName := col_Name (par_Column p),
                               qv_typ := goType cat opts (par_Column p)\<rparr>)
         else if params = [] then Inr zero_value
         else and_then (columnsToStruct (sq_Name q @ ''Params'')
                 (map (\<lambda>p. \<lparr>gc_id = par_Number p, gc_column = par_Column p\<rparr>) params) cat opts False)
               (\<lambda>s. Inr (zero_value
                  \<lparr>qv_emit := int (length params) > limit \<or> sq_Cmd q = '':copyfrom'',
                   qv_emitPointer := EmitParamsStructPointers opts,
                   qv_name := ''arg'', qv_structType := Some s\<rparr>)))"

definition queryReturnsData :: "string \<Rightarrow> bool" where
  "queryReturnsData cmd \<longleftrightarrow> cmd \<in> {'':one'', '':many'', '':batchone'', '':batchmany''}"

fun columns_match :: "catalog \<Rightarrow> options \<Rightarrow> sql_identifier option \<Rightarrow> nat \<Rightarrow> goField list \<Rightarrow> column list \<Rightarrow> bool" where
  "columns_match cat opts tab idx (f # fs) (c # cs) =
     (if gf_name f \<noteq> structName (columnName c idx) opts then False
      else if gf_typ f \<noteq> goType cat opts c then False
      else if \<not> sameTableName (col_Table c) tab (cat_DefaultSchema cat) then False
      else columns_match cat opts tab (Suc idx) fs cs)"
| "columns_match cat opts tab idx _ _ = True"

definition queryColumnsMatchStruct :: "catalog \<Rightarrow> options \<Rightarrow> column list \<Rightarrow> goStruct \<Rightarrow> bool" where
  "queryColumnsMatchStruct cat opts cols s =
     (if length (gs_fields s) \<noteq> length cols then False
      else columns_match cat opts (gs_table s) 0 (gs_fields s) cols)"

definition buildQueryReturn ::
  "sql_query \<Rightarrow> catalog \<Rightarrow> options \<Rightarrow> goStruct list \<Rightarrow> queryValue result" where
  "buildQueryReturn q cat opts structs =
     (let cols = sq_Columns q
      in if \<not> queryReturnsData (sq_Cmd q) then Inr zero_value
         else if length cols = 1 \<and> col_EmbedTable (hd cols) = None then
           let c = hd cols; nm = ReplaceAll (columnName c 0) ''$'' ''_''
           in Inr (zero_value \<lparr>qv_name := escape nm, qv_dbName := nm, qv_typ := goType cat opts c\<rparr>)
         else if cols = [] then Inr zero_value
         else case List.find (queryColumnsMatchStruct cat opts cols) structs of
                Some model \<Rightarrow>
                  Inr (zero_value \<lparr>qv_emitPointer := EmitResultStructPointers opts, qv_name := ''i'',
                                   qv_structType := Some model\<rparr>)
              | None \<Rightarrow>
                  and_then (columnsToStruct (sq_Name q @ ''Row'')
                      (map (\<lambda>(i, c). \<lparr>gc_id = i, gc_column = c\<rparr>) (enumerate 0 cols)) cat opts True)
                    (\<lambda>s. Inr (zero_value \<lparr>qv_emit := True, qv_emitPointer := EmitResultStructPointers opts,
                                          qv_name := ''i'', qv_structType := Some s\<rparr>)))"

definition resultTypes :: "sql_query \<Rightarrow> queryValue \<Rightarrow> options \<Rightarrow> string list result" where
  "resultTypes q ret opts =
     (let cmd = sq_Cmd q
      in if cmd = '':one'' then Inr [defineType ret opts, ''error'']
         else if cmd = '':many'' then Inr [''[]'' @ defineType ret opts, ''error'']
         else if cmd = '':exec'' then Inr [''error'']
         else if cmd = '':execrows'' \<or> cmd = '':copyfrom'' then Inr [''int64'', ''error'']
         else if cmd = '':execresult'' then Inr [''pgconn.CommandTag'', ''error'']
         else if cmd \<in> {'':batchexec'', '':batchone'', '':batchmany''}
           then Inr [''*'' @ targetName opts (sq_Name q @ ''BatchResults'')]
         else Inl (Errorf ''unsupported query command %q for %s'' [ArgStr cmd, ArgStr (sq_Name q)]))"

definition lastResultIsError :: "string list \<Rightarrow> bool" where
  "lastResultIsError results \<longleftrightarrow> results \<noteq> [] \<and> last results = ''error''"

section \<open>Properties\<close>

text \<open>Struct fields with the same name have the same type.\<close>

definition same_field :: "goField \<Rightarrow> goField \<Rightarrow> bool" where
  "same_field f g \<longleftrightarrow> (gf_name f = gf_name g \<longrightarrow> gf_typ f = gf_typ g)"

definition fields_consistent :: "goField list \<Rightarrow> bool" where
  "fields_consistent fs \<longleftrightarrow> (\<forall>f \<in> set fs. \<forall>g \<in> set fs. same_field f g)"

lemma same_field_sym: "same_field f g \<longleftrightarrow> same_field g f"
  by (auto simp: same_field_def)

lemma same_field_refl [simp]: "same_field f f"
  by (simp add: same_field_def)

lemma fields_consistent_Cons:
  "fields_consistent (f # fs) \<longleftrightarrow> fields_consistent fs \<and> (\<forall>g \<in> set fs. same_field g f)"
  unfolding fields_consistent_def using same_field_sym by auto

lemma check_field_types_ok:
  "check_field_types types fs = Inr () \<Longrightarrow>
    fields_consistent fs \<and> (\<forall>f \<in> set fs. \<forall>t. types (gf_name f) = Some t \<longrightarrow> gf_typ f = t)"
proof (induction fs arbitrary: types)
  case Nil
  then show ?case by (simp add: fields_consistent_def)
next
  case (Cons f fs)
  let ?types = "types(gf_name f \<mapsto> gf_typ f)"
  have rest: "check_field_types ?types fs = Inr ()"
    and head: "\<forall>t. types (gf_name f) = Some t \<longrightarrow> gf_typ f = t"
    using Cons.prems by (auto split: option.splits if_splits)
  note IH = Cons.IH [OF rest]
  have c: "fields_consistent fs" using IH by (rule conjunct1)
  have old: "gf_typ g = t" if "g \<in> set fs" "?types (gf_name g) = Some t" for g t
    using IH that by blast
  have same: "gf_typ g = gf_typ f" if "g \<in> set fs" "gf_name g = gf_name f" for g
    using old [OF that(1), of "gf_typ f"] that(2) by simp
  have "gf_typ g = t" if "g \<in> set fs" "types (gf_name g) = Some t" for g t
  proof (cases "gf_name g = gf_name f")
    case True
    then show ?thesis using head same [OF that(1)] that(2) by simp
  next
    case False
    then show ?thesis using old [OF that(1), of t] that(2) by simp
  qed
  moreover have "fields_consistent (f # fs)" 
    unfolding fields_consistent_Cons same_field_def using c same by blast
  ultimately show ?case using head by (metis set_ConsD)
qed

lemma columnsToStruct_consistent:
  "columnsToStruct nm cols cat opts useID = Inr s \<Longrightarrow> fields_consistent (gs_fields s)"
  by (auto simp: columnsToStruct_def checkIncompatibleFieldTypes_def Let_def result_simps
      dest: check_field_types_ok)

lemma columns_fields_typ:
  "map gf_typ (columns_fields cat opts useID seen sfx idx cols) = map (\<lambda>c. goType cat opts (gc_column c)) cols"
  by (induction cols arbitrary: seen sfx idx) (simp_all add: Let_def)

text \<open>A routed command is one whose last result is the error.\<close>

lemma resultTypes_error:
  "resultTypes q ret opts = Inr rs \<Longrightarrow>
    lastResultIsError rs \<longleftrightarrow> \<not> HasPrefix (sq_Cmd q) '':batch''"
  by (auto simp: resultTypes_def Let_def lastResultIsError_def HasPrefix_def split: if_splits)

section \<open>Field names of a result struct are distinct\<close>

text \<open>
  A field name before suffixing has no underscore after its first character, so a suffixed name
  determines the name and the suffix, and never is itself such a name.
\<close>

definition plain_base :: "string \<Rightarrow> bool" where
  "plain_base b \<longleftrightarrow> b \<noteq> [] \<and> CHR ''_'' \<notin> set (tl b)"

definition suffixed :: "string \<Rightarrow> nat \<Rightarrow> string" where
  "suffixed b n = (if 0 < n then b @ ''_'' @ Itoa n else b)"

lemma alnum_no_underscore: "list_all (\<lambda>c. is_letter c \<or> is_digit c) s \<Longrightarrow> CHR ''_'' \<notin> set s"
  by (auto simp: list_all_iff char_class_defs)

lemma structName_plain:
  assumes none: "rename_of opts nm = []" and some: "\<exists>c \<in> set nm. is_letter c \<or> is_digit c"
  shows "plain_base (structName nm opts)"
proof -
  let ?res = "concat (map struct_part (splitIdentifier nm))"
  have "list_all (\<lambda>c. is_letter c \<or> is_digit c) (struct_part p)" if "p \<in> set (splitIdentifier nm)" for p
    using splitIdentifier_parts [of p "[]" nm] that struct_part_alnum [of p]
    by (simp add: splitIdentifier_def)
  then have "list_all (\<lambda>c. is_letter c \<or> is_digit c) ?res" by (auto simp: list_all_iff)
  then have no: "CHR ''_'' \<notin> set ?res" by (rule alnum_no_underscore)
  have "structName nm opts \<noteq> []"
    using structName_identifier [OF none some] by (auto simp: validRouteIdentifier_def)
  moreover have "structName nm opts = ?res \<or> structName nm opts = CHR ''_'' # ?res"
    using none by (simp add: structName_def Let_def split: list.split)
  then have "CHR ''_'' \<notin> set (tl (structName nm opts))" using no by (metis list.sel(3) list.set_sel(2) tl_Nil)
  ultimately show ?thesis by (simp add: plain_base_def)
qed

lemma underscore_not_digit: "\<not> is_digit CHR ''_''"
  by (simp add: is_digit_def)

lemma suffixed_inj:
  assumes "plain_base a" "plain_base b" "suffixed a m = suffixed b n"
  shows "a = b \<and> (m = n)"
proof -
  have tail: "CHR ''_'' \<in> set (tl (c @ ''_'' @ t))" if "plain_base c" for c t
    using that by (cases c) (auto simp: plain_base_def)
  have digits: "CHR ''_'' \<notin> set (Itoa k)" for k
    using Itoa_digits underscore_not_digit by blast
  consider (none) "m = 0" "n = 0" | (left) "0 < m" "n = 0" | (right) "m = 0" "0 < n"
    | (both) "0 < m" "0 < n" by auto
  then show ?thesis
  proof cases
    case both
    then have eq: "a @ CHR ''_'' # Itoa m = b @ CHR ''_'' # Itoa n"
      using assms(3) by (simp add: suffixed_def)
    then have "rev (a @ CHR ''_'' # Itoa m) = rev (b @ CHR ''_'' # Itoa n)" by (rule arg_cong)
    then have r: "rev (Itoa m) @ CHR ''_'' # rev a = rev (Itoa n) @ CHR ''_'' # rev b" by simp
    have "takeWhile (\<lambda>c. c \<noteq> CHR ''_'') (rev (Itoa k) @ CHR ''_'' # t) = rev (Itoa k)" for k t
      using digits [of k] by (subst takeWhile_append2) auto
    then have "rev (Itoa m) = rev (Itoa n)" using r by metis
    with eq show ?thesis by simp
  next
    case none
    then show ?thesis using assms(3) by (simp add: suffixed_def)
  next
    case left
    then show ?thesis using assms tail [of a "Itoa m"] by (simp add: suffixed_def plain_base_def)
  next
    case right
    then show ?thesis using assms tail [of b "Itoa n"] by (simp add: suffixed_def plain_base_def)
  qed
qed

text \<open>
  With ids that differ no suffix is looked up by id, so a column that is no named parameter gets
  the number of earlier columns with its base name, plus one, as its suffix if there is any.
\<close>

definition base_of :: "options \<Rightarrow> nat \<Rightarrow> goColumn \<Rightarrow> string" where
  "base_of opts idx col = structName (columnName (gc_column col) idx) opts"

definition next_suffix :: "string list \<Rightarrow> string \<Rightarrow> nat" where
  "next_suffix seen b = (let n = count_list seen b in if 0 < n then n + 1 else 0)"

fun suffixed_names :: "string list \<Rightarrow> string list \<Rightarrow> string list" where
  "suffixed_names seen [] = []"
| "suffixed_names seen (b # bs) = suffixed b (next_suffix seen b) # suffixed_names (b # seen) bs"

lemma set_enumerate_snd: "(i, x) \<in> set (enumerate n xs) \<Longrightarrow> x \<in> set xs"
  by (auto simp: in_set_enumerate_eq)

lemma count_list_filter: "length (filter (\<lambda>s. s = b) xs) = count_list xs b"
  by (induction xs) auto

lemma columns_fields_names:
  assumes "distinct (map gc_id cols)" and "dom sfxs \<inter> set (map gc_id cols) = {}"
    and "\<forall>col \<in> set cols. \<not> col_IsNamedParam (gc_column col)"
  shows "map gf_name (columns_fields cat opts useID seen sfxs idx cols)
    = suffixed_names seen (map (\<lambda>(i, col). base_of opts i col) (enumerate idx cols))"
  using assms
proof (induction cols arbitrary: seen sfxs idx)
  case Nil
  then show ?case by simp
next
  case (Cons col cols)
  have new: "sfxs (gc_id col) = None" using Cons.prems(2) by auto
  have named: "\<not> col_IsNamedParam (gc_column col)" using Cons.prems(3) by simp
  have dom: "dom (sfxs(gc_id col \<mapsto> n)) \<inter> set (map gc_id cols) = {}" for n
    using Cons.prems(1,2) by auto
  have IH: "map gf_name (columns_fields cat opts useID seen' (sfxs(gc_id col \<mapsto> n)) idx' cols)
      = suffixed_names seen' (map (\<lambda>(i, col). base_of opts i col) (enumerate idx' cols))" for seen' n idx'
  proof (rule Cons.IH)
    show "distinct (map gc_id cols)" using Cons.prems(1) by simp
    show "dom (sfxs(gc_id col \<mapsto> n)) \<inter> set (map gc_id cols) = {}" by (rule dom)
    show "\<forall>col \<in> set cols. \<not> col_IsNamedParam (gc_column col)" using Cons.prems(3) by simp
  qed
  show ?case
    using new named
    by (simp add: Let_def IH count_list_filter base_of_def suffixed_def next_suffix_def)
qed

lemma suffixed_names_fresh:
  assumes "nm \<in> set (suffixed_names seen bs)" and "\<forall>b \<in> set bs. plain_base b"
  shows "\<exists>b \<in> set bs. \<exists>n. nm = suffixed b n \<and> next_suffix seen b \<le> n \<and> plain_base b"
  using assms
proof (induction bs arbitrary: seen)
  case (Cons b bs)
  show ?case
  proof (cases "nm = suffixed b (next_suffix seen b)")
    case True
    then show ?thesis using Cons.prems by auto
  next
    case False
    then have "nm \<in> set (suffixed_names (b # seen) bs)" using Cons.prems by simp
    from Cons.IH [OF this] Cons.prems obtain c n where c: "c \<in> set bs" "nm = suffixed c n"
      "next_suffix (b # seen) c \<le> n" "plain_base c" by auto
    have "next_suffix seen c \<le> next_suffix (b # seen) c" by (auto simp: next_suffix_def Let_def)
    with c show ?thesis by (intro bexI [of _ c] exI [of _ n]) auto
  qed
qed simp

lemma suffixed_names_distinct:
  "\<forall>b \<in> set bs. plain_base b \<Longrightarrow> distinct (suffixed_names seen bs)"
proof (induction bs arbitrary: seen)
  case (Cons b bs)
  have "suffixed b (next_suffix seen b) \<notin> set (suffixed_names (b # seen) bs)"
  proof
    assume "suffixed b (next_suffix seen b) \<in> set (suffixed_names (b # seen) bs)"
    from suffixed_names_fresh [OF this] Cons.prems obtain c n where c: "suffixed b (next_suffix seen b) = suffixed c n"
      "next_suffix (b # seen) c \<le> n" "plain_base c"
      by (metis list.set_intros(2))
    then have "c = b" "n = next_suffix seen b" using suffixed_inj [of b c] Cons.prems by auto
    with c(2) show False by (auto simp: next_suffix_def Let_def split: if_splits)
  qed
  with Cons show ?case by simp
qed simp

lemma result_columns_distinct:
  assumes "Rename opts = []"
    and cols: "\<forall>c \<in> set cols. \<not> col_IsNamedParam c \<and>
      (col_Name c = [] \<or> (\<exists>x \<in> set (col_Name c). is_letter x \<or> is_digit x))"
  shows "distinct (map gf_name (columns_fields cat opts useID [] Map.empty 0
    (map (\<lambda>(i, c). \<lparr>gc_id = i, gc_column = c\<rparr>) (enumerate 0 cols))))"
proof -
  let ?gcs = "map (\<lambda>(i, c). \<lparr>gc_id = i, gc_column = c\<rparr>) (enumerate 0 cols)"
  have ids: "map gc_id ?gcs = [0..<length cols]"
    by (simp add: enumerate_eq_zip comp_def case_prod_beta)
  have in_cols: "gc_column g \<in> set cols" if "g \<in> set ?gcs" for g
    using that by (auto simp: in_set_enumerate_eq)
  have "plain_base (base_of opts i g)" if "g \<in> set ?gcs" for i g
    unfolding base_of_def
  proof (rule structName_plain)
    show "rename_of opts (columnName (gc_column g) i) = []" using assms(1) by (simp add: rename_of_def)
    have "is_letter CHR ''c''" by (simp add: char_class_defs)
    then show "\<exists>x \<in> set (columnName (gc_column g) i). is_letter x \<or> is_digit x"
      using cols in_cols [OF that] by (auto simp: columnName_def)
  qed
  then have plain: "\<forall>b \<in> set (map (\<lambda>(i, col). base_of opts i col) (enumerate 0 ?gcs)). plain_base b"
    using set_enumerate_snd [of _ _ 0 ?gcs] by (fastforce simp del: map_map)
  have "map gf_name (columns_fields cat opts useID [] Map.empty 0 ?gcs)
      = suffixed_names [] (map (\<lambda>(i, col). base_of opts i col) (enumerate 0 ?gcs))"
  proof (rule columns_fields_names)
    show "distinct (map gc_id ?gcs)" unfolding ids by simp
    show "\<forall>col \<in> set ?gcs. \<not> col_IsNamedParam (gc_column col)" using cols in_cols by blast
  qed simp
  with suffixed_names_distinct [OF plain] show ?thesis by simp
qed

text \<open>
  C36: the struct generated for the rows of a query. When no rename is configured and every named
  column has a letter or digit in its name, an accepted result struct has pairwise distinct field
  names (columns with the same name are told apart by a numeric suffix), and one field per column
  in order, whose type is the Go type of the column.
\<close>

theorem row_struct_fields:
  assumes "columnsToStruct nm (map (\<lambda>(i, c). \<lparr>gc_id = i, gc_column = c\<rparr>) (enumerate 0 cols)) cat opts True
      = Inr s"
    and "Rename opts = []"
    and "\<forall>c \<in> set cols. \<not> col_IsNamedParam c \<and>
      (col_Name c = [] \<or> (\<exists>x \<in> set (col_Name c). is_letter x \<or> is_digit x))"
  shows "distinct (map gf_name (gs_fields s)) \<and> map gf_typ (gs_fields s) = map (goType cat opts) cols"
proof -
  have s: "gs_fields s = columns_fields cat opts True [] Map.empty 0
      (map (\<lambda>(i, c). \<lparr>gc_id = i, gc_column = c\<rparr>) (enumerate 0 cols))"
    using assms(1) by (auto simp: columnsToStruct_def Let_def result_simps)
  have "map (goType cat opts \<circ> (\<lambda>p. snd p)) (enumerate 0 cols) = map (goType cat opts) cols"
    by (simp flip: map_map)
  then show ?thesis
    using result_columns_distinct [OF assms(2,3)] unfolding s
    by (simp add: columns_fields_typ comp_def case_prod_beta)
qed

definition sample_column :: "string \<Rightarrow> column" where
  "sample_column nm = \<lparr>col_Name = nm, col_OriginalName = [],
     col_Type = Some \<lparr>id_Catalog = [], id_Schema = [], id_Name = ''text''\<rparr>, col_Table = None,
     col_EmbedTable = None, col_NotNull = True, col_IsArray = False, col_ArrayDims = 0,
     col_IsSqlcSlice = False, col_IsNamedParam = False, col_Unsigned = False\<rparr>"

definition sample_catalog :: catalog where
  "sample_catalog = \<lparr>cat_DefaultSchema = ''public'', cat_Schemas = []\<rparr>"

theorem row_struct_fields_witness:
  "\<exists>s. columnsToStruct ''R'' [\<lparr>gc_id = 0, gc_column = sample_column ''id''\<rparr>,
      \<lparr>gc_id = 1, gc_column = sample_column ''id''\<rparr>] sample_catalog zero_options True = Inr s
    \<and> map gf_name (gs_fields s) = [''ID'', ''ID_2''] \<and> distinct (map gf_name (gs_fields s))"
proof -
  let ?cols = "[sample_column ''id'', sample_column ''id'']"
  let ?s = "\<lparr>gs_table = None, gs_name = ''R'',
    gs_fields = [\<lparr>gf_name = ''ID'', gf_dbName = ''id'', gf_typ = ''string''\<rparr>,
                 \<lparr>gf_name = ''ID_2'', gf_dbName = ''id'', gf_typ = ''string''\<rparr>]\<rparr>"
  have "columnsToStruct ''R'' [\<lparr>gc_id = 0, gc_column = sample_column ''id''\<rparr>,
      \<lparr>gc_id = 1, gc_column = sample_column ''id''\<rparr>] sample_catalog zero_options True = Inr ?s"
    by code_simp
  moreover have "distinct (map gf_name (gs_fields ?s))"
    using row_struct_fields [of "''R''" ?cols sample_catalog zero_options ?s] calculation
    by (simp add: sample_column_def zero_options_def char_class_defs)
  ultimately show ?thesis by (intro exI [of _ ?s]) simp
qed

end
