(* ===== verification/Query_Annotations.thy ===== *)
theory Query_Annotations
  imports Plugin_Naming
begin

text \<open>
  The annotations of a query, \<^verbatim>\<open>classifyQuery\<close> of \<^verbatim>\<open>query.go\<close> and the functions under it: the
  comment lines after a query's name give its kind, an optional shard route and the store group
  it belongs to. What is accepted is well formed, and the text of a query whose annotations were
  printed is classified as printed.
\<close>

section \<open>Parsing\<close>

datatype annotKind = queryKindRead | queryKindWrite

record routeAnnotation =
  ra_name :: string
  ra_operands :: "string list"

definition shardAnnotationPrefix :: string where "shardAnnotationPrefix = ''shard:''"
definition storeAnnotationPrefix :: string where "storeAnnotationPrefix = ''store:''"

definition normalizeComment :: "string \<Rightarrow> string" where
  "normalizeComment comment =
     (let c = TrimSpace (TrimPrefix (TrimPrefix (TrimSpace comment) ''--'') ''//'');
          d = (if HasPrefix c ''/*'' \<and> HasSuffix c ''*/'' then TrimSuffix (TrimPrefix c ''/*'') ''*/''
               else c)
      in TrimSpace d)"

definition annotationPrefix :: "string \<Rightarrow> string" where
  "annotationPrefix comment =
     (let lower = ToLower (normalizeComment comment)
      in if HasPrefix lower shardAnnotationPrefix then shardAnnotationPrefix
         else if HasPrefix lower storeAnnotationPrefix then storeAnnotationPrefix
         else [])"

definition queryKindFromComment :: "string \<Rightarrow> string \<Rightarrow> annotKind result" where
  "queryKindFromComment queryName comment =
     (let c = normalizeComment comment
      in if \<not> HasPrefix (ToLower c) ''kind:'' then
           Inl (Errorf ''query %s first comment must be kind annotation; add -- kind: read or -- kind: write before other comments'' [ArgStr queryName])
         else let val = TrimSpace (drop (length ''kind:'') c)
              in if ToLower val = ''read'' then Inr queryKindRead
                 else if ToLower val = ''write'' then Inr queryKindWrite
                 else Inl (Errorf ''query %s has invalid kind annotation %q; expected read or write''
                             [ArgStr queryName, ArgStr val]))"

text \<open>The loop over the operands; \<open>seen\<close> holds the operands accepted so far.\<close>

fun shard_operands :: "string \<Rightarrow> string list \<Rightarrow> string list \<Rightarrow> string list result" where
  "shard_operands queryName seen [] = Inr []"
| "shard_operands queryName seen (part # parts) =
     (let operand = TrimSpace part
      in if \<not> validRouteIdentifier operand then
           Inl (Errorf ''query %s has invalid shard operand %q'' [ArgStr queryName, ArgStr operand])
         else if operand \<in> set seen then
           Inl (Errorf ''query %s repeats shard operand %q'' [ArgStr queryName, ArgStr operand])
         else and_then (shard_operands queryName (operand # seen) parts)
                (\<lambda>ops. Inr (operand # ops)))"

definition parseShardAnnotation :: "string \<Rightarrow> string \<Rightarrow> routeAnnotation result" where
  "parseShardAnnotation queryName comment =
     (let val = TrimSpace (drop (length ''shard:'') (normalizeComment comment));
          malformed = Errorf ''query %s has malformed shard annotation %q; expected route(parameter, ...)''
            [ArgStr queryName, ArgStr val]
      in case IndexByte val CHR ''('' of
           None \<Rightarrow> Inl malformed
         | Some open \<Rightarrow>
             if open = 0 \<or> \<not> HasSuffix val '')'' then Inl malformed
             else let nm = TrimSpace (take open val)
                  in if \<not> validRouteIdentifier nm then
                       Inl (Errorf ''query %s has invalid shard route name %q'' [ArgStr queryName, ArgStr nm])
                     else let body = TrimSpace (drop (open + 1) (take (length val - 1) val))
                          in if body = [] then Inr \<lparr>ra_name = nm, ra_operands = []\<rparr>
                             else and_then (shard_operands queryName [] (split_on CHR '','' body))
                                    (\<lambda>ops. Inr \<lparr>ra_name = nm, ra_operands = ops\<rparr>))"

definition parseStoreAnnotation :: "string \<Rightarrow> string \<Rightarrow> string result" where
  "parseStoreAnnotation queryName comment =
     (let val = TrimSpace (drop (length storeAnnotationPrefix) (normalizeComment comment))
      in if \<not> validRouteIdentifier val \<or> val \<in> set goKeywords \<or> \<not> first_upper val then
           Inl (Errorf ''query %s has invalid store annotation %q; expected an exported Go identifier''
                  [ArgStr queryName, ArgStr val])
         else Inr val)"

section \<open>Order of the annotations\<close>

definition shard_order_error :: "string \<Rightarrow> go_error" where
  "shard_order_error queryName =
     Errorf ''query %s shard annotation must immediately follow its kind annotation'' [ArgStr queryName]"

definition store_order_error :: "string \<Rightarrow> go_error" where
  "store_order_error queryName =
     Errorf ''query %s store annotation must immediately follow its kind or shard annotation''
       [ArgStr queryName]"

text \<open>The loop over the lines or comments left: the first annotation among them is an error.\<close>

fun no_annotations :: "string \<Rightarrow> string list \<Rightarrow> unit result" where
  "no_annotations queryName [] = Inr ()"
| "no_annotations queryName (l # ls) =
     (if annotationPrefix l = shardAnnotationPrefix then Inl (shard_order_error queryName)
      else if annotationPrefix l = storeAnnotationPrefix then Inl (store_order_error queryName)
      else no_annotations queryName ls)"

definition name_line :: "string \<Rightarrow> bool" where
  "name_line l \<longleftrightarrow> HasPrefix (ToLower (TrimSpace l)) ''-- name:''"

definition skip_raw :: "string \<Rightarrow> string list \<Rightarrow> string list" where
  "skip_raw annotation ls =
     (case ls of
        [] \<Rightarrow> []
      | l # rest \<Rightarrow>
          if annotationPrefix l = annotation \<and> HasPrefix (TrimSpace l) ''--'' then rest else ls)"

definition validateRawAnnotationOrder :: "sql_query \<Rightarrow> unit result" where
  "validateRawAnnotationOrder q =
     (case dropWhile (\<lambda>l. \<not> name_line l) (split_on CHR 0x0A (sq_Text q)) of
        [] \<Rightarrow> Inr ()
      | _ # after \<Rightarrow>
          let misplaced = Errorf ''query %s kind annotation must immediately follow its sqlc name annotation''
                [ArgStr (sq_Name q)]
          in case after of
               [] \<Rightarrow> Inl misplaced
             | l # ls \<Rightarrow>
                 if \<not> HasPrefix (ToLower (normalizeComment l)) ''kind:'' \<or> \<not> HasPrefix (TrimSpace l) ''--''
                 then Inl misplaced
                 else no_annotations (sq_Name q)
                        (skip_raw storeAnnotationPrefix (skip_raw shardAnnotationPrefix ls)))"

fun comment_lines :: "string list \<Rightarrow> string list" where
  "comment_lines [] = []"
| "comment_lines (rawLine # ls) =
     (let line = TrimSpace rawLine
      in if line = [] \<or> HasPrefix (ToLower line) ''-- name:'' then comment_lines ls
         else if HasPrefix line ''--'' then line # comment_lines ls
         else [])"

definition queryComments :: "sql_query \<Rightarrow> string list" where
  "queryComments q =
     (if sq_Comments q \<noteq> [] then sq_Comments q else comment_lines (split_on CHR 0x0A (sq_Text q)))"

section \<open>Classification\<close>

definition classify_shard ::
  "string \<Rightarrow> string list \<Rightarrow> (routeAnnotation option \<times> string list) result" where
  "classify_shard queryName comments =
     (case comments of
        [] \<Rightarrow> Inr (None, [])
      | c # cs \<Rightarrow>
          if annotationPrefix c = shardAnnotationPrefix
          then and_then (parseShardAnnotation queryName c) (\<lambda>r. Inr (Some r, cs))
          else Inr (None, comments))"

definition classify_store :: "string \<Rightarrow> string list \<Rightarrow> (string \<times> string list) result" where
  "classify_store queryName comments =
     (case comments of
        [] \<Rightarrow> Inr ([], [])
      | c # cs \<Rightarrow>
          if annotationPrefix c = storeAnnotationPrefix
          then and_then (parseStoreAnnotation queryName c) (\<lambda>s. Inr (s, cs))
          else Inr ([], comments))"

definition classifyQuery :: "sql_query \<Rightarrow> (annotKind \<times> routeAnnotation option \<times> string) result" where
  "classifyQuery q =
     and_then (validateRawAnnotationOrder q) (\<lambda>_.
       case queryComments q of
         [] \<Rightarrow> Inl (Errorf ''query %s is missing required kind annotation; add -- kind: read or -- kind: write immediately after -- name'' [ArgStr (sq_Name q)])
       | c # cs \<Rightarrow>
           and_then (queryKindFromComment (sq_Name q) c) (\<lambda>kind.
           and_then (classify_shard (sq_Name q) cs) (\<lambda>(route, cs).
           and_then (classify_store (sq_Name q) cs) (\<lambda>(store, cs).
           and_then (no_annotations (sq_Name q) cs) (\<lambda>_.
           and_then (check (store = [])
             (Errorf ''query %s is missing required store annotation; add -- store: ExportedGroup immediately after its optional shard annotation'' [ArgStr (sq_Name q)])) (\<lambda>_.
           Inr (kind, route, store)))))))"

section \<open>What is accepted is well formed\<close>

definition annotation_wf :: "routeAnnotation \<Rightarrow> bool" where
  "annotation_wf a \<longleftrightarrow> validRouteIdentifier (ra_name a)
     \<and> list_all validRouteIdentifier (ra_operands a) \<and> distinct (ra_operands a)"

definition store_name_wf :: "string \<Rightarrow> bool" where
  "store_name_wf s \<longleftrightarrow> validRouteIdentifier s \<and> s \<notin> set goKeywords \<and> first_upper s"

lemma shard_operands_wf:
  "shard_operands qn seen parts = Inr ops \<Longrightarrow>
    list_all validRouteIdentifier ops \<and> distinct ops \<and> set ops \<inter> set seen = {}"
proof (induction parts arbitrary: seen ops)
  case Nil
  then show ?case by simp
next
  case (Cons part parts)
  then obtain ops' where "ops = TrimSpace part # ops'" "validRouteIdentifier (TrimSpace part)"
      "TrimSpace part \<notin> set seen"
      and rest: "shard_operands qn (TrimSpace part # seen) parts = Inr ops'"
    by (auto simp: Let_def result_simps split: if_splits)
  with Cons.IH [OF rest] show ?case by auto
qed

lemma parseShardAnnotation_wf: "parseShardAnnotation qn c = Inr a \<Longrightarrow> annotation_wf a"
  by (auto simp: parseShardAnnotation_def Let_def annotation_wf_def result_simps
      split: option.splits if_splits dest!: shard_operands_wf)

lemma parseStoreAnnotation_wf: "parseStoreAnnotation qn c = Inr s \<Longrightarrow> store_name_wf s"
  by (auto simp: parseStoreAnnotation_def Let_def store_name_wf_def split: if_splits)

lemma classify_shard_wf:
  "classify_shard qn cs = Inr (Some a, ds) \<Longrightarrow> annotation_wf a"
  by (auto simp: classify_shard_def result_simps split: list.splits if_splits
      dest: parseShardAnnotation_wf)

lemma classify_store_wf:
  "classify_store qn cs = Inr (s, ds) \<Longrightarrow> s = [] \<or> store_name_wf s"
  by (auto simp: classify_store_def result_simps split: list.splits if_splits
      dest: parseStoreAnnotation_wf)

lemma classifyQuery_parts:
  assumes "classifyQuery q = Inr (kind, route, store)"
  obtains c cs ds es where "queryComments q = c # cs"
    "classify_shard (sq_Name q) cs = Inr (route, ds)"
    "classify_store (sq_Name q) ds = Inr (store, es)" "store \<noteq> []"
  using assms unfolding classifyQuery_def result_simps
  by (cases "queryComments q") (auto simp: result_simps split: prod.splits)

lemma classifyQuery_wf:
  assumes "classifyQuery q = Inr (kind, route, store)"
  shows "store_name_wf store \<and> (\<forall>a. route = Some a \<longrightarrow> annotation_wf a)"
  using assms by (rule classifyQuery_parts) (auto dest: classify_shard_wf classify_store_wf)

section \<open>Printed annotations are read back\<close>

definition print_kind :: "annotKind \<Rightarrow> string" where
  "print_kind k = ''-- '' @ (case k of queryKindRead \<Rightarrow> ''kind: read'' | queryKindWrite \<Rightarrow> ''kind: write'')"

definition print_route :: "routeAnnotation \<Rightarrow> string" where
  "print_route a = ra_name a @ ''('' @ join_with '', '' (ra_operands a) @ '')''"

definition print_shard :: "routeAnnotation \<Rightarrow> string" where
  "print_shard a = ''-- '' @ ''shard: '' @ print_route a"

definition print_store :: "string \<Rightarrow> string" where
  "print_store s = ''-- '' @ ''store: '' @ s"

definition annotated_text ::
  "string \<Rightarrow> annotKind \<Rightarrow> routeAnnotation option \<Rightarrow> string \<Rightarrow> string list \<Rightarrow> string" where
  "annotated_text nameLine kind route store body =
     join_with [CHR 0x0A] ([nameLine, print_kind kind]
       @ (case route of None \<Rightarrow> [] | Some a \<Rightarrow> [print_shard a]) @ [print_store store] @ body)"

lemma TrimSpace_Cons_space: "is_space c \<Longrightarrow> TrimSpace (c # s) = TrimSpace s"
  by (simp add: TrimSpace_def)

lemma is_space_blank [simp]: "is_space CHR '' ''"
  by (simp add: is_space_def)

lemma trimmed_append:
  "s \<noteq> [] \<Longrightarrow> \<not> is_space (last s) \<Longrightarrow> p \<noteq> [] \<Longrightarrow> \<not> is_space (hd p) \<Longrightarrow> trimmed (p @ s)"
  by (auto simp: trimmed_def)

text \<open>A comment written as \<open>--\<close>, a blank and trimmed text that starts with a letter.\<close>

definition plain_comment :: "string \<Rightarrow> bool" where
  "plain_comment s \<longleftrightarrow> s \<noteq> [] \<and> is_letter (hd s) \<and> \<not> is_space (last s)"

lemma plain_comment_trim: "plain_comment s \<Longrightarrow> TrimSpace (''-- '' @ s) = ''-- '' @ s"
  by (rule TrimSpace_id, rule trimmed_append) (auto simp: plain_comment_def is_space_def)

lemma plain_comment_normal: "plain_comment s \<Longrightarrow> normalizeComment (''-- '' @ s) = s"
proof -
  assume p: "plain_comment s"
  then have t: "TrimSpace s = s"
    by (intro TrimSpace_id) (auto simp: plain_comment_def trimmed_def char_class_defs)
  have pre: "TrimPrefix (''-- '' @ s) ''--'' = CHR '' '' # s"
    by (simp add: TrimPrefix_def HasPrefix_def)
  have slash: "TrimPrefix (CHR '' '' # s) ''//'' = CHR '' '' # s"
    by (simp add: TrimPrefix_def HasPrefix_def)
  have "\<not> HasPrefix s ''/*''"
    using p by (cases s) (auto simp: plain_comment_def HasPrefix_def char_class_defs)
  then show ?thesis
    using t by (simp add: normalizeComment_def Let_def plain_comment_trim [OF p, simplified]
        pre [simplified] slash TrimSpace_Cons_space)
qed

lemma ident_char_no_space: "ident_char c \<Longrightarrow> \<not> is_space c"
  by (auto simp: ident_char_def char_class_defs)

lemma identifier_trimmed:
  assumes "validRouteIdentifier s"
  shows "TrimSpace s = s" and "s \<noteq> []" and "\<not> is_space (last s)" and "\<not> is_space (hd s)"
proof -
  have s: "s \<noteq> []" "list_all ident_char s" using validRouteIdentifier_chars [OF assms] by auto
  then have "ident_char (last s)" "ident_char (hd s)" by (auto simp: list_all_iff)
  then show "\<not> is_space (last s)" "\<not> is_space (hd s)" by (auto dest: ident_char_no_space)
  then show "TrimSpace s = s" by (intro TrimSpace_id) (auto simp: trimmed_def)
  show "s \<noteq> []" by (rule s(1))
qed

lemma identifier_chars:
  "validRouteIdentifier s \<Longrightarrow> \<not> ident_char c \<Longrightarrow> c \<notin> set s"
  by (auto dest!: validRouteIdentifier_chars simp: list_all_iff)

lemma plain_kind: "plain_comment ''kind: read''" "plain_comment ''kind: write''"
  by (simp_all add: plain_comment_def char_class_defs)

lemma plain_shard: "plain_comment (''shard: '' @ print_route a)"
  by (simp add: plain_comment_def print_route_def char_class_defs)

lemma plain_store: "store_name_wf s \<Longrightarrow> plain_comment (''store: '' @ s)"
  using identifier_trimmed [of s] by (auto simp: plain_comment_def store_name_wf_def char_class_defs)

lemma queryKindFromComment_print: "queryKindFromComment qn (print_kind k) = Inr k"
  by (cases k)
    (simp_all add: queryKindFromComment_def print_kind_def plain_comment_normal [simplified] plain_kind
      Let_def HasPrefix_def TrimSpace_Cons_space TrimSpace_def ToLower_def to_lower_char_def char_class_defs)

lemma split_on_comma:
  assumes "list_all validRouteIdentifier ops" and "CHR '','' \<notin> set w"
  shows "split_on CHR '','' (join_with '', '' (w # ops)) = w # map (Cons CHR '' '') ops"
  using assms
proof (induction ops arbitrary: w)
  case Nil
  then show ?case by (simp add: split_on_word)
next
  case (Cons v ops)
  have "\<not> ident_char CHR '',''" by (simp add: ident_char_def char_class_defs)
  with Cons.prems have v: "CHR '','' \<notin> set v" by (auto dest: identifier_chars)
  have "split_on CHR '','' (CHR '' '' # join_with '', '' (v # ops))
      = (CHR '' '' # v) # map (Cons CHR '' '') ops"
    using Cons.IH [of v] Cons.prems v by simp
  then show ?case using Cons.prems(2) by (simp add: split_on_append)
qed

lemma shard_operands_print:
  assumes "list_all validRouteIdentifier ops" and "distinct ops" and "set ops \<inter> set seen = {}"
    and "\<forall>i < length ops. TrimSpace (parts ! i) = ops ! i" and "length parts = length ops"
  shows "shard_operands qn seen parts = Inr ops"
  using assms
proof (induction ops arbitrary: seen parts)
  case Nil
  then show ?case by simp
next
  case (Cons op ops)
  then obtain p ps where parts: "parts = p # ps" by (cases parts) auto
  have p: "TrimSpace p = op" using Cons.prems(4) parts by force
  have "\<forall>i < length ops. TrimSpace (ps ! i) = ops ! i" using Cons.prems(4) parts by force
  then have "shard_operands qn (op # seen) ps = Inr ops"
    using Cons.prems parts by (intro Cons.IH) auto
  then show ?case using Cons.prems parts p by (simp add: Let_def)
qed

lemma join_operands_trimmed:
  "list_all validRouteIdentifier ops \<Longrightarrow> trimmed (join_with '', '' ops) \<and> (ops \<noteq> [] \<longrightarrow> join_with '', '' ops \<noteq> [])"
proof (induction ops)
  case Nil
  then show ?case by (simp add: trimmed_def)
next
  case (Cons w ws)
  then have w: "w \<noteq> []" "\<not> is_space (hd w)" "\<not> is_space (last w)"
    using identifier_trimmed [of w] by auto
  show ?case
  proof (cases "ws = []")
    case True
    then show ?thesis using w by (simp add: trimmed_def)
  next
    case False
    then show ?thesis using Cons w by (auto simp: join_with_Cons trimmed_def)
  qed
qed

lemma parseShardAnnotation_print:
  assumes "annotation_wf a"
  shows "parseShardAnnotation qn (print_shard a) = Inr a"
proof -
  let ?nm = "ra_name a" and ?ops = "ra_operands a"
  define val where "val = print_route a"
  define body where "body = join_with '', '' ?ops"
  have wf: "validRouteIdentifier ?nm" "list_all validRouteIdentifier ?ops" "distinct ?ops"
    using assms by (auto simp: annotation_wf_def)
  have no: "\<not> ident_char CHR ''(''" "\<not> ident_char CHR '',''"
    by (simp_all add: ident_char_def char_class_defs)
  have nm: "?nm \<noteq> []" "TrimSpace ?nm = ?nm" "CHR ''('' \<notin> set ?nm"
    using identifier_trimmed [OF wf(1)] identifier_chars [OF wf(1) no(1)] by auto
  have "trimmed val"
    using identifier_trimmed [OF wf(1)]
    by (auto simp: val_def print_route_def trimmed_def is_space_def)
  then have val: "TrimSpace (drop (length ''shard:'') (normalizeComment (print_shard a))) = val"
    unfolding print_shard_def plain_comment_normal [OF plain_shard]
    by (simp add: TrimSpace_Cons_space TrimSpace_id flip: val_def)
  have idx: "IndexByte val CHR ''('' = Some (length ?nm)"
    using nm by (simp add: val_def print_route_def IndexByte_append)
  have suf: "HasSuffix val '')''"
    unfolding val_def print_route_def by (metis HasSuffix_append append.assoc)
  have tk: "take (length ?nm) val = ?nm" by (simp add: val_def print_route_def)
  have bd: "TrimSpace (drop (Suc (length ?nm)) (take (length val - Suc 0) val)) = body"
    using join_operands_trimmed [OF wf(2)]
    by (simp add: val_def body_def print_route_def TrimSpace_id)
  have "parseShardAnnotation qn (print_shard a)
      = (if body = [] then Inr \<lparr>ra_name = ?nm, ra_operands = []\<rparr>
         else and_then (shard_operands qn [] (split_on CHR '','' body))
                (\<lambda>ops. Inr \<lparr>ra_name = ?nm, ra_operands = ops\<rparr>))"
    unfolding parseShardAnnotation_def val
    using nm wf suf by (simp add: idx tk bd Let_def)
  also have "\<dots> = Inr a"
  proof (cases ?ops)
    case Nil
    then show ?thesis by (simp add: body_def)
  next
    case (Cons op ops)
    have op: "validRouteIdentifier op" "list_all validRouteIdentifier ops" using wf Cons by auto
    have "split_on CHR '','' body = op # map (Cons CHR '' '') ops"
      using split_on_comma [OF op(2) identifier_chars [OF op(1) no(2)]] Cons by (simp add: body_def)
    moreover have "shard_operands qn [] (op # map (Cons CHR '' '') ops) = Inr ?ops"
      using wf op Cons identifier_trimmed
      by (intro shard_operands_print)
        (auto simp: nth_Cons TrimSpace_Cons_space list_all_length split: nat.splits)
    moreover have "body \<noteq> []" using join_operands_trimmed [OF wf(2)] Cons by (simp add: body_def)
    ultimately show ?thesis by simp
  qed
  finally show ?thesis .
qed

lemma parseStoreAnnotation_print:
  assumes "store_name_wf s"
  shows "parseStoreAnnotation qn (print_store s) = Inr s"
  using assms identifier_trimmed [of s]
  unfolding parseStoreAnnotation_def print_store_def plain_comment_normal [OF plain_store [OF assms]]
  by (simp add: storeAnnotationPrefix_def TrimSpace_Cons_space store_name_wf_def Let_def)

lemma annotationPrefix_print:
  "annotationPrefix (print_shard a) = shardAnnotationPrefix"
  "store_name_wf s \<Longrightarrow> annotationPrefix (print_store s) = storeAnnotationPrefix"
  unfolding annotationPrefix_def print_shard_def print_store_def
  by (simp_all only: plain_comment_normal plain_shard plain_store)
    (simp_all add: Let_def shardAnnotationPrefix_def storeAnnotationPrefix_def HasPrefix_def ToLower_def
      to_lower_char_def char_class_defs)

text \<open>How the raw scan and the comment scan see a printed annotation.\<close>

definition annotation_line :: "string \<Rightarrow> bool" where
  "annotation_line l \<longleftrightarrow> TrimSpace l = l \<and> HasPrefix l ''--'' \<and> l \<noteq> []
     \<and> \<not> HasPrefix (ToLower l) ''-- name:'' \<and> CHR 0x0A \<notin> set l"

lemma join_operands_newline:
  "list_all validRouteIdentifier ops \<Longrightarrow> CHR 0x0A \<notin> set (join_with '', '' ops)"
proof (induction ops)
  case (Cons w ws)
  have "\<not> ident_char CHR 0x0A" by (simp add: ident_char_def char_class_defs)
  with Cons show ?case by (cases "ws = []") (auto simp: join_with_Cons dest: identifier_chars)
qed simp

lemma annotation_line_kind: "annotation_line (print_kind k)"
proof -
  have "TrimSpace (print_kind k) = print_kind k"
    unfolding print_kind_def by (rule plain_comment_trim) (cases k; simp add: plain_kind)
  then show ?thesis
    by (cases k) (simp_all add: annotation_line_def print_kind_def HasPrefix_def ToLower_def
        to_lower_char_def char_class_defs)
qed

lemma annotation_line_shard: "annotation_wf a \<Longrightarrow> annotation_line (print_shard a)"
proof -
  assume wf: "annotation_wf a"
  have "\<not> ident_char CHR 0x0A" by (simp add: ident_char_def char_class_defs)
  with wf have "CHR 0x0A \<notin> set (print_route a)"
    by (auto simp: print_route_def annotation_wf_def join_operands_newline dest: identifier_chars)
  moreover have "TrimSpace (print_shard a) = print_shard a"
    unfolding print_shard_def by (rule plain_comment_trim [OF plain_shard])
  ultimately show ?thesis
    by (simp add: annotation_line_def print_shard_def HasPrefix_def ToLower_def
        to_lower_char_def char_class_defs)
qed

lemma annotation_line_store: "store_name_wf s \<Longrightarrow> annotation_line (print_store s)"
proof -
  assume wf: "store_name_wf s"
  have "\<not> ident_char CHR 0x0A" by (simp add: ident_char_def char_class_defs)
  with wf have "CHR 0x0A \<notin> set s" by (auto simp: store_name_wf_def dest: identifier_chars)
  moreover have "TrimSpace (print_store s) = print_store s"
    unfolding print_store_def by (rule plain_comment_trim [OF plain_store [OF wf]])
  ultimately show ?thesis
    by (simp add: annotation_line_def print_store_def HasPrefix_def ToLower_def
        to_lower_char_def char_class_defs)
qed

lemma comment_lines_annotation:
  "annotation_line l \<Longrightarrow> comment_lines (l # ls) = l # comment_lines ls"
  by (simp add: annotation_line_def)

lemma comment_lines_name: "name_line l \<Longrightarrow> comment_lines (l # ls) = comment_lines ls"
  by (simp add: name_line_def)

lemma comment_lines_body:
  "l \<in> set (comment_lines ls) \<Longrightarrow> \<exists>r \<in> set ls. l = TrimSpace r"
  by (induction ls) (auto simp: Let_def split: if_splits)

lemma annotationPrefix_TrimSpace [simp]: "annotationPrefix (TrimSpace l) = annotationPrefix l"
  by (simp add: annotationPrefix_def normalizeComment_def)

lemma no_annotations_ok: "\<forall>l \<in> set ls. annotationPrefix l = [] \<Longrightarrow> no_annotations qn ls = Inr ()"
  by (induction ls) (simp_all add: shardAnnotationPrefix_def storeAnnotationPrefix_def)

definition annotation_lines :: "routeAnnotation option \<Rightarrow> string list" where
  "annotation_lines route = (case route of None \<Rightarrow> [] | Some a \<Rightarrow> [print_shard a])"

lemma prefixes_differ: "shardAnnotationPrefix \<noteq> storeAnnotationPrefix" "storeAnnotationPrefix \<noteq> []"
  by (simp_all add: shardAnnotationPrefix_def storeAnnotationPrefix_def)

lemma raw_order_print:
  assumes lines: "split_on CHR 0x0A (sq_Text q)
      = [nl, print_kind kind] @ annotation_lines route @ [print_store store] @ body"
    and "name_line nl" and "store_name_wf store" and "\<forall>a. route = Some a \<longrightarrow> annotation_wf a"
    and "\<forall>l \<in> set body. annotationPrefix l = []"
  shows "validateRawAnnotationOrder q = Inr ()"
proof -
  have kind: "HasPrefix (ToLower (normalizeComment (print_kind kind))) ''kind:''"
    by (cases kind)
      (simp_all add: print_kind_def plain_comment_normal [simplified] plain_kind HasPrefix_def ToLower_def
        to_lower_char_def char_class_defs)
  have dash: "HasPrefix (TrimSpace l) ''--''" if "annotation_line l" for l
    using that by (simp add: annotation_line_def)
  have "skip_raw storeAnnotationPrefix (skip_raw shardAnnotationPrefix
      (annotation_lines route @ [print_store store] @ body)) = body"
    using assms(3,4) prefixes_differ
    by (cases route) (simp_all add: annotation_lines_def skip_raw_def annotationPrefix_print dash
        annotation_line_shard annotation_line_store)
  then show ?thesis
    using lines assms(2) kind dash [OF annotation_line_kind] assms(5)
    by (simp add: validateRawAnnotationOrder_def no_annotations_ok)
qed

lemma classify_print:
  assumes lines: "split_on CHR 0x0A (sq_Text q)
      = [nl, print_kind kind] @ annotation_lines route @ [print_store store] @ body"
    and comments: "sq_Comments q = []"
    and nl: "name_line nl" and store: "store_name_wf store"
    and route: "\<forall>a. route = Some a \<longrightarrow> annotation_wf a"
    and body: "\<forall>l \<in> set body. annotationPrefix l = []"
  shows "classifyQuery q = Inr (kind, route, store)"
proof -
  let ?rest = "comment_lines body"
  have rest: "no_annotations (sq_Name q) ?rest = Inr ()"
    using body by (intro no_annotations_ok) (auto dest!: comment_lines_body)
  have "queryComments q = comment_lines ([nl, print_kind kind] @ annotation_lines route
      @ [print_store store] @ body)"
    using lines comments by (simp add: queryComments_def)
  also have "\<dots> = print_kind kind # annotation_lines route @ print_store store # ?rest"
    using nl route store
    by (cases route)
      (simp_all add: comment_lines_name comment_lines_annotation annotation_line_kind
        annotation_line_shard annotation_line_store annotation_lines_def del: comment_lines.simps)
  finally have c: "queryComments q = print_kind kind # annotation_lines route @ print_store store # ?rest" .
  have shard: "classify_shard (sq_Name q) (annotation_lines route @ print_store store # ?rest)
      = Inr (route, print_store store # ?rest)"
    using route store prefixes_differ
    by (cases route) (simp_all add: classify_shard_def annotation_lines_def annotationPrefix_print
        parseShardAnnotation_print)
  have "classify_store (sq_Name q) (print_store store # ?rest) = Inr (store, ?rest)"
    using store by (simp add: classify_store_def annotationPrefix_print parseStoreAnnotation_print)
  then show ?thesis
    using raw_order_print [OF lines nl store route body] c shard rest store
    by (simp add: classifyQuery_def queryKindFromComment_print store_name_wf_def
        validRouteIdentifier_def split: if_splits)
qed

text \<open>
  C32: annotations are read back from the text of a query that comes without separate comments. A text that starts with its name line, followed by
  the printed kind, the printed shard route if it has one, the printed store group and lines
  without annotations, is classified with exactly that kind, route (name and operands in order)
  and group.
\<close>

theorem annotations_roundtrip:
  assumes "sq_Text q = annotated_text nl kind route store body" and "sq_Comments q = []"
    and "name_line nl" and "CHR 0x0A \<notin> set nl"
    and "store_name_wf store" and "\<forall>a. route = Some a \<longrightarrow> annotation_wf a"
    and "\<forall>l \<in> set body. annotationPrefix l = [] \<and> CHR 0x0A \<notin> set l"
  shows "classifyQuery q = Inr (kind, route, store)"
proof (rule classify_print)
  let ?lines = "[nl, print_kind kind] @ annotation_lines route @ [print_store store] @ body"
  have "\<forall>l \<in> set ?lines. CHR 0x0A \<notin> set l"
    using assms annotation_line_kind [of kind] annotation_line_store [of store]
    by (cases route) (auto simp: annotation_lines_def annotation_line_def dest: annotation_line_shard)
  then show "split_on CHR 0x0A (sq_Text q) = ?lines"
    using split_join [of ?lines "CHR 0x0A"] assms(1)
    by (simp add: annotated_text_def annotation_lines_def)
qed (use assms in auto)

definition sample_route :: routeAnnotation where
  "sample_route = \<lparr>ra_name = ''tenant'', ra_operands = [''tenant_id'', ''region'']\<rparr>"

definition sample_annotated :: sql_query where
  "sample_annotated = \<lparr>sq_Name = ''GetAccount'', sq_Cmd = '':one'',
     sq_Text = annotated_text ''-- name: GetAccount :one'' queryKindRead (Some sample_route) ''Accounts''
       [''SELECT id FROM accounts WHERE tenant_id = $1;''],
     sq_Comments = [], sq_Columns = [], sq_Params = [], sq_InsertIntoTable = None\<rparr>"

theorem annotations_roundtrip_witness:
  "classifyQuery sample_annotated = Inr (queryKindRead, Some sample_route, ''Accounts'')"
proof (rule annotations_roundtrip)
  show "sq_Text sample_annotated = annotated_text ''-- name: GetAccount :one'' queryKindRead
      (Some sample_route) ''Accounts'' [''SELECT id FROM accounts WHERE tenant_id = $1;'']"
    by (simp add: sample_annotated_def)
  show "sq_Comments sample_annotated = []" by (simp add: sample_annotated_def)
  show "name_line ''-- name: GetAccount :one''" by code_simp
  show "store_name_wf ''Accounts''" by code_simp
  have "annotation_wf sample_route" by code_simp
  then show "\<forall>a. Some sample_route = Some a \<longrightarrow> annotation_wf a" by simp
  have "annotationPrefix ''SELECT id FROM accounts WHERE tenant_id = $1;'' = []" by code_simp
  then show "\<forall>l \<in> set [''SELECT id FROM accounts WHERE tenant_id = $1;''].
      annotationPrefix l = [] \<and> CHR 0x0A \<notin> set l"
    by simp
qed simp

end
