(* ===== verification/Sql_Relations.thy ===== *)
theory Sql_Relations
  imports Plugin_Naming
begin

text \<open>
  \<^verbatim>\<open>sql_relations.go\<close>: the tokenizer that finds the relations a query names, as the index
  arithmetic over the text that the code does, a reference lexer over the rest of the text, and
  the proof that they agree. Every scan stays inside the text and the tokenizer makes progress,
  which is what its termination rests on. Text written by a printer of quoted relation names is
  read back exactly.
\<close>

section \<open>Characters\<close>

definition isSQLSpace :: "char \<Rightarrow> bool" where
  "isSQLSpace c \<longleftrightarrow> c \<in> {CHR '' '', CHR 0x09, CHR 0x0A, CHR 0x0D, CHR 0x0C}"

definition isSQLIdentifierStart :: "char \<Rightarrow> bool" where
  "isSQLIdentifierStart c \<longleftrightarrow> c = CHR ''_'' \<or> is_lower c \<or> is_upper c"

definition isSQLIdentifierPart :: "char \<Rightarrow> bool" where
  "isSQLIdentifierPart c \<longleftrightarrow> isSQLIdentifierStart c \<or> is_digit c \<or> c = CHR ''$''"

definition isSQLDollarTagPart :: "char \<Rightarrow> bool" where
  "isSQLDollarTagPart c \<longleftrightarrow> isSQLIdentifierStart c \<or> is_digit c"

abbreviation squote :: char where "squote \<equiv> CHR 0x27"
abbreviation dquote :: char where "dquote \<equiv> CHR 0x22"
abbreviation newline :: char where "newline \<equiv> CHR 0x0A"

section \<open>Scans over the text by index\<close>

function skipSQLLineComment :: "string \<Rightarrow> nat \<Rightarrow> nat" where
  "skipSQLLineComment sql i =
     (if i < length sql \<and> sql ! i \<noteq> newline then skipSQLLineComment sql (i + 1) else i)"
  by pat_completeness auto
termination by (relation "measure (\<lambda>(sql, i). length sql - i)") auto

function skip_block_comment :: "string \<Rightarrow> nat \<Rightarrow> nat \<Rightarrow> nat" where
  "skip_block_comment sql i depth =
     (if i < length sql \<and> depth > 0 then
        if HasPrefix (drop i sql) ''/*'' then skip_block_comment sql (i + 2) (depth + 1)
        else if HasPrefix (drop i sql) ''*/'' then skip_block_comment sql (i + 2) (depth - 1)
        else skip_block_comment sql (i + 1) depth
      else i)"
  by pat_completeness auto
termination by (relation "measure (\<lambda>(sql, i, d). length sql - i)") auto

definition skipSQLBlockComment :: "string \<Rightarrow> nat \<Rightarrow> nat" where
  "skipSQLBlockComment sql i = skip_block_comment sql i 1"

function skipSQLSingleQuotedString :: "string \<Rightarrow> nat \<Rightarrow> nat" where
  "skipSQLSingleQuotedString sql i =
     (if i < length sql then
        if sql ! i \<noteq> squote then skipSQLSingleQuotedString sql (i + 1)
        else if i + 1 < length sql \<and> sql ! (i + 1) = squote
          then skipSQLSingleQuotedString sql (i + 2)
        else i + 1
      else i)"
  by pat_completeness auto
termination by (relation "measure (\<lambda>(sql, i). length sql - i)") auto

function read_quoted :: "string \<Rightarrow> nat \<Rightarrow> string \<Rightarrow> string \<times> nat" where
  "read_quoted sql i val =
     (if i < length sql then
        if sql ! i \<noteq> dquote then read_quoted sql (i + 1) (val @ [sql ! i])
        else if i + 1 < length sql \<and> sql ! (i + 1) = dquote
          then read_quoted sql (i + 2) (val @ [dquote])
        else (val, i + 1)
      else (val, i))"
  by pat_completeness auto
termination by (relation "measure (\<lambda>(sql, i, val). length sql - i)") auto

definition readSQLQuotedIdentifier :: "string \<Rightarrow> nat \<Rightarrow> string \<times> nat" where
  "readSQLQuotedIdentifier sql i = read_quoted sql i []"

text \<open>The loops \<^verbatim>\<open>for end < len(sql) && part(sql[end]) { end++ }\<close>.\<close>

function scan_while :: "(char \<Rightarrow> bool) \<Rightarrow> string \<Rightarrow> nat \<Rightarrow> nat" where
  "scan_while part sql i =
     (if i < length sql \<and> part (sql ! i) then scan_while part sql (i + 1) else i)"
  by pat_completeness auto
termination by (relation "measure (\<lambda>(part, sql, i). length sql - i)") auto

definition strings_Index :: "string \<Rightarrow> string \<Rightarrow> nat option" where
  "strings_Index s sep = map_option (\<lambda>(b, a). length b) (Cut s sep)"

definition skipSQLDollarQuotedString :: "string \<Rightarrow> nat \<Rightarrow> nat \<times> bool" where
  "skipSQLDollarQuotedString sql i =
     (let delimiterEnd = scan_while isSQLDollarTagPart sql (i + 1)
      in if delimiterEnd \<ge> length sql \<or> sql ! delimiterEnd \<noteq> CHR ''$'' then (i, False)
         else let delimiter = drop i (take (delimiterEnd + 1) sql)
              in case strings_Index (drop (delimiterEnd + 1) sql) delimiter of
                   Some closing \<Rightarrow> (delimiterEnd + 1 + closing + length delimiter, True)
                 | None \<Rightarrow> (length sql, True))"

declare skipSQLLineComment.simps [simp del] skip_block_comment.simps [simp del]
  skipSQLSingleQuotedString.simps [simp del] read_quoted.simps [simp del]
  scan_while.simps [simp del]

section \<open>Scans stay in the text and make progress\<close>

lemma skipSQLLineComment_bounds:
  "i \<le> length sql \<Longrightarrow> i \<le> skipSQLLineComment sql i \<and> skipSQLLineComment sql i \<le> length sql"
  by (induction sql i rule: skipSQLLineComment.induct)
    (subst (1 2) skipSQLLineComment.simps, auto)

lemma HasPrefix_drop_length:
  "HasPrefix (drop i s) p \<Longrightarrow> p \<noteq> [] \<Longrightarrow> i + length p \<le> length s"
proof -
  assume "HasPrefix (drop i s) p" "p \<noteq> []"
  then have "length p \<le> length s - i" "0 < length p"
    using prefix_length_le [of p "drop i s"] by (simp_all add: HasPrefix_iff_prefix)
  then show ?thesis by arith
qed

lemma skip_block_comment_bounds:
  "i \<le> length sql \<Longrightarrow> i \<le> skip_block_comment sql i d \<and> skip_block_comment sql i d \<le> length sql"
proof (induction sql i d rule: skip_block_comment.induct)
  case (1 sql i d)
  have "HasPrefix (drop i sql) ''/*'' \<Longrightarrow> i + 2 \<le> length sql"
    and "HasPrefix (drop i sql) ''*/'' \<Longrightarrow> i + 2 \<le> length sql"
    using HasPrefix_drop_length [of i sql "''/*''"] HasPrefix_drop_length [of i sql "''*/''"]
    by auto
  with 1 show ?case unfolding skip_block_comment.simps [of sql i d] by auto
qed

lemma skipSQLBlockComment_bounds:
  "i \<le> length sql \<Longrightarrow> i \<le> skipSQLBlockComment sql i \<and> skipSQLBlockComment sql i \<le> length sql"
  unfolding skipSQLBlockComment_def by (rule skip_block_comment_bounds)

lemma skipSQLSingleQuotedString_bounds:
  "i \<le> length sql \<Longrightarrow>
    i \<le> skipSQLSingleQuotedString sql i \<and> skipSQLSingleQuotedString sql i \<le> length sql"
proof (induction sql i rule: skipSQLSingleQuotedString.induct)
  case (1 sql i)
  then show ?case
    unfolding skipSQLSingleQuotedString.simps [of sql i] by auto
qed

lemma read_quoted_bounds:
  "i \<le> length sql \<Longrightarrow>
    i \<le> snd (read_quoted sql i val) \<and> snd (read_quoted sql i val) \<le> length sql"
proof (induction sql i val rule: read_quoted.induct)
  case (1 sql i val)
  then show ?case
    unfolding read_quoted.simps [of sql i val] by auto
qed

lemma scan_while_bounds:
  "i \<le> length sql \<Longrightarrow> i \<le> scan_while part sql i \<and> scan_while part sql i \<le> length sql"
proof (induction part sql i rule: scan_while.induct)
  case (1 part sql i)
  then show ?case by (auto simp: scan_while.simps [of part sql i])
qed

lemma strings_Index_bounds:
  "strings_Index s sep = Some n \<Longrightarrow> n + length sep \<le> length s"
  by (auto simp: strings_Index_def dest!: Cut_Some)

lemma skipSQLDollarQuotedString_bounds:
  assumes "i < length sql" and "skipSQLDollarQuotedString sql i = (n, True)"
  shows "i < n \<and> n \<le> length sql"
proof -
  define e where "e = scan_while isSQLDollarTagPart sql (Suc i)"
  let ?d = "drop i (take (e + 1) sql)"
  have e: "i + 1 \<le> e" using assms(1) scan_while_bounds [of "i + 1" sql] by (simp add: e_def)
  have le: "e < length sql" "sql ! e = CHR ''$''"
    using assms(2)
    by (auto simp: skipSQLDollarQuotedString_def Let_def e_def not_le split: if_splits)
  show ?thesis
  proof (cases "strings_Index (drop (e + 1) sql) ?d")
    case None
    then show ?thesis using assms le
      by (simp add: skipSQLDollarQuotedString_def Let_def flip: e_def)
  next
    case (Some k)
    then have "n = e + 1 + k + length ?d"
      using assms(2) le by (simp add: skipSQLDollarQuotedString_def Let_def flip: e_def)
    moreover have "k + length ?d \<le> length sql - (e + 1)" using strings_Index_bounds [OF Some] by simp
    moreover have "length ?d = e + 1 - i" using le by simp
    ultimately show ?thesis using e le by linarith
  qed
qed

section \<open>The tokenizer\<close>

record sql_token =
  tok_value :: string
  tok_identifier :: bool
  tok_quoted :: bool

function tokenize_from :: "string \<Rightarrow> nat \<Rightarrow> sql_token list" where
  "tokenize_from sql i =
     (if i < length sql then
        if isSQLSpace (sql ! i) then tokenize_from sql (i + 1)
        else if HasPrefix (drop i sql) ''--'' then tokenize_from sql (skipSQLLineComment sql (i + 2))
        else if HasPrefix (drop i sql) ''/*'' then tokenize_from sql (skipSQLBlockComment sql (i + 2))
        else if sql ! i = squote then tokenize_from sql (skipSQLSingleQuotedString sql (i + 1))
        else if sql ! i = dquote then
          let r = readSQLQuotedIdentifier sql (i + 1)
          in \<lparr>tok_value = fst r, tok_identifier = True, tok_quoted = True\<rparr> # tokenize_from sql (snd r)
        else if sql ! i = CHR ''$'' then
          if snd (skipSQLDollarQuotedString sql i)
          then tokenize_from sql (fst (skipSQLDollarQuotedString sql i))
          else tokenize_from sql (i + 1)
        else if isSQLIdentifierStart (sql ! i) then
          let n = scan_while isSQLIdentifierPart sql (i + 1)
          in \<lparr>tok_value = ToLower (drop i (take n sql)), tok_identifier = True, tok_quoted = False\<rparr>
             # tokenize_from sql n
        else
          (if sql ! i = CHR ''.'' \<or> sql ! i = CHR ''(''
           then [\<lparr>tok_value = [sql ! i], tok_identifier = False, tok_quoted = False\<rparr>] else [])
          @ tokenize_from sql (i + 1)
      else [])"
  by pat_completeness auto

lemma two_char_prefix: "HasPrefix (drop i sql) [c, d] \<Longrightarrow> i + 2 \<le> length sql"
  using HasPrefix_drop_length [of i sql "[c, d]"] by simp

termination tokenize_from
proof (relation "measure (\<lambda>(sql, i). length sql - i)", goal_cases)
  case (3 sql i)
  then show ?case
    using skipSQLLineComment_bounds [of "i + 2" sql] two_char_prefix [of i sql] by auto
next
  case (4 sql i)
  then show ?case
    using skipSQLBlockComment_bounds [of "i + 2" sql] two_char_prefix [of i sql] by auto
next
  case (5 sql i)
  then show ?case using skipSQLSingleQuotedString_bounds [of "i + 1" sql] by auto
next
  case (6 sql i r)
  then show ?case
    using read_quoted_bounds [of "i + 1" sql "[]"] by (auto simp: readSQLQuotedIdentifier_def)
next
  case (7 sql i)
  then show ?case
    using skipSQLDollarQuotedString_bounds [of i sql "fst (skipSQLDollarQuotedString sql i)"]
    by (cases "skipSQLDollarQuotedString sql i") auto
next
  case (9 sql i n)
  then show ?case using scan_while_bounds [of "i + 1" sql isSQLIdentifierPart] by auto
qed auto

declare tokenize_from.simps [simp del]

definition tokenizeSQLRelations :: "string \<Rightarrow> sql_token list" where
  "tokenizeSQLRelations sql = tokenize_from sql 0"

section \<open>A reference lexer over the rest of the text\<close>

fun block_rest :: "nat \<Rightarrow> string \<Rightarrow> string" where
  "block_rest 0 s = s"
| "block_rest (Suc d) [] = []"
| "block_rest (Suc d) [c] = []"
| "block_rest (Suc d) (b # c # s) =
     (if b = CHR ''/'' \<and> c = CHR ''*'' then block_rest (Suc (Suc d)) s
      else if b = CHR ''*'' \<and> c = CHR ''/'' then block_rest d s
      else block_rest (Suc d) (c # s))"

fun literal_rest :: "string \<Rightarrow> string" where
  "literal_rest [] = []"
| "literal_rest [c] = []"
| "literal_rest (b # c # s) =
     (if b \<noteq> squote then literal_rest (c # s)
      else if c = squote then literal_rest s else c # s)"

fun quoted_rest :: "string \<Rightarrow> string \<times> string" where
  "quoted_rest [] = ([], [])"
| "quoted_rest [c] = (if c \<noteq> dquote then [c] else [], [])"
| "quoted_rest (b # c # s) =
     (if b \<noteq> dquote then apfst (Cons b) (quoted_rest (c # s))
      else if c = dquote then apfst (Cons dquote) (quoted_rest s)
      else ([], c # s))"

definition dollar_rest :: "string \<Rightarrow> string option" where
  "dollar_rest s =
     (let tag = takeWhile isSQLDollarTagPart s
      in case drop (length tag) s of
           [] \<Rightarrow> None
         | c # body \<Rightarrow>
             if c \<noteq> CHR ''$'' then None
             else Some (case Cut body (CHR ''$'' # tag @ [CHR ''$'']) of None \<Rightarrow> [] | Some (b, a) \<Rightarrow> a))"

lemma length_block_rest: "length (block_rest d s) \<le> length s"
  by (induction d s rule: block_rest.induct) auto

lemma length_literal_rest: "length (literal_rest s) \<le> length s"
  by (induction s rule: literal_rest.induct) auto

lemma length_quoted_rest: "length (snd (quoted_rest s)) \<le> length s"
  by (induction s rule: quoted_rest.induct) auto

lemma length_dollar_rest: "dollar_rest s = Some r \<Longrightarrow> length r \<le> length s"
proof -
  assume "dollar_rest s = Some r"
  then obtain c body where b: "drop (length (takeWhile isSQLDollarTagPart s)) s = c # body"
    and r: "r = (case Cut body (CHR ''$'' # takeWhile isSQLDollarTagPart s @ [CHR ''$'']) of
                   None \<Rightarrow> [] | Some (b, a) \<Rightarrow> a)"
    by (auto simp: dollar_rest_def Let_def split: list.splits if_splits)
  have "length r \<le> length body" by (auto simp: r split: option.splits dest!: Cut_Some)
  also have "\<dots> \<le> length s" using arg_cong [OF b, of length] by simp
  finally show ?thesis .
qed

function lex :: "string \<Rightarrow> sql_token list" where
  "lex [] = []"
| "lex (c # s) =
     (if isSQLSpace c then lex s
      else if c = CHR ''-'' \<and> HasPrefix s ''-'' then lex (dropWhile (\<lambda>x. x \<noteq> newline) (drop 1 s))
      else if c = CHR ''/'' \<and> HasPrefix s ''*'' then lex (block_rest 1 (drop 1 s))
      else if c = squote then lex (literal_rest s)
      else if c = dquote then
        \<lparr>tok_value = fst (quoted_rest s), tok_identifier = True, tok_quoted = True\<rparr>
        # lex (snd (quoted_rest s))
      else if c = CHR ''$'' then
        (case dollar_rest s of Some r \<Rightarrow> lex r | None \<Rightarrow> lex s)
      else if isSQLIdentifierStart c then
        \<lparr>tok_value = ToLower (c # takeWhile isSQLIdentifierPart s), tok_identifier = True,
         tok_quoted = False\<rparr>
        # lex (dropWhile isSQLIdentifierPart s)
      else
        (if c = CHR ''.'' \<or> c = CHR ''(''
         then [\<lparr>tok_value = [c], tok_identifier = False, tok_quoted = False\<rparr>] else [])
        @ lex s)"
  by pat_completeness auto
termination
proof (relation "measure length", goal_cases)
  case (3 c s)
  have "length (dropWhile (\<lambda>x. x \<noteq> newline) (drop 1 s)) \<le> length (drop 1 s)"
    by (rule length_dropWhile_le)
  then show ?case by simp
next
  case (4 c s)
  then show ?case using length_block_rest [of 1 "drop 1 s"] by simp
next
  case (5 c s)
  then show ?case using length_literal_rest [of s] by simp
next
  case (6 c s)
  then show ?case using length_quoted_rest [of s] by simp
next
  case (9 c s)
  then show ?case using length_dropWhile_le [of isSQLIdentifierPart s] by simp
qed (auto dest!: length_dollar_rest)

declare lex.simps(2) [simp del]

section \<open>The tokenizer agrees with the reference lexer\<close>

lemma drop_nth: "i < length s \<Longrightarrow> drop i s = s ! i # drop (Suc i) s"
  by (rule Cons_nth_drop_Suc [symmetric])

lemma drop_skipSQLLineComment:
  "drop (skipSQLLineComment sql i) sql = dropWhile (\<lambda>x. x \<noteq> newline) (drop i sql)"
proof (induction sql i rule: skipSQLLineComment.induct)
  case (1 sql i)
  then show ?case
    by (cases "i < length sql")
      (auto simp: drop_nth [of i sql] skipSQLLineComment.simps [of sql i])
qed

lemma drop_scan_while:
  "drop (scan_while P sql i) sql = dropWhile P (drop i sql)
    \<and> drop i (take (scan_while P sql i) sql) = takeWhile P (drop i sql)"
proof (induction P sql i rule: scan_while.induct)
  case (1 P sql i)
  show ?case
  proof (cases "i < length sql \<and> P (sql ! i)")
    case True
    then have "Suc i \<le> scan_while P sql (Suc i)" using scan_while_bounds [of "Suc i" sql P] by simp
    then have "drop i (take (scan_while P sql (Suc i)) sql)
        = sql ! i # drop (Suc i) (take (scan_while P sql (Suc i)) sql)"
      using True by (subst drop_nth) auto
    with 1 True show ?thesis by (simp add: scan_while.simps [of P sql i] drop_nth [of i sql])
  next
    case False
    then show ?thesis
      by (cases "i < length sql") (auto simp: scan_while.simps [of P sql i] drop_nth [of i sql])
  qed
qed

lemma drop_skip_block_comment:
  "drop (skip_block_comment sql i d) sql = block_rest d (drop i sql)"
proof (induction sql i d rule: skip_block_comment.induct)
  case (1 sql i d)
  show ?case
  proof (cases "i < length sql \<and> d > 0")
    case False
    then have "skip_block_comment sql i d = i"
      unfolding skip_block_comment.simps [of sql i d] by auto
    then show ?thesis using False by (cases d) auto
  next
    case True
    then obtain e where d: "d = Suc e" by (cases d) auto
    show ?thesis
    proof (cases "Suc i < length sql")
      case False
      then have one: "drop i sql = [sql ! i]" using True by (simp add: drop_nth [of i sql])
      have "skip_block_comment sql i d = skip_block_comment sql (i + 1) d"
        using True one by (simp add: skip_block_comment.simps [of sql i d] HasPrefix_def)
      moreover have "skip_block_comment sql (i + 1) d = i + 1"
        using False by (simp add: skip_block_comment.simps [of sql "Suc i" d])
      ultimately show ?thesis using False one d by simp
    next
      case two: True
      then have "drop i sql = sql ! i # sql ! Suc i # drop (Suc (Suc i)) sql"
        using True by (simp add: drop_nth)
      with 1 True two d show ?thesis
        by (auto simp: skip_block_comment.simps [of sql i "Suc e"] HasPrefix_def
            drop_nth [of "Suc i" sql])
    qed
  qed
qed

lemma drop_skipSQLSingleQuotedString:
  "drop (skipSQLSingleQuotedString sql i) sql = literal_rest (drop i sql)"
proof (induction sql i rule: skipSQLSingleQuotedString.induct)
  case (1 sql i)
  show ?case
  proof (cases "Suc i < length sql")
    case False
    have "skipSQLSingleQuotedString sql (Suc i) = Suc i"
      using False by (simp add: skipSQLSingleQuotedString.simps [of sql "Suc i"])
    then show ?thesis
      using False by (cases "i < length sql")
        (auto simp: skipSQLSingleQuotedString.simps [of sql i] drop_nth [of i sql])
  next
    case True
    then have "drop i sql = sql ! i # sql ! Suc i # drop (Suc (Suc i)) sql" by (simp add: drop_nth)
    with 1 True show ?thesis
      by (auto simp: skipSQLSingleQuotedString.simps [of sql i] drop_nth [of "Suc i" sql])
  qed
qed

lemma read_quoted_rest:
  "read_quoted sql i val = (val @ fst (quoted_rest (drop i sql)), snd (read_quoted sql i val))
    \<and> drop (snd (read_quoted sql i val)) sql = snd (quoted_rest (drop i sql))"
proof (induction sql i val rule: read_quoted.induct)
  case (1 sql i val)
  show ?case
  proof (cases "Suc i < length sql")
    case False
    have "read_quoted sql (Suc i) v = (v, Suc i)" for v
      using False by (simp add: read_quoted.simps [of sql "Suc i"])
    then show ?thesis
      using False by (cases "i < length sql")
        (auto simp: read_quoted.simps [of sql i] drop_nth [of i sql])
  next
    case True
    then have "drop i sql = sql ! i # sql ! Suc i # drop (Suc (Suc i)) sql" by (simp add: drop_nth)
    with 1 True show ?thesis
      by (auto simp: read_quoted.simps [of sql i val] drop_nth [of "Suc i" sql] prod_eq_iff)
  qed
qed

lemma skipSQLDollarQuotedString_rest:
  assumes i: "i < length sql" and dollar: "sql ! i = CHR ''$''"
  shows "case dollar_rest (drop (Suc i) sql) of
      None \<Rightarrow> \<not> snd (skipSQLDollarQuotedString sql i)
    | Some r \<Rightarrow> snd (skipSQLDollarQuotedString sql i)
        \<and> drop (fst (skipSQLDollarQuotedString sql i)) sql = r"
proof -
  define e where "e = scan_while isSQLDollarTagPart sql (Suc i)"
  define tag where "tag = takeWhile isSQLDollarTagPart (drop (Suc i) sql)"
  have tag: "drop (Suc i) (take e sql) = tag"
    using drop_scan_while [of isSQLDollarTagPart sql "Suc i"] by (simp add: e_def tag_def)
  have "drop e sql = dropWhile isSQLDollarTagPart (drop (Suc i) sql)"
    using drop_scan_while [of isSQLDollarTagPart sql "Suc i"] by (simp add: e_def)
  then have rest: "drop (length tag) (drop (Suc i) sql) = drop e sql"
    by (simp add: tag_def dropWhile_eq_drop)
  have le: "Suc i \<le> e" using scan_while_bounds [of "Suc i" sql] i by (simp add: e_def)
  show ?thesis
  proof (cases "e < length sql \<and> sql ! e = CHR ''$''")
    case False
    then have "dollar_rest (drop (Suc i) sql) = None"
      using rest by (cases "e < length sql")
        (auto simp: dollar_rest_def Let_def drop_nth [of e sql] simp flip: tag_def)
    moreover have "\<not> snd (skipSQLDollarQuotedString sql i)"
      using False by (auto simp: skipSQLDollarQuotedString_def Let_def simp flip: e_def)
    ultimately show ?thesis by simp
  next
    case True
    have delim: "drop i (take (Suc e) sql) = CHR ''$'' # tag @ [CHR ''$'']"
      using True i dollar le tag by (simp add: take_Suc_conv_app_nth drop_nth [of i "take e sql"])
    let ?cut = "Cut (drop (Suc e) sql) (CHR ''$'' # tag @ [CHR ''$''])"
    have ref: "dollar_rest (drop (Suc i) sql)
        = Some (case ?cut of None \<Rightarrow> [] | Some (b, a) \<Rightarrow> a)"
      using rest True by (simp add: dollar_rest_def Let_def drop_nth [of e sql] flip: tag_def)
    have code: "skipSQLDollarQuotedString sql i = (case ?cut of
        None \<Rightarrow> (length sql, True)
      | Some (b, a) \<Rightarrow> (Suc e + length b + (length tag + 2), True))"
      using True delim
      by (auto simp: skipSQLDollarQuotedString_def Let_def strings_Index_def
          split: option.splits simp flip: e_def)
    show ?thesis
    proof (cases ?cut)
      case None
      then show ?thesis using ref code by simp
    next
      case (Some ba)
      obtain b a where ba: "ba = (b, a)" by fastforce
      then have "drop (Suc e) sql = b @ (CHR ''$'' # tag @ [CHR ''$'']) @ a"
        using Cut_Some [of "drop (Suc e) sql" "CHR ''$'' # tag @ [CHR ''$'']" b a] Some by simp
      then have "drop (length b + (length tag + 2)) (drop (Suc e) sql) = a" by simp
      then have "drop (Suc e + length b + (length tag + 2)) sql = a" by (simp add: ac_simps)
      then show ?thesis using ref code Some ba by simp
    qed
  qed
qed

lemma tokenize_from_lex: "i \<le> length sql \<Longrightarrow> tokenize_from sql i = lex (drop i sql)"
proof (induction "length sql - i" arbitrary: i rule: less_induct)
  case less
  have IH: "tokenize_from sql j = lex (drop j sql)" if "i < j" "j \<le> length sql" for j
    using less that by simp
  show ?case
  proof (cases "i < length sql")
    case False
    then show ?thesis using less.prems by (simp add: tokenize_from.simps [of sql "length sql"])
  next
    case True
    define c s where "c = sql ! i" and "s = drop (Suc i) sql"
    have cs: "drop i sql = c # s" using True by (simp add: drop_nth [of i sql] c_def s_def)
    have pre: "HasPrefix (drop i sql) [x, y] \<longleftrightarrow> c = x \<and> HasPrefix s [y]"
      "HasPrefix (c # s) [x, y] \<longleftrightarrow> c = x \<and> HasPrefix s [y]" for x y
      by (simp_all add: cs HasPrefix_def)
    have step: "tokenize_from sql (Suc i) = lex s" using IH True by (simp add: s_def)
    have line: "tokenize_from sql (skipSQLLineComment sql (Suc (Suc i)))
        = lex (dropWhile (\<lambda>x. x \<noteq> newline) (drop (Suc 0) s))" if "c = CHR ''-''" "HasPrefix s ''-''"
    proof -
      have "Suc (Suc i) \<le> length sql" using that pre two_char_prefix [of i sql] by fastforce
      then show ?thesis
        using skipSQLLineComment_bounds [of "Suc (Suc i)" sql]
        by (subst IH) (auto simp: drop_skipSQLLineComment s_def)
    qed
    have block: "tokenize_from sql (skipSQLBlockComment sql (Suc (Suc i)))
        = lex (block_rest (Suc 0) (drop (Suc 0) s))" if "c = CHR ''/''" "HasPrefix s ''*''"
    proof -
      have "Suc (Suc i) \<le> length sql" using that pre two_char_prefix [of i sql] by fastforce
      then show ?thesis
        using skipSQLBlockComment_bounds [of "Suc (Suc i)" sql]
        by (subst IH) (auto simp: skipSQLBlockComment_def drop_skip_block_comment s_def)
    qed
    have literal: "tokenize_from sql (skipSQLSingleQuotedString sql (Suc i)) = lex (literal_rest s)"
      using skipSQLSingleQuotedString_bounds [of "Suc i" sql] True
      by (subst IH) (auto simp: drop_skipSQLSingleQuotedString s_def)
    have quoted: "tokenize_from sql (snd (readSQLQuotedIdentifier sql (Suc i)))
          = lex (snd (quoted_rest s))"
      "fst (readSQLQuotedIdentifier sql (Suc i)) = fst (quoted_rest s)"
    proof -
      show "tokenize_from sql (snd (readSQLQuotedIdentifier sql (Suc i))) = lex (snd (quoted_rest s))"
        using read_quoted_bounds [of "Suc i" sql "[]"] True read_quoted_rest [of sql "Suc i" "[]"]
        by (subst IH) (auto simp: readSQLQuotedIdentifier_def s_def)
      show "fst (readSQLQuotedIdentifier sql (Suc i)) = fst (quoted_rest s)"
        using read_quoted_rest [of sql "Suc i" "[]"]
        by (metis append_Nil fst_conv s_def readSQLQuotedIdentifier_def)
    qed
    have dollar: "(if snd (skipSQLDollarQuotedString sql i)
          then tokenize_from sql (fst (skipSQLDollarQuotedString sql i)) else lex s)
        = (case dollar_rest s of Some r \<Rightarrow> lex r | None \<Rightarrow> lex s)" if "c = CHR ''$''"
    proof (cases "skipSQLDollarQuotedString sql i")
      case (Pair n ok)
      then show ?thesis
        using skipSQLDollarQuotedString_rest [OF True] that IH [of n]
          skipSQLDollarQuotedString_bounds [OF True, of n]
        by (cases ok) (auto simp: c_def s_def split: option.splits)
    qed
    have word: "tokenize_from sql (scan_while isSQLIdentifierPart sql (Suc i))
          = lex (dropWhile isSQLIdentifierPart s)"
      "drop i (take (scan_while isSQLIdentifierPart sql (Suc i)) sql)
          = c # takeWhile isSQLIdentifierPart s"
    proof -
      have b: "Suc i \<le> scan_while isSQLIdentifierPart sql (Suc i)"
        "scan_while isSQLIdentifierPart sql (Suc i) \<le> length sql"
        using scan_while_bounds [of "Suc i" sql] True by simp_all
      then show "tokenize_from sql (scan_while isSQLIdentifierPart sql (Suc i))
          = lex (dropWhile isSQLIdentifierPart s)"
        using drop_scan_while [of isSQLIdentifierPart sql "Suc i"]
        by (subst IH) (simp_all add: s_def)
      show "drop i (take (scan_while isSQLIdentifierPart sql (Suc i)) sql)
          = c # takeWhile isSQLIdentifierPart s"
        using drop_scan_while [of isSQLIdentifierPart sql "Suc i"] b True
        by (subst drop_nth) (simp_all add: c_def s_def)
    qed
    show ?thesis
      using True
      by (simp add: tokenize_from.simps [of sql i] pre lex.simps(2) step line block literal quoted
          dollar word Let_def cs flip: c_def cong: if_cong)
  qed
qed

lemma tokenize_lex: "tokenizeSQLRelations sql = lex sql"
  by (simp add: tokenizeSQLRelations_def tokenize_from_lex)

section \<open>Relations of a query\<close>

definition relation_keyword :: "sql_token \<Rightarrow> bool" where
  "relation_keyword t \<longleftrightarrow> tok_identifier t \<and> \<not> tok_quoted t
     \<and> tok_value t \<in> {''from'', ''into'', ''join'', ''update''}"

definition relation_modifier :: "sql_token \<Rightarrow> bool" where
  "relation_modifier t \<longleftrightarrow> tok_identifier t \<and> \<not> tok_quoted t
     \<and> (tok_value t = ''lateral'' \<or> tok_value t = ''only'')"

text \<open>The parts of a dotted name; the tokens are those after the part read last.\<close>

fun relation_parts :: "string list \<Rightarrow> sql_token list \<Rightarrow> string list" where
  "relation_parts parts (d # t # rest) =
     (if length parts < 3 \<and> tok_value d = ''.'' \<and> tok_identifier t
      then relation_parts (parts @ [tok_value t]) rest else parts)"
| "relation_parts parts _ = parts"

definition parts_relation :: "string list \<Rightarrow> sql_identifier list" where
  "parts_relation parts =
     (case parts of
        [n] \<Rightarrow> [\<lparr>id_Catalog = [], id_Schema = [], id_Name = n\<rparr>]
      | [s, n] \<Rightarrow> [\<lparr>id_Catalog = [], id_Schema = s, id_Name = n\<rparr>]
      | [c, s, n] \<Rightarrow> [\<lparr>id_Catalog = c, id_Schema = s, id_Name = n\<rparr>]
      | _ \<Rightarrow> [])"

definition relation_after :: "sql_token list \<Rightarrow> sql_identifier list" where
  "relation_after ts =
     (case dropWhile relation_modifier ts of
        [] \<Rightarrow> []
      | t # rest \<Rightarrow>
          if \<not> tok_identifier t then [] else parts_relation (relation_parts [tok_value t] rest))"

fun relations_of :: "sql_token list \<Rightarrow> sql_identifier list" where
  "relations_of [] = []"
| "relations_of (t # ts) = (if relation_keyword t then relation_after ts else []) @ relations_of ts"

definition queryRelationIdentifiers :: "string \<Rightarrow> sql_identifier list" where
  "queryRelationIdentifiers sql = relations_of (tokenizeSQLRelations sql)"

section \<open>Printed relations are read back\<close>

text \<open>
  A clause is a keyword, a relation and a string literal after it. The printer quotes every part
  of the relation's name and doubles quotes inside a part and inside the literal.
\<close>

definition double_char :: "char \<Rightarrow> string \<Rightarrow> string" where
  "double_char q v = concat (map (\<lambda>c. if c = q then [q, q] else [c]) v)"

definition print_quoted :: "char \<Rightarrow> string \<Rightarrow> string" where
  "print_quoted q v = q # double_char q v @ [q]"

definition relation_name_parts :: "sql_identifier \<Rightarrow> string list" where
  "relation_name_parts r =
     (if id_Catalog r \<noteq> [] then [id_Catalog r, id_Schema r, id_Name r]
      else if id_Schema r \<noteq> [] then [id_Schema r, id_Name r] else [id_Name r])"

record sql_clause =
  cl_keyword :: string
  cl_relation :: sql_identifier
  cl_literal :: string

definition print_clause :: "sql_clause \<Rightarrow> string" where
  "print_clause cl = cl_keyword cl @ '' '' @
     join_with ''.'' (map (print_quoted dquote) (relation_name_parts (cl_relation cl))) @ '' ''
     @ print_quoted squote (cl_literal cl) @ '' ''"

definition clause_ok :: "sql_clause \<Rightarrow> bool" where
  "clause_ok cl \<longleftrightarrow> cl_keyword cl \<in> {''from'', ''into'', ''join'', ''update''}"

abbreviation quoted_token :: "string \<Rightarrow> sql_token" where
  "quoted_token v \<equiv> \<lparr>tok_value = v, tok_identifier = True, tok_quoted = True\<rparr>"

abbreviation dot_token :: sql_token where
  "dot_token \<equiv> \<lparr>tok_value = ''.'', tok_identifier = False, tok_quoted = False\<rparr>"

abbreviation keyword_token :: "string \<Rightarrow> sql_token" where
  "keyword_token v \<equiv> \<lparr>tok_value = v, tok_identifier = True, tok_quoted = False\<rparr>"

fun dotted_tokens :: "string list \<Rightarrow> sql_token list" where
  "dotted_tokens [] = []"
| "dotted_tokens [v] = [quoted_token v]"
| "dotted_tokens (v # w # ws) = quoted_token v # dot_token # dotted_tokens (w # ws)"

lemma double_char_simps [simp]:
  "double_char q [] = []"
  "double_char q (c # v) = (if c = q then [q, q] else [c]) @ double_char q v"
  by (simp_all add: double_char_def)

lemma quoted_rest_print:
  assumes "c \<noteq> dquote"
  shows "quoted_rest (double_char dquote v @ dquote # c # s) = (v, c # s)"
proof (induction v)
  case Nil
  then show ?case using assms by simp
next
  case (Cons x v)
  obtain y t where "double_char dquote v @ dquote # c # s = y # t"
    by (cases "double_char dquote v @ dquote # c # s") auto
  with Cons show ?case by simp
qed

lemma literal_rest_print:
  assumes "c \<noteq> squote"
  shows "literal_rest (double_char squote v @ squote # c # s) = c # s"
proof (induction v)
  case Nil
  then show ?case using assms by simp
next
  case (Cons x v)
  obtain y t where "double_char squote v @ squote # c # s = y # t"
    by (cases "double_char squote v @ squote # c # s") auto
  with Cons show ?case by simp
qed

lemma lex_space [simp]: "lex (CHR '' '' # s) = lex s"
  by (simp add: lex.simps(2) isSQLSpace_def)

lemma lex_dot: "lex (CHR ''.'' # s) = dot_token # lex s"
  by (simp add: lex.simps(2) isSQLSpace_def isSQLIdentifierStart_def char_class_defs)

lemma lex_quoted:
  "c \<noteq> dquote \<Longrightarrow> lex (print_quoted dquote v @ c # s) = quoted_token v # lex (c # s)"
  by (simp add: print_quoted_def lex.simps(2) [of dquote] isSQLSpace_def quoted_rest_print)

lemma lex_literal:
  "c \<noteq> squote \<Longrightarrow> lex (print_quoted squote v @ c # s) = lex (c # s)"
  by (simp add: print_quoted_def lex.simps(2) [of squote] isSQLSpace_def literal_rest_print)

lemma lex_dotted:
  "ws \<noteq> [] \<Longrightarrow> lex (join_with ''.'' (map (print_quoted dquote) ws) @ CHR '' '' # s)
    = dotted_tokens ws @ lex s"
  by (induction ws rule: dotted_tokens.induct) (simp_all add: lex_quoted lex_dot)

lemma lex_keyword:
  assumes "k \<in> {''from'', ''into'', ''join'', ''update''}"
  shows "lex (k @ CHR '' '' # s) = keyword_token k # lex s"
  using assms
  by (auto simp: lex.simps(2) [of "CHR ''f''"] lex.simps(2) [of "CHR ''i''"]
      lex.simps(2) [of "CHR ''j''"] lex.simps(2) [of "CHR ''u''"]
      isSQLSpace_def isSQLIdentifierStart_def isSQLIdentifierPart_def char_class_defs
      ToLower_def to_lower_char_def)

lemma lex_clause:
  assumes "clause_ok cl"
  shows "lex (print_clause cl @ s)
    = keyword_token (cl_keyword cl) # dotted_tokens (relation_name_parts (cl_relation cl)) @ lex s"
  using assms
  by (simp add: print_clause_def clause_ok_def lex_keyword lex_dotted lex_literal
      relation_name_parts_def)

lemma relation_parts_dotted:
  "length ps + length ws \<le> 3 \<Longrightarrow> ts = [] \<or> tok_value (hd ts) \<noteq> ''.'' \<Longrightarrow>
    relation_parts ps (concat (map (\<lambda>w. [dot_token, quoted_token w]) ws) @ ts) = ps @ ws"
proof (induction ws arbitrary: ps)
  case Nil
  then show ?case by (cases "(ps, ts)" rule: relation_parts.cases) auto
next
  case (Cons w ws)
  then show ?case by simp
qed

lemma dotted_tokens_Cons:
  "dotted_tokens (w # ws) = quoted_token w # concat (map (\<lambda>w. [dot_token, quoted_token w]) ws)"
  by (induction ws arbitrary: w) simp_all

lemma relations_of_dotted [simp]: "relations_of (dotted_tokens ws @ ts) = relations_of ts"
  by (induction ws rule: dotted_tokens.induct) (simp_all add: relation_keyword_def)

definition relation_wf :: "sql_identifier \<Rightarrow> bool" where
  "relation_wf r \<longleftrightarrow> (id_Schema r = [] \<longrightarrow> id_Catalog r = [])"

lemma relation_after_dotted:
  assumes "relation_wf r" and "ts = [] \<or> tok_value (hd ts) \<noteq> ''.''"
  shows "relation_after (dotted_tokens (relation_name_parts r) @ ts) = [r]"
proof -
  have "relation_name_parts r \<noteq> []" and three: "length (relation_name_parts r) \<le> 3"
    by (auto simp: relation_name_parts_def)
  then obtain w ws where ws: "relation_name_parts r = w # ws" by (cases "relation_name_parts r") auto
  with three have len: "length ws \<le> 2" by simp
  have "relation_after (dotted_tokens (relation_name_parts r) @ ts) = parts_relation (w # ws)"
    using relation_parts_dotted [of "[w]" ws ts] assms(2) len
    by (simp add: ws dotted_tokens_Cons relation_after_def relation_modifier_def)
  also have "\<dots> = [r]"
    using ws assms(1)
    by (cases r) (auto simp: relation_name_parts_def parts_relation_def relation_wf_def split: if_splits)
  finally show ?thesis .
qed

lemma relations_of_clauses:
  assumes "\<forall>cl \<in> set cls. clause_ok cl \<and> relation_wf (cl_relation cl)"
  shows "relations_of (lex (concat (map print_clause cls))) = map cl_relation cls"
  using assms
proof (induction cls)
  case Nil
  then show ?case by simp
next
  case (Cons cl cls)
  let ?ts = "lex (concat (map print_clause cls))"
  have "?ts = [] \<or> tok_value (hd ?ts) \<noteq> ''.''"
  proof (cases cls)
    case (Cons c cs)
    with Cons.prems have "clause_ok c" by simp
    then have "?ts = keyword_token (cl_keyword c)
        # dotted_tokens (relation_name_parts (cl_relation c)) @ lex (concat (map print_clause cs))"
      using Cons by (simp add: lex_clause)
    then show ?thesis using \<open>clause_ok c\<close> by (auto simp: clause_ok_def)
  qed simp
  with Cons show ?case
    by (auto simp: lex_clause relation_after_dotted relation_keyword_def clause_ok_def)
qed

text \<open>
  C33: reading back printed relations. A text made of clauses, each a keyword that names a
  relation, the relation with quoted name parts, and a string literal with arbitrary text in it,
  yields exactly the relations in order: quotes, dots and keywords inside name parts and literals
  never add, drop or change a relation.
\<close>

theorem relations_roundtrip:
  assumes "\<forall>cl \<in> set cls. clause_ok cl \<and> relation_wf (cl_relation cl)"
  shows "queryRelationIdentifiers (concat (map print_clause cls)) = map cl_relation cls"
  using relations_of_clauses [OF assms] by (simp add: queryRelationIdentifiers_def tokenize_lex)

definition sample_clause :: sql_clause where
  "sample_clause = \<lparr>cl_keyword = ''from'',
     cl_relation = \<lparr>id_Catalog = [], id_Schema = ''a.b'', id_Name = ''from''\<rparr>,
     cl_literal = ''it'' @ [squote] @ ''s from x''\<rparr>"

theorem relations_roundtrip_witness:
  "queryRelationIdentifiers (concat (map print_clause [sample_clause]))
    = [\<lparr>id_Catalog = [], id_Schema = ''a.b'', id_Name = ''from''\<rparr>]"
  using relations_roundtrip [of "[sample_clause]"]
  by (simp add: sample_clause_def clause_ok_def relation_wf_def)

text \<open>
  C35: the index arithmetic of the tokenizer. Every scan that starts inside the text ends inside
  it and not before its start, and a dollar-quoted string that is skipped ends past its start, so
  the tokenizer never indexes outside the text and always makes progress.
\<close>

theorem tokenizer_scans_in_bounds:
  assumes "i \<le> length sql"
  shows "skipSQLLineComment sql i \<in> {i..length sql}
    \<and> skipSQLBlockComment sql i \<in> {i..length sql}
    \<and> skipSQLSingleQuotedString sql i \<in> {i..length sql}
    \<and> snd (readSQLQuotedIdentifier sql i) \<in> {i..length sql}
    \<and> (i < length sql \<and> snd (skipSQLDollarQuotedString sql i) \<longrightarrow>
         fst (skipSQLDollarQuotedString sql i) \<in> {i<..length sql})"
  using assms skipSQLLineComment_bounds skipSQLBlockComment_bounds skipSQLSingleQuotedString_bounds
    read_quoted_bounds [of i sql "[]"]
    skipSQLDollarQuotedString_bounds [of i sql "fst (skipSQLDollarQuotedString sql i)"]
  by (auto simp: readSQLQuotedIdentifier_def prod_eq_iff)

theorem tokenizer_scans_in_bounds_witness:
  "skipSQLLineComment ''-- x'' 2 \<in> {2..4}
    \<and> fst (skipSQLDollarQuotedString ''$a$from x$a$'' 0) \<in> {0<..12}"
proof -
  have "skipSQLLineComment ''-- x'' 2 \<in> {2..length ''-- x''}"
    using tokenizer_scans_in_bounds [of 2 "''-- x''"] by (simp del: atLeastAtMost_iff)
  moreover have "snd (skipSQLDollarQuotedString ''$a$from x$a$'' 0)" by code_simp
  then have "fst (skipSQLDollarQuotedString ''$a$from x$a$'' 0) \<in> {0<..length ''$a$from x$a$''}"
    using tokenizer_scans_in_bounds [of 0 "''$a$from x$a$''"] by (simp del: greaterThanAtMost_iff)
  ultimately show ?thesis by simp
qed

text \<open>
  C34: the tokenizer computes what the reference lexer, which only ever looks at the text that is
  left, computes.
\<close>

theorem tokenizer_matches_reference: "tokenizeSQLRelations sql = lex sql"
  by (rule tokenize_lex)

end
