(* ===== verification/Query_Routes.thy ===== *)
theory Query_Routes
  imports Query_Values Query_Annotations Sql_Relations
begin

text \<open>
  Shard routes of generated queries, the second half of \<^verbatim>\<open>query.go\<close>: the specification of a
  grouped lookup, the operands of a shard route, the wrapper struct that carries the shard key
  and the remaining parameters of a routed query, and \<^verbatim>\<open>buildQueries\<close>, which composes them with
  the annotations, arguments and results of the other theories. A parameter struct is emitted only
  with its struct type, and a grouped query always has its specification, so the branches where
  the code would dereference nil are never taken; the definitions return their input there.
\<close>

section \<open>Data\<close>

record routeOperand =
  ro_name :: string
  ro_typ :: string
  ro_expression :: string
  ro_dbName :: string
  ro_fieldName :: string
  ro_external :: bool

record shardRoute =
  sr_name :: string
  sr_methodName :: string
  sr_queryName :: string
  sr_operands :: "routeOperand list"

record shardArgWrapper =
  sw_name :: string
  sw_shardKeyType :: string
  sw_fields :: "goField list"
  sw_sqlcArg :: queryValue
  sw_sqlcFieldExpressions :: "(string \<times> string) list"

record resultKeyAccess =
  ka_nullable :: bool
  ka_pointer :: bool
  ka_valid :: bool
  ka_valueField :: string

record groupedManySpec =
  gm_parameterDBName :: string
  gm_parameterField :: string
  gm_lookupDBName :: string
  gm_lookupField :: string
  gm_lookupExpression :: string
  gm_elementType :: string
  gm_resultKeyField :: string
  gm_resultIsStruct :: bool
  gm_resultKeyAccess :: resultKeyAccess
  gm_itemIsPointer :: bool

datatype shardMode =
    shardModeNone | shardModeRouted | shardModeAll | shardModeGroupedCopy | shardModeGroupedMany

record storeParamAlias =
  pa_name :: string
  pa_target :: string

record generatedQuery =
  gq_methodName :: string
  gq_command :: string
  gq_kind :: annotKind
  gq_arg :: queryValue
  gq_ret :: queryValue
  gq_params :: "argument list"
  gq_storeParams :: "argument list"
  gq_callArgs :: "string list"
  gq_results :: "string list"
  gq_route :: "shardRoute option"
  gq_shardMode :: shardMode
  gq_store :: string
  gq_storeParamAlias :: "storeParamAlias option"
  gq_shardArgs :: "shardArgWrapper option"
  gq_groupedMany :: "groupedManySpec option"

section \<open>Keys of grouped lookups\<close>

definition splitTypeQualifier :: "string \<Rightarrow> string \<times> string" where
  "splitTypeQualifier typ = (case Cut typ ''.'' of None \<Rightarrow> ([], typ) | Some (q, n) \<Rightarrow> (q, n))"

definition plain_access :: resultKeyAccess where
  "plain_access = \<lparr>ka_nullable = False, ka_pointer = False, ka_valid = False, ka_valueField = []\<rparr>"

definition nullableTypes :: "(string \<times> string \<times> string) list" where
  "nullableTypes =
     [(''pgtype.Int4'', ''int32'', ''Int32''), (''pgtype.Int8'', ''int64'', ''Int64''),
      (''pgtype.Int2'', ''int16'', ''Int16''), (''pgtype.Float8'', ''float64'', ''Float64''),
      (''pgtype.Float4'', ''float32'', ''Float32''), (''pgtype.Bool'', ''bool'', ''Bool''),
      (''pgtype.Text'', ''string'', ''String''), (''sql.NullBool'', ''bool'', ''Bool''),
      (''sql.NullByte'', ''byte'', ''Byte''), (''sql.NullFloat64'', ''float64'', ''Float64''),
      (''sql.NullInt16'', ''int16'', ''Int16''), (''sql.NullInt32'', ''int32'', ''Int32''),
      (''sql.NullInt64'', ''int64'', ''Int64''), (''sql.NullString'', ''string'', ''String''),
      (''sql.NullTime'', ''time.Time'', ''Time'')]"

text \<open>The nullable form \<open>Null\<close>\<^emph>\<open>Name\<close> of a named type, in the same package.\<close>

definition qualified_access :: "string \<Rightarrow> string \<Rightarrow> resultKeyAccess option" where
  "qualified_access resultType elementType =
     (let (resultQualifier, resultName) = splitTypeQualifier resultType;
          (elementQualifier, elementName) = splitTypeQualifier elementType
      in if resultQualifier = elementQualifier \<and> resultName = ''Null'' @ elementName \<and> elementName \<noteq> []
         then Some \<lparr>ka_nullable = True, ka_pointer = False, ka_valid = True, ka_valueField = elementName\<rparr>
         else None)"

definition groupedManyKeyAccess :: "string \<Rightarrow> string \<Rightarrow> resultKeyAccess option" where
  "groupedManyKeyAccess resultType elementType =
     (if resultType = elementType then Some plain_access
      else if resultType = ''*'' @ elementType
        then Some \<lparr>ka_nullable = True, ka_pointer = True, ka_valid = False, ka_valueField = []\<rparr>
      else case map_of nullableTypes resultType of
             Some (e, vf) \<Rightarrow>
               if e = elementType
               then Some \<lparr>ka_nullable = True, ka_pointer = False, ka_valid = True, ka_valueField = vf\<rparr>
               else qualified_access resultType elementType
           | None \<Rightarrow> qualified_access resultType elementType)"

definition lookup_names :: "(string \<Rightarrow> string) \<Rightarrow> string \<Rightarrow> string list" where
  "lookup_names inflect nm =
     (if singular inflect nm \<noteq> nm then [nm, singular inflect nm] else [nm])"

definition groupedManyLookupDescription :: "string list \<Rightarrow> string" where
  "groupedManyLookupDescription names =
     (if length names = 1 then quote (names ! 0)
      else quote (names ! 0) @ '' or its singular form '' @ quote (names ! 1))"

definition key_type_error :: "string \<Rightarrow> string \<Rightarrow> string \<Rightarrow> string \<Rightarrow> go_error" where
  "key_type_error queryName lookup typ elementType =
     Errorf ''query %s grouped :many result key %q has Go type %s, want %s''
       [ArgStr queryName, ArgStr lookup, ArgStr typ, ArgStr elementType]"

text \<open>The key of a result that is one column, and the key of a result struct, by candidate names.\<close>

fun scalar_key ::
  "string \<Rightarrow> queryValue \<Rightarrow> string \<Rightarrow> string list \<Rightarrow> (string \<times> string \<times> bool \<times> resultKeyAccess) option result" where
  "scalar_key queryName ret elementType [] = Inr None"
| "scalar_key queryName ret elementType (l # ls) =
     (if qv_dbName ret \<noteq> l then scalar_key queryName ret elementType ls
      else case groupedManyKeyAccess (qv_typ ret) elementType of
             None \<Rightarrow> Inl (key_type_error queryName l (qv_typ ret) elementType)
           | Some access \<Rightarrow> Inr (Some ([], l, False, access)))"

fun struct_key ::
  "string \<Rightarrow> goField list \<Rightarrow> string \<Rightarrow> string list \<Rightarrow> (string \<times> string \<times> bool \<times> resultKeyAccess) option result" where
  "struct_key queryName fs elementType [] = Inr None"
| "struct_key queryName fs elementType (l # ls) =
     (case filter (\<lambda>f. gf_dbName f = l) fs of
        [] \<Rightarrow> struct_key queryName fs elementType ls
      | [f] \<Rightarrow>
          (case groupedManyKeyAccess (gf_typ f) elementType of
             None \<Rightarrow> Inl (key_type_error queryName l (gf_typ f) elementType)
           | Some access \<Rightarrow> Inr (Some (gf_name f, l, True, access)))
      | _ \<Rightarrow> Inl (Errorf ''query %s grouped :many result exposes multiple fields for lookup key %q''
                  [ArgStr queryName, ArgStr l]))"

definition groupedManyResultKey ::
  "(string \<Rightarrow> string) \<Rightarrow> string \<Rightarrow> queryValue \<Rightarrow> string \<Rightarrow> string \<Rightarrow>
   (string \<times> string \<times> bool \<times> resultKeyAccess) result" where
  "groupedManyResultKey inflect queryName ret parameterDBName elementType =
     (let names = lookup_names inflect parameterDBName
      in case qv_structType ret of
           None \<Rightarrow>
             and_then (scalar_key queryName ret elementType names) (\<lambda>found.
               case found of
                 Some k \<Rightarrow> Inr k
               | None \<Rightarrow> Inl (Errorf ''query %s grouped :many result must expose lookup key %s; got scalar result %q''
                   [ArgStr queryName, ArgStr (groupedManyLookupDescription names), ArgStr (qv_dbName ret)]))
         | Some s \<Rightarrow>
             and_then (struct_key queryName (gs_fields s) elementType names) (\<lambda>found.
               case found of
                 Some k \<Rightarrow> Inr k
               | None \<Rightarrow> Inl (Errorf ''query %s grouped :many result must expose exactly one field for lookup key %s''
                   [ArgStr queryName, ArgStr (groupedManyLookupDescription names)])))"

definition buildGroupedManySpec ::
  "(string \<Rightarrow> string) \<Rightarrow> sql_query \<Rightarrow> queryValue \<Rightarrow> queryValue \<Rightarrow> catalog \<Rightarrow> options \<Rightarrow> groupedManySpec option result" where
  "buildGroupedManySpec inflect q arg ret cat opts =
     (case sq_Params q of
        [p] \<Rightarrow>
          let c = par_Column p
          in if \<not> (col_IsSqlcSlice c \<or> col_IsArray c \<and> col_ArrayDims c = 1) then Inr None
             else if col_Name c = [] then
               Inl (Errorf ''query %s grouped :many list parameter must have a name so returned rows can be reordered''
                      [ArgStr (sq_Name q)])
             else
               let parameterType = goType cat opts c; (elementType, ok) = CutPrefix parameterType ''[]''
               in if \<not> ok \<or> elementType = [] then
                    Inl (Errorf ''query %s grouped :many parameter %q has non-list Go type %s''
                           [ArgStr (sq_Name q), ArgStr (col_Name c), ArgStr parameterType])
                  else
                    and_then (case qv_structType arg of
                        None \<Rightarrow> Inr (structName (col_Name c) opts)
                      | Some s \<Rightarrow>
                          (case gs_fields s of
                             [f] \<Rightarrow> Inr (gf_name f)
                           | fs \<Rightarrow> Inl (Errorf ''query %s grouped :many expected one generated SQL parameter field, got %d''
                                      [ArgStr (sq_Name q), ArgNat (length fs)]))) (\<lambda>parameterField.
                    and_then (groupedManyResultKey inflect (sq_Name q) ret (col_Name c) elementType)
                      (\<lambda>(resultKeyField, lookupDBName, resultIsStruct, access).
                    Inr (Some \<lparr>gm_parameterDBName = col_Name c, gm_parameterField = parameterField,
                       gm_lookupDBName = lookupDBName,
                       gm_lookupField = (if resultIsStruct then resultKeyField else structName lookupDBName opts),
                       gm_lookupExpression = [], gm_elementType = elementType,
                       gm_resultKeyField = resultKeyField, gm_resultIsStruct = resultIsStruct,
                       gm_resultKeyAccess = access, gm_itemIsPointer = False\<rparr>)))
      | _ \<Rightarrow> Inr None)"

section \<open>Operands of a route\<close>

definition routeMethodName :: "string \<Rightarrow> options \<Rightarrow> string" where
  "routeMethodName nm opts =
     (if rename_of opts nm \<noteq> [] then rename_of opts nm
      else concat (map (\<lambda>part.
          if EqualFold part ''p2p'' then ''P2P''
          else if list_ex is_upper part then title part
          else structName part opts) (splitIdentifier nm)))"

definition field_operand :: "queryValue \<Rightarrow> string \<Rightarrow> goField \<Rightarrow> routeOperand" where
  "field_operand arg dbName f =
     \<lparr>ro_name = escape (lowerTitle (gf_name f)), ro_typ = gf_typ f,
      ro_expression = (if qv_emit arg then escape (qv_name arg) @ ''.'' @ gf_name f
                       else escape (lowerTitle (gf_name f))),
      ro_dbName = dbName, ro_fieldName = gf_name f, ro_external = False\<rparr>"

definition routeOperandForArg :: "queryValue \<Rightarrow> string \<Rightarrow> options \<Rightarrow> routeOperand option" where
  "routeOperandForArg arg dbName opts =
     (case qv_structType arg of
        Some s \<Rightarrow> map_option (field_operand arg dbName) (List.find (\<lambda>f. gf_dbName f = dbName) (gs_fields s))
      | None \<Rightarrow>
          if qv_dbName arg \<noteq> dbName then None
          else let fieldName = structName dbName opts
               in Some \<lparr>ro_name = escape (lowerTitle fieldName), ro_typ = qv_typ arg,
                        ro_expression = escape (qv_name arg), ro_dbName = dbName,
                        ro_fieldName = fieldName, ro_external = False\<rparr>)"

definition modelsForTables :: "sql_identifier list \<Rightarrow> goStruct list \<Rightarrow> string \<Rightarrow> goStruct list" where
  "modelsForTables tables structs defaultSchema =
     filter (\<lambda>model. list_ex (\<lambda>t. sameTableName (Some t) (gs_table model) defaultSchema) tables) structs"

definition nonempty_group :: "'a list \<Rightarrow> 'a list list" where
  "nonempty_group models = (if models = [] then [] else [models])"

definition relatedQueryModelGroups :: "sql_query \<Rightarrow> goStruct list \<Rightarrow> string \<Rightarrow> goStruct list list" where
  "relatedQueryModelGroups q structs defaultSchema =
     (case sq_InsertIntoTable q of None \<Rightarrow> [] | Some t \<Rightarrow> [modelsForTables [t] structs defaultSchema])
     @ nonempty_group (modelsForTables (List.map_filter col_Table (sq_Columns q)) structs defaultSchema)
     @ nonempty_group (modelsForTables (queryRelationIdentifiers (sq_Text q)) structs defaultSchema)
     @ nonempty_group (modelsForTables (List.map_filter (\<lambda>p. col_Table (par_Column p)) (sq_Params q))
         structs defaultSchema)"

text \<open>The loop over the fields of the models of one group; the state is the field matched last.\<close>

fun match_fields ::
  "string \<Rightarrow> string \<Rightarrow> (goField \<times> string) option \<Rightarrow> (string \<times> goField) list \<Rightarrow> (goField \<times> string) option result" where
  "match_fields queryName dbName matched [] = Inr matched"
| "match_fields queryName dbName matched ((model, f) # rest) =
     (if gf_dbName f \<noteq> dbName then match_fields queryName dbName matched rest
      else case matched of
             Some (m, previous) \<Rightarrow>
               if gf_name m \<noteq> gf_name f \<or> gf_typ m \<noteq> gf_typ f then
                 Inl (Errorf ''query %s shard operand %q matches incompatible fields on generated models %s and %s''
                        [ArgStr queryName, ArgStr dbName, ArgStr previous, ArgStr model])
               else match_fields queryName dbName (Some (f, model)) rest
           | None \<Rightarrow> match_fields queryName dbName (Some (f, model)) rest)"

definition model_fields :: "goStruct list \<Rightarrow> (string \<times> goField) list" where
  "model_fields models = concat (map (\<lambda>m. map (Pair (gs_name m)) (gs_fields m)) models)"

fun match_groups :: "string \<Rightarrow> string \<Rightarrow> goStruct list list \<Rightarrow> goField result" where
  "match_groups queryName dbName [] =
     Inl (Errorf ''query %s shard operand %q does not match a SQL parameter or a field on its generated table model''
            [ArgStr queryName, ArgStr dbName])"
| "match_groups queryName dbName (models # groups) =
     and_then (match_fields queryName dbName None (model_fields models)) (\<lambda>matched.
       case matched of Some (f, _) \<Rightarrow> Inr f | None \<Rightarrow> match_groups queryName dbName groups)"

definition routeOperandFieldFromModels :: "sql_query \<Rightarrow> string \<Rightarrow> goStruct list \<Rightarrow> string \<Rightarrow> goField result" where
  "routeOperandFieldFromModels q dbName structs defaultSchema =
     match_groups (sq_Name q) dbName (relatedQueryModelGroups q structs defaultSchema @ [structs])"

definition resolve_operand ::
  "sql_query \<Rightarrow> queryValue \<Rightarrow> groupedManySpec option \<Rightarrow> options \<Rightarrow> goStruct list \<Rightarrow> string \<Rightarrow> string \<Rightarrow> routeOperand result" where
  "resolve_operand q arg grouped opts structs defaultSchema dbName =
     (let viaLookup = (case grouped of
            Some g \<Rightarrow>
              if dbName = gm_lookupDBName g then
                map_option (\<lambda>op. op \<lparr>ro_name := escape (lowerTitle (gm_lookupField g)),
                                       ro_fieldName := gm_lookupField g\<rparr>)
                  (routeOperandForArg arg (gm_parameterDBName g) opts)
              else None
          | None \<Rightarrow> None)
      in case routeOperandForArg arg dbName opts of
           Some op \<Rightarrow> Inr op
         | None \<Rightarrow>
             (case viaLookup of
                Some op \<Rightarrow> Inr op
              | None \<Rightarrow>
                  and_then (routeOperandFieldFromModels q dbName structs defaultSchema) (\<lambda>f.
                    Inr \<lparr>ro_name = escape (lowerTitle (gf_name f)), ro_typ = gf_typ f, ro_expression = [],
                         ro_dbName = dbName, ro_fieldName = gf_name f, ro_external = True\<rparr>)))"

fun resolve_operands ::
  "sql_query \<Rightarrow> queryValue \<Rightarrow> groupedManySpec option \<Rightarrow> options \<Rightarrow> goStruct list \<Rightarrow> string \<Rightarrow>
   string list \<Rightarrow> string list \<Rightarrow> routeOperand list result" where
  "resolve_operands q arg grouped opts structs defaultSchema seen [] = Inr []"
| "resolve_operands q arg grouped opts structs defaultSchema seen (dbName # names) =
     and_then (resolve_operand q arg grouped opts structs defaultSchema dbName) (\<lambda>op.
       if ro_name op \<in> set seen then
         Inl (Errorf ''query %s shard operands generate duplicate Go parameter %q''
                [ArgStr (sq_Name q), ArgStr (ro_name op)])
       else and_then (resolve_operands q arg grouped opts structs defaultSchema (ro_name op # seen) names)
              (\<lambda>ops. Inr (op # ops)))"

definition resolveShardRoute ::
  "sql_query \<Rightarrow> queryValue \<Rightarrow> routeAnnotation \<Rightarrow> groupedManySpec option \<Rightarrow> options \<Rightarrow> goStruct list \<Rightarrow> string \<Rightarrow>
   shardRoute result" where
  "resolveShardRoute q arg annotation grouped opts structs defaultSchema =
     (let methodName = routeMethodName (ra_name annotation) opts
      in and_then (check (methodName = [])
           (Errorf ''query %s shard route %q does not produce a Go method name''
              [ArgStr (sq_Name q), ArgStr (ra_name annotation)])) (\<lambda>_.
         and_then (check (\<not> validRouteIdentifier methodName \<or> \<not> first_upper methodName)
           (Errorf ''query %s shard route %q generates non-exported or invalid resolver method %q''
              [ArgStr (sq_Name q), ArgStr (ra_name annotation), ArgStr methodName])) (\<lambda>_.
         and_then (resolve_operands q arg grouped opts structs defaultSchema [] (ra_operands annotation)) (\<lambda>ops.
         Inr \<lparr>sr_name = ra_name annotation, sr_methodName = methodName, sr_queryName = sq_Name q,
              sr_operands = ops\<rparr>))))"

definition scalarizeGroupedManyRoute :: "groupedManySpec \<Rightarrow> shardRoute \<Rightarrow> shardRoute" where
  "scalarizeGroupedManyRoute spec route =
     route \<lparr>sr_operands := map (\<lambda>op.
       if ro_dbName op = gm_parameterDBName spec \<and> \<not> ro_external op
       then op \<lparr>ro_typ := gm_elementType spec\<rparr> else op) (sr_operands route)\<rparr>"

section \<open>Wrapper structs\<close>

definition routeOperandByDBName :: "shardRoute \<Rightarrow> string \<Rightarrow> routeOperand option" where
  "routeOperandByDBName route dbName = List.find (\<lambda>op. ro_dbName op = dbName) (sr_operands route)"

text \<open>
  The closure \<^verbatim>\<open>appendField\<close>: the fields used so far with their source, and the fields of the
  wrapper.
\<close>

type_synonym wrapper_state = "(string \<rightharpoonup> string) \<times> goField list"

definition appendField ::
  "string \<Rightarrow> string \<Rightarrow> string \<Rightarrow> string \<Rightarrow> string \<Rightarrow> wrapper_state \<Rightarrow> wrapper_state result" where
  "appendField queryName nm dbName typ source st =
     (case st of (used, fs) \<Rightarrow>
        case used nm of
          Some previous \<Rightarrow>
            Inl (Errorf ''query %s shard parameter wrapper field %s conflicts between %s and %s''
                   [ArgStr queryName, ArgStr nm, ArgStr previous, ArgStr source])
        | None \<Rightarrow> Inr (used(nm \<mapsto> source), fs @ [\<lparr>gf_name = nm, gf_dbName = dbName, gf_typ = typ\<rparr>]))"

text \<open>
  The loops over the fields of the parameter struct: a field that is a shard operand is read from
  the shard key, another one becomes a field of the wrapper. The result has one expression per
  field.
\<close>

definition key_expression :: "shardRoute \<Rightarrow> routeOperand \<Rightarrow> string" where
  "key_expression route op = ''arg.'' @ sr_methodName route @ ''.'' @ ro_fieldName op"

fun wrap_fields ::
  "string \<Rightarrow> shardRoute \<Rightarrow> wrapper_state \<Rightarrow> goField list \<Rightarrow> (string list \<times> wrapper_state) result" where
  "wrap_fields queryName route st [] = Inr ([], st)"
| "wrap_fields queryName route st (f # fs) =
     (case routeOperandByDBName route (gf_dbName f) of
        Some op \<Rightarrow>
          and_then (wrap_fields queryName route st fs) (\<lambda>(es, st'). Inr (key_expression route op # es, st'))
      | None \<Rightarrow>
          and_then (appendField queryName (gf_name f) (gf_dbName f) (gf_typ f)
              (''SQL parameter '' @ gf_dbName f) st) (\<lambda>st1.
          and_then (wrap_fields queryName route st1 fs) (\<lambda>(es, st').
            Inr ((''arg.'' @ gf_name f) # es, st'))))"

definition struct_fields :: "queryValue \<Rightarrow> goField list" where
  "struct_fields v = (case qv_structType v of None \<Rightarrow> [] | Some s \<Rightarrow> gs_fields s)"

text \<open>A parameter that is one value: its field name falls back to the argument's name.\<close>

definition wrap_scalar ::
  "string \<Rightarrow> shardRoute \<Rightarrow> queryValue \<Rightarrow> options \<Rightarrow> wrapper_state \<Rightarrow> (string \<times> wrapper_state) result" where
  "wrap_scalar queryName route arg opts st =
     (case routeOperandByDBName route (qv_dbName arg) of
        Some op \<Rightarrow> Inr (key_expression route op, st)
      | None \<Rightarrow>
          let fieldName = structName (qv_dbName arg) opts;
              (fieldName, dbName) = (if fieldName = [] then (structName (qv_name arg) opts, qv_name arg)
                                     else (fieldName, qv_dbName arg))
          in and_then (appendField queryName fieldName dbName (defineType arg opts)
               (''SQL parameter '' @ qv_dbName arg) st) (\<lambda>st'. Inr (''arg.'' @ fieldName, st')))"

text \<open>
  The three ways the code passes the parameters on: rebuilt as the parameter struct, one by one,
  or as one value. The result has the field expressions, the call arguments after the context and
  the state of the wrapper.
\<close>

definition wrap_argument ::
  "string \<Rightarrow> shardRoute \<Rightarrow> queryValue \<Rightarrow> options \<Rightarrow>
   ((string \<times> string) list \<times> string list \<times> wrapper_state) result" where
  "wrap_argument queryName route arg opts =
     (let st = ([sr_methodName route \<mapsto> ''shard key''], [])
      in if value_isEmpty arg then Inr ([], [], st)
         else if qv_emit arg then
           and_then (wrap_fields queryName route st (struct_fields arg)) (\<lambda>(es, st').
             Inr (fold (\<lambda>(n, e). AList.update n e) (zip (map gf_name (struct_fields arg)) es) [],
                  [''arg.sqlcParams()''], st'))
         else if qv_structType arg \<noteq> None then
           and_then (wrap_fields queryName route st (struct_fields arg)) (\<lambda>(es, st'). Inr ([], es, st'))
         else and_then (wrap_scalar queryName route arg opts st) (\<lambda>(e, st'). Inr ([], [e], st')))"

definition wrapShardParameters :: "generatedQuery \<Rightarrow> shardRoute \<Rightarrow> options \<Rightarrow> generatedQuery result" where
  "wrapShardParameters q route opts =
     and_then (wrap_argument (gq_methodName q) route (gq_arg q) opts) (\<lambda>(exprs, args, (_, fs)).
       let wrapper = \<lparr>sw_name = gq_methodName q @ ''T'', sw_shardKeyType = sr_methodName route,
             sw_fields = fs, sw_sqlcArg = (if qv_emit (gq_arg q) \<and> \<not> value_isEmpty (gq_arg q)
                                           then gq_arg q else zero_value),
             sw_sqlcFieldExpressions = exprs\<rparr>;
           typ = sw_name wrapper;
           typ = (if EmitParamsStructPointers opts then ''*'' @ typ else typ);
           typ = (if gq_shardMode q = shardModeGroupedCopy then ''[]'' @ typ else typ)
       in Inr (q \<lparr>gq_route := Some (route \<lparr>sr_operands :=
                     map (\<lambda>op. op \<lparr>ro_expression := key_expression route op\<rparr>) (sr_operands route)\<rparr>),
                  gq_storeParams := [hd (gq_params q), \<lparr>arg_name = ''arg'', arg_typ = typ\<rparr>],
                  gq_callArgs := arg_name (hd (gq_params q)) # args,
                  gq_shardArgs := Some wrapper\<rparr>))"

definition wrapGroupedManyShardOperands ::
  "generatedQuery \<Rightarrow> shardRoute \<Rightarrow> groupedManySpec \<Rightarrow> options \<Rightarrow> generatedQuery result" where
  "wrapGroupedManyShardOperands q route spec opts =
     (let st = ([sr_methodName route \<mapsto> ''shard key''], [])
      in and_then
           (case routeOperandByDBName route (gm_parameterDBName spec) of
              Some op \<Rightarrow> Inr (''item.'' @ sr_methodName route @ ''.'' @ ro_fieldName op, st)
            | None \<Rightarrow>
                and_then (appendField (gq_methodName q) (gm_lookupField spec) (gm_lookupDBName spec)
                    (gm_elementType spec) (''SQL list parameter '' @ gm_parameterDBName spec) st)
                  (\<lambda>st'. Inr (''item.'' @ gm_lookupField spec, st')))
           (\<lambda>(expression, (_, fs)).
              let typ = gq_methodName q @ ''T'';
                  typ = (if EmitParamsStructPointers opts then ''*'' @ typ else typ)
              in Inr (q \<lparr>gq_groupedMany := Some (spec \<lparr>gm_lookupExpression := expression,
                            gm_itemIsPointer := gm_itemIsPointer spec \<or> EmitParamsStructPointers opts\<rparr>),
                         gq_storeParams := [hd (gq_params q), \<lparr>arg_name = ''arg'', arg_typ = ''[]'' @ typ\<rparr>],
                         gq_shardArgs := Some \<lparr>sw_name = gq_methodName q @ ''T'',
                            sw_shardKeyType = sr_methodName route, sw_fields = fs,
                            sw_sqlcArg = zero_value, sw_sqlcFieldExpressions = []\<rparr>\<rparr>)))"

definition wrap_query :: "options \<Rightarrow> generatedQuery \<Rightarrow> generatedQuery result" where
  "wrap_query opts q =
     (case gq_route q of
        None \<Rightarrow> Inr q
      | Some route \<Rightarrow>
          (case (gq_shardMode q, gq_groupedMany q) of
             (shardModeGroupedMany, Some spec) \<Rightarrow> wrapGroupedManyShardOperands q route spec opts
           | (shardModeGroupedMany, None) \<Rightarrow> Inr q
           | _ \<Rightarrow> wrapShardParameters q route opts))"

fun wrapRoutedQueryParameters :: "options \<Rightarrow> generatedQuery list \<Rightarrow> generatedQuery list result" where
  "wrapRoutedQueryParameters opts [] = Inr []"
| "wrapRoutedQueryParameters opts (q # qs) =
     and_then (wrap_query opts q) (\<lambda>q'.
     and_then (wrapRoutedQueryParameters opts qs) (\<lambda>qs'. Inr (q' # qs')))"

definition exportedSQLCType :: "options \<Rightarrow> string \<Rightarrow> string" where
  "exportedSQLCType opts typ =
     (if \<not> ExportSQLCTypes opts then typ else ReplaceAll typ (internalQualifier opts @ ''.'') [])"

definition alias_query :: "options \<Rightarrow> generatedQuery \<Rightarrow> generatedQuery" where
  "alias_query opts q =
     (case qv_structType (gq_arg q) of
        None \<Rightarrow> q
      | Some s \<Rightarrow>
          if gq_store q = [] \<or> gq_shardArgs q \<noteq> None \<or> \<not> qv_emit (gq_arg q) then q
          else
            let sqlcType = targetName opts (gs_name s);
                aliasName = gq_methodName q @ ''T'';
                params = map (\<lambda>p. p \<lparr>arg_typ := ReplaceAll (arg_typ p) sqlcType aliasName\<rparr>) (gq_storeParams q)
            in if map arg_typ params = map arg_typ (gq_storeParams q) then q
               else q \<lparr>gq_storeParams := params,
                       gq_storeParamAlias := Some \<lparr>pa_name = aliasName, pa_target = exportedSQLCType opts sqlcType\<rparr>\<rparr>)"

definition aliasSQLCParamsForStore :: "options \<Rightarrow> generatedQuery list \<Rightarrow> generatedQuery list" where
  "aliasSQLCParamsForStore opts qs = map (alias_query opts) qs"

section \<open>All queries\<close>

definition argumentNames :: "argument list \<Rightarrow> string list" where
  "argumentNames params = map arg_name params"

definition build_route ::
  "(string \<Rightarrow> string) \<Rightarrow> sql_query \<Rightarrow> catalog \<Rightarrow> options \<Rightarrow> goStruct list \<Rightarrow> queryValue \<Rightarrow> queryValue \<Rightarrow> string list \<Rightarrow>
   routeAnnotation \<Rightarrow> (shardMode \<times> shardRoute option \<times> groupedManySpec option) result" where
  "build_route inflect q cat opts structs arg ret results annotation =
     (if ra_name annotation = ''all'' then
        and_then (check (ra_operands annotation \<noteq> [])
          (Errorf ''query %s shard route %q cannot declare operands'' [ArgStr (sq_Name q), ArgStr ''all''])) (\<lambda>_.
        if sq_Cmd q \<in> {'':many'', '':exec'', '':execrows''} then Inr (shardModeAll, None, None)
        else Inl (Errorf ''query %s uses shard: all() with unsupported command %s; expected :many, :exec, or :execrows''
                    [ArgStr (sq_Name q), ArgStr (sq_Cmd q)]))
      else if HasPrefix (sq_Cmd q) '':batch'' then
        Inl (Errorf ''query %s uses %s and cannot declare shard metadata; grouped routing is supported only for :copyfrom''
               [ArgStr (sq_Name q), ArgStr (sq_Cmd q)])
      else
        and_then (if sq_Cmd q = '':many'' then buildGroupedManySpec inflect q arg ret cat opts else Inr None)
          (\<lambda>grouped.
        and_then (resolveShardRoute q arg annotation grouped opts structs (cat_DefaultSchema cat)) (\<lambda>route.
        and_then (check (\<not> lastResultIsError results)
          (Errorf ''query %s cannot be shard-routed because its generated result has no error'' [ArgStr (sq_Name q)])) (\<lambda>_.
        Inr (case grouped of
               Some spec \<Rightarrow> (shardModeGroupedMany, Some (scalarizeGroupedManyRoute spec route), Some spec)
             | None \<Rightarrow> (if sq_Cmd q = '':copyfrom'' then shardModeGroupedCopy else shardModeRouted,
                        Some route, None))))))"

definition query_params :: "sql_query \<Rightarrow> queryValue \<Rightarrow> options \<Rightarrow> argument list" where
  "query_params q arg opts =
     \<lparr>arg_name = ''ctx'', arg_typ = ''context.Context''\<rparr> #
       (if sq_Cmd q = '':copyfrom'' \<or> HasPrefix (sq_Cmd q) '':batch''
        then (if value_isEmpty arg then [] else [slicePair arg opts])
        else value_pairs arg opts)"

definition build_query ::
  "(string \<Rightarrow> string) \<Rightarrow> catalog \<Rightarrow> options \<Rightarrow> goStruct list \<Rightarrow> import_set \<Rightarrow> sql_query \<Rightarrow>
   (generatedQuery \<times> import_set) result" where
  "build_query inflect cat opts structs imps q =
     and_then (buildQueryArg q cat opts) (\<lambda>arg.
     and_then (buildQueryReturn q cat opts structs) (\<lambda>ret.
     let params = query_params q arg opts
     in and_then (resultTypes q ret opts) (\<lambda>results.
     let imps' = fold (addImportsForType opts) (results @ map arg_typ params) imps
     in and_then (classifyQuery q) (\<lambda>(kind, annotation, store).
     and_then (case annotation of
         None \<Rightarrow> Inr (shardModeNone, None, None)
       | Some a \<Rightarrow> build_route inflect q cat opts structs arg ret results a) (\<lambda>(mode, route, grouped).
     Inr (\<lparr>gq_methodName = sq_Name q, gq_command = sq_Cmd q, gq_kind = kind, gq_arg = arg, gq_ret = ret,
          gq_params = params, gq_storeParams = params, gq_callArgs = argumentNames params,
          gq_results = results, gq_route = route, gq_shardMode = mode, gq_store = store,
          gq_storeParamAlias = None, gq_shardArgs = None, gq_groupedMany = grouped\<rparr>, imps'))))))"

definition build_step_query ::
  "(string \<Rightarrow> string) \<Rightarrow> catalog \<Rightarrow> options \<Rightarrow> goStruct list \<Rightarrow> generatedQuery list \<times> import_set \<Rightarrow> sql_query \<Rightarrow>
   (generatedQuery list \<times> import_set) result" where
  "build_step_query inflect cat opts structs st q =
     (if sq_Name q = [] \<or> sq_Cmd q = [] then Inr st
      else and_then (build_query inflect cat opts structs (snd st) q)
             (\<lambda>(g, imps). Inr (fst st @ [g], imps)))"

definition buildQueries ::
  "(string \<Rightarrow> string) \<Rightarrow> sql_query list \<Rightarrow> catalog \<Rightarrow> options \<Rightarrow> goStruct list \<Rightarrow> import_set \<Rightarrow>
   (generatedQuery list \<times> import_set) result" where
  "buildQueries inflect queries cat opts structs imps =
     and_then (foldM (build_step_query inflect cat opts structs) ([], imps) queries) (\<lambda>(out, imps').
     and_then (wrapRoutedQueryParameters opts out) (\<lambda>wrapped.
     Inr (sort_key gq_methodName (aliasSQLCParamsForStore opts wrapped), imps')))"

definition query_imports :: "options \<Rightarrow> generatedQuery \<Rightarrow> import_set \<Rightarrow> import_set" where
  "query_imports opts q imps =
     fold (addImportsForType opts)
       ((case gq_route q of None \<Rightarrow> [] | Some r \<Rightarrow> map ro_typ (sr_operands r))
        @ (case gq_shardArgs q of None \<Rightarrow> [] | Some w \<Rightarrow> map gf_typ (sw_fields w))) imps"

definition querySpecs ::
  "(string \<Rightarrow> string) \<Rightarrow> request \<Rightarrow> options \<Rightarrow> (generatedQuery list \<times> import_set) result" where
  "querySpecs inflect req opts =
     and_then (buildQueries inflect (req_Queries req) (req_Catalog req) opts
         (buildStructs inflect (req_Catalog req) opts) []) (\<lambda>(queries, imps).
     Inr (queries, fold (query_imports opts) queries imps))"

section \<open>Operands come from the parameters\<close>

lemma find_SomeD: "List.find P xs = Some x \<Longrightarrow> x \<in> set xs \<and> P x"
  by (metis find_Some_iff nth_mem)

lemma find_exists: "x \<in> set xs \<Longrightarrow> P x \<Longrightarrow> \<exists>y. List.find P xs = Some y"
  by (metis find_None_iff not_None_eq)

text \<open>The operand of a parameter is made from the first field with its column name.\<close>

definition operand_of_arg :: "queryValue \<Rightarrow> options \<Rightarrow> routeOperand \<Rightarrow> bool" where
  "operand_of_arg arg opts op \<longleftrightarrow>
     (case routeOperandForArg arg (ro_dbName op) opts of Some o2 \<Rightarrow> op = o2 | None \<Rightarrow> ro_external op)"

lemma routeOperandForArg_dbName:
  "routeOperandForArg arg n opts = Some op \<Longrightarrow> ro_dbName op = n"
  by (auto simp: routeOperandForArg_def field_operand_def Let_def split: option.splits if_splits)

lemma resolve_operand_arg:
  "resolve_operand q arg None opts structs ds n = Inr op \<Longrightarrow> operand_of_arg arg opts op \<and> ro_dbName op = n"
proof (cases "routeOperandForArg arg n opts")
  case (Some o2)
  assume "resolve_operand q arg None opts structs ds n = Inr op"
  then have "op = o2" using Some by (simp add: resolve_operand_def)
  then show ?thesis using Some routeOperandForArg_dbName [OF Some] by (simp add: operand_of_arg_def)
next
  case None
  assume "resolve_operand q arg None opts structs ds n = Inr op"
  then have "ro_external op" "ro_dbName op = n" using None by (auto simp: resolve_operand_def result_simps)
  then show ?thesis using None by (simp add: operand_of_arg_def)
qed

lemma resolve_operands_arg:
  "resolve_operands q arg None opts structs ds seen ns = Inr ops \<Longrightarrow>
    list_all (operand_of_arg arg opts) ops \<and> map ro_dbName ops = ns \<and> distinct (map ro_name ops)
    \<and> set (map ro_name ops) \<inter> set seen = {}"
proof (induction ns arbitrary: seen ops)
  case (Cons n ns)
  then obtain op ops' where ops: "ops = op # ops'" "ro_name op \<notin> set seen"
      and op: "resolve_operand q arg None opts structs ds n = Inr op"
      and rest: "resolve_operands q arg None opts structs ds (ro_name op # seen) ns = Inr ops'"
    by (auto simp: result_simps split: if_splits)
  show ?case using Cons.IH [OF rest] resolve_operand_arg [OF op] ops by auto
qed simp

lemma resolveShardRoute_operands:
  assumes "resolveShardRoute q arg a None opts structs ds = Inr route"
  shows "list_all (operand_of_arg arg opts) (sr_operands route)
    \<and> map ro_dbName (sr_operands route) = ra_operands a \<and> distinct (map ro_name (sr_operands route))
    \<and> validRouteIdentifier (sr_methodName route) \<and> first_upper (sr_methodName route)"
  using assms resolve_operands_arg
  by (fastforce simp: resolveShardRoute_def Let_def result_simps)

lemma operand_of_field:
  assumes "operand_of_arg arg opts op" and "qv_structType arg = Some s" and "f \<in> set (gs_fields s)"
    and "gf_dbName f = ro_dbName op" and "distinct (map gf_dbName (gs_fields s))"
  shows "ro_fieldName op = gf_name f \<and> ro_typ op = gf_typ f \<and> \<not> ro_external op"
proof -
  obtain g where g: "List.find (\<lambda>h. gf_dbName h = ro_dbName op) (gs_fields s) = Some g"
    using find_exists [of f "gs_fields s" "\<lambda>h. gf_dbName h = ro_dbName op"] assms(3,4) by auto
  then have "g \<in> set (gs_fields s)" "gf_dbName g = ro_dbName op" by (auto dest: find_SomeD)
  then have "g = f" using assms(3,4,5) by (metis distinct_map inj_on_def)
  moreover have "op = field_operand arg (ro_dbName op) g"
    using assms(1,2) g by (simp add: operand_of_arg_def routeOperandForArg_def)
  then have "ro_fieldName op = gf_name g" "ro_typ op = gf_typ g" "\<not> ro_external op"
    by (metis field_operand_def routeOperand.select_convs)+
  ultimately show ?thesis by simp
qed

section \<open>The wrapper carries every parameter\<close>

text \<open>The members of a wrapper: the fields of its shard key and its own fields, with their types.\<close>

definition wrapper_members :: "shardRoute \<Rightarrow> goField list \<Rightarrow> (string \<times> string) list" where
  "wrapper_members route fs =
     map (\<lambda>op. (key_expression route op, ro_typ op)) (sr_operands route)
     @ map (\<lambda>f. (''arg.'' @ gf_name f, gf_typ f)) fs"

definition wrapper_state_ok :: "wrapper_state \<Rightarrow> bool" where
  "wrapper_state_ok st \<longleftrightarrow> distinct (map gf_name (snd st)) \<and> set (map gf_name (snd st)) \<subseteq> dom (fst st)"

lemma appendField_ok:
  assumes "appendField qn nm db typ src st = Inr st'" and "wrapper_state_ok st"
  shows "wrapper_state_ok st' \<and> snd st' = snd st @ [\<lparr>gf_name = nm, gf_dbName = db, gf_typ = typ\<rparr>]
    \<and> nm \<notin> dom (fst st) \<and> dom (fst st') = insert nm (dom (fst st))"
proof -
  obtain used fs where st: "st = (used, fs)" by fastforce
  with assms(1) have new: "used nm = None"
    and st': "st' = (used(nm \<mapsto> src), fs @ [\<lparr>gf_name = nm, gf_dbName = db, gf_typ = typ\<rparr>])"
    by (auto simp: appendField_def split: option.splits)
  then have "nm \<notin> dom used" by (simp add: domIff)
  with assms(2) st show ?thesis unfolding st' wrapper_state_ok_def by auto
qed

text \<open>What the loop over the fields of the parameter struct computes.\<close>

definition field_expression :: "shardRoute \<Rightarrow> goField \<Rightarrow> string" where
  "field_expression route f =
     (case routeOperandByDBName route (gf_dbName f) of
        Some op \<Rightarrow> key_expression route op | None \<Rightarrow> ''arg.'' @ gf_name f)"

lemma wrap_fields_ok:
  assumes "wrap_fields qn route st fs = Inr (es, st')" and "wrapper_state_ok st"
  shows "es = map (field_expression route) fs \<and> wrapper_state_ok st'
    \<and> snd st' = snd st @ map (\<lambda>f. \<lparr>gf_name = gf_name f, gf_dbName = gf_dbName f, gf_typ = gf_typ f\<rparr>)
        (filter (\<lambda>f. routeOperandByDBName route (gf_dbName f) = None) fs)
    \<and> (\<forall>f \<in> set fs. routeOperandByDBName route (gf_dbName f) = None \<longrightarrow> gf_name f \<notin> dom (fst st))"
  using assms
proof (induction fs arbitrary: st es)
  case Nil
  then show ?case by simp
next
  case (Cons f fs)
  show ?case
  proof (cases "routeOperandByDBName route (gf_dbName f)")
    case (Some op)
    then obtain es' where rest: "wrap_fields qn route st fs = Inr (es', st')"
      and es: "es = key_expression route op # es'"
      using Cons.prems(1) by (auto simp: result_simps)
    show ?thesis using Cons.IH [OF rest Cons.prems(2)] Some es by (simp add: field_expression_def)
  next
    case None
    then obtain st1 es' where app: "appendField qn (gf_name f) (gf_dbName f) (gf_typ f)
          (''SQL parameter '' @ gf_dbName f) st = Inr st1"
      and rest: "wrap_fields qn route st1 fs = Inr (es', st')" and es: "es = (''arg.'' @ gf_name f) # es'"
      using Cons.prems(1) by (auto simp: result_simps)
    note a = appendField_ok [OF app Cons.prems(2)]
    show ?thesis using Cons.IH [OF rest] a None es by (auto simp: field_expression_def)
  qed
qed

lemma map_of_fold_update:
  assumes "distinct ns" and "length ns = length es" and "set ns \<inter> fst ` set al = {}"
  shows "map_of (fold (\<lambda>(n, e). AList.update n e) (zip ns es) al) = map_of al ++ map_of (zip ns es)"
  using assms
proof (induction ns arbitrary: es al)
  case (Cons n ns)
  then obtain e es' where es: "es = e # es'" by (cases es) auto
  have "fst ` set (AList.update n e al) = insert n (fst ` set al)"
    by (simp add: dom_update)
  then have "map_of (fold (\<lambda>(n, e). AList.update n e) (zip ns es') (AList.update n e al))
      = map_of (AList.update n e al) ++ map_of (zip ns es')"
    using Cons.prems es by (intro Cons.IH) auto
  moreover have "n \<notin> dom (map_of (zip ns es'))" using Cons.prems es by (auto simp: dom_map_of_zip)
  ultimately show ?case
    using es by (auto simp: update_conv' map_add_def fun_eq_iff split: option.split)
qed simp

lemma wrap_emitted:
  assumes wrap: "wrapShardParameters g route opts = Inr g'"
    and arg: "qv_emit (gq_arg g)" "qv_structType (gq_arg g) = Some s"
    and names: "distinct (map gf_name (gs_fields s))"
  obtains w where "gq_shardArgs g' = Some w" "sw_shardKeyType w = sr_methodName route"
    "distinct (sr_methodName route # map gf_name (sw_fields w))"
    "map_of (sw_sqlcFieldExpressions w) = map_of (map (\<lambda>f. (gf_name f, field_expression route f)) (gs_fields s))"
    "\<forall>f \<in> set (gs_fields s). routeOperandByDBName route (gf_dbName f) = None \<longrightarrow>
       (''arg.'' @ gf_name f, gf_typ f) \<in> set (wrapper_members route (sw_fields w))"
proof -
  let ?st = "([sr_methodName route \<mapsto> ''shard key''], []) :: wrapper_state"
  have ok: "wrapper_state_ok ?st" by (simp add: wrapper_state_ok_def)
  have fs: "struct_fields (gq_arg g) = gs_fields s" using arg by (simp add: struct_fields_def)
  have ne: "\<not> value_isEmpty (gq_arg g)" using arg by (simp add: value_isEmpty_def)
  obtain es used fields where run: "wrap_fields (gq_methodName g) route ?st (gs_fields s) = Inr (es, used, fields)"
    using wrap arg ne fs by (auto simp: wrapShardParameters_def wrap_argument_def result_simps Let_def)
  note r = wrap_fields_ok [OF run ok]
  have fields: "fields = map (\<lambda>f. \<lparr>gf_name = gf_name f, gf_dbName = gf_dbName f, gf_typ = gf_typ f\<rparr>)
      (filter (\<lambda>f. routeOperandByDBName route (gf_dbName f) = None) (gs_fields s))"
    using r by simp
  define w where "w = the (gq_shardArgs g')"
  have w: "gq_shardArgs g' = Some w" "sw_shardKeyType w = sr_methodName route" "sw_fields w = fields"
      "sw_sqlcFieldExpressions w
        = fold (\<lambda>(n, e). AList.update n e) (zip (map gf_name (gs_fields s)) es) []"
    using wrap arg ne fs run
    by (auto simp: wrapShardParameters_def wrap_argument_def result_simps Let_def w_def)
  show thesis
  proof (rule that)
    show "gq_shardArgs g' = Some w" "sw_shardKeyType w = sr_methodName route" using w by auto
    have "sr_methodName route \<notin> set (map gf_name fields)" using r unfolding fields by auto
    moreover have "distinct (map gf_name fields)" using r unfolding wrapper_state_ok_def snd_conv by blast
    ultimately show "distinct (sr_methodName route # map gf_name (sw_fields w))" unfolding w(3) by simp
    have "zip (map gf_name (gs_fields s)) es = map (\<lambda>f. (gf_name f, field_expression route f)) (gs_fields s)"
      using r by (simp add: zip_map_map zip_same_conv_map)
    then show "map_of (sw_sqlcFieldExpressions w)
        = map_of (map (\<lambda>f. (gf_name f, field_expression route f)) (gs_fields s))"
      using map_of_fold_update [OF names, of es "[]"] r w by simp
    show "\<forall>f \<in> set (gs_fields s). routeOperandByDBName route (gf_dbName f) = None \<longrightarrow>
       (''arg.'' @ gf_name f, gf_typ f) \<in> set (wrapper_members route (sw_fields w))"
      unfolding w(3) fields wrapper_members_def by force
  qed
qed

lemma operand_by_dbName:
  "routeOperandByDBName route n = Some op \<Longrightarrow> op \<in> set (sr_operands route) \<and> ro_dbName op = n"
  unfolding routeOperandByDBName_def by (auto dest: find_SomeD)

lemma field_expression_typed:
  assumes ops: "list_all (operand_of_arg arg opts) (sr_operands route)" and s: "qv_structType arg = Some s"
    and f: "f \<in> set (gs_fields s)" and db: "distinct (map gf_dbName (gs_fields s))"
    and own: "routeOperandByDBName route (gf_dbName f) = None \<Longrightarrow>
      (''arg.'' @ gf_name f, gf_typ f) \<in> set (wrapper_members route fs)"
  shows "(field_expression route f, gf_typ f) \<in> set (wrapper_members route fs)
    \<and> field_expression route f \<in>
        {''arg.'' @ gf_name f, ''arg.'' @ sr_methodName route @ ''.'' @ gf_name f}"
proof (cases "routeOperandByDBName route (gf_dbName f)")
  case None
  then show ?thesis using own by (simp add: field_expression_def)
next
  case (Some op)
  then have op: "op \<in> set (sr_operands route)" "gf_dbName f = ro_dbName op"
    using operand_by_dbName [OF Some] by auto
  then have "operand_of_arg arg opts op" using ops by (simp add: list_all_iff)
  from operand_of_field [OF this s f op(2) db]
  have "ro_fieldName op = gf_name f" "ro_typ op = gf_typ f" by auto
  then show ?thesis using Some op(1) by (force simp: field_expression_def key_expression_def wrapper_members_def)
qed

lemma identifier_no_dot: "validRouteIdentifier s \<Longrightarrow> CHR ''.'' \<notin> set s"
  by (rule identifier_chars) (simp_all add: ident_char_def char_class_defs)

text \<open>
  C37: the parameters of a routed query reach the SQL query. For a query that is no grouped lookup and
  whose parameters are passed as a generated struct, when that struct has distinct field names that
  are Go identifiers and its columns have distinct names, the wrapper struct generated for the query
  has distinct members, the code that rebuilds the parameter struct reads each field from an existing
  member of the wrapper or of its shard key, with exactly the type of the field, and no two fields are
  read from the same member. The condition on the columns is needed: the next theorem shows what
  happens without it.
\<close>

theorem routed_parameters_typed:
  assumes route: "resolveShardRoute q (gq_arg g) annotation None opts structs defaultSchema = Inr route"
    and arg: "qv_emit (gq_arg g)" "qv_structType (gq_arg g) = Some s"
    and names: "distinct (map gf_name (gs_fields s))" "distinct (map gf_dbName (gs_fields s))"
    and idents: "\<forall>f \<in> set (gs_fields s). validRouteIdentifier (gf_name f)"
    and wrap: "wrapShardParameters g route opts = Inr g'"
  shows "\<exists>w. gq_shardArgs g' = Some w
    \<and> distinct (sw_shardKeyType w # map gf_name (sw_fields w))
    \<and> (\<forall>f \<in> set (gs_fields s). \<exists>e. map_of (sw_sqlcFieldExpressions w) (gf_name f) = Some e
         \<and> (e, gf_typ f) \<in> set (wrapper_members route (sw_fields w)))
    \<and> inj_on (\<lambda>f. map_of (sw_sqlcFieldExpressions w) (gf_name f)) (set (gs_fields s))"
proof -
  note ops = resolveShardRoute_operands [OF route]
  obtain w where w: "gq_shardArgs g' = Some w"
    "sw_shardKeyType w = sr_methodName route" "distinct (sr_methodName route # map gf_name (sw_fields w))"
    "map_of (sw_sqlcFieldExpressions w) = map_of (map (\<lambda>f. (gf_name f, field_expression route f)) (gs_fields s))"
    "\<forall>f \<in> set (gs_fields s). routeOperandByDBName route (gf_dbName f) = None \<longrightarrow>
       (''arg.'' @ gf_name f, gf_typ f) \<in> set (wrapper_members route (sw_fields w))"
    by (rule wrap_emitted [OF wrap arg names(1)])
  have e: "map_of (sw_sqlcFieldExpressions w) (gf_name f) = Some (field_expression route f)"
    if "f \<in> set (gs_fields s)" for f
    using that names(1) unfolding w(4) by (intro map_of_is_SomeI) (auto simp: comp_def)
  have typed: "(field_expression route f, gf_typ f) \<in> set (wrapper_members route (sw_fields w))
      \<and> field_expression route f \<in>
          {''arg.'' @ gf_name f, ''arg.'' @ sr_methodName route @ ''.'' @ gf_name f}"
    if "f \<in> set (gs_fields s)" for f
    using field_expression_typed [OF conjunct1 [OF ops] arg(2) that names(2)] w(5) that by blast
  have dots: "CHR ''.'' \<notin> set (gf_name f)" if "f \<in> set (gs_fields s)" for f
    using idents that identifier_no_dot by blast
  have "inj_on (\<lambda>f. map_of (sw_sqlcFieldExpressions w) (gf_name f)) (set (gs_fields s))"
  proof (rule inj_onI)
    fix f h
    assume fh: "f \<in> set (gs_fields s)" "h \<in> set (gs_fields s)"
      "map_of (sw_sqlcFieldExpressions w) (gf_name f) = map_of (sw_sqlcFieldExpressions w) (gf_name h)"
    then have "field_expression route f = field_expression route h" using e by simp
    moreover have "gf_name f \<noteq> sr_methodName route @ ''.'' @ gf_name h"
      "gf_name h \<noteq> sr_methodName route @ ''.'' @ gf_name f"
      using dots [OF fh(1)] dots [OF fh(2)] by auto
    ultimately have "gf_name f = gf_name h" using typed [OF fh(1)] typed [OF fh(2)] by auto
    moreover have "inj_on gf_name (set (gs_fields s))" using names(1) by (simp add: distinct_map)
    ultimately show "f = h" using fh(1,2) by (simp add: inj_on_eq_iff)
  qed
  then show ?thesis using w(1,2,3) e typed by (intro exI [of _ w]) simp
qed

text \<open>
  C38: two parameters of one column. When two fields of the parameter struct stem from parameters
  with the same column name and that column is a shard operand, the generated code reads both from
  the same member of the shard key: the caller has no way to give them different values.
\<close>

theorem same_column_parameters_merged:
  assumes "wrapShardParameters g route opts = Inr g'"
    and "qv_emit (gq_arg g)" and "qv_structType (gq_arg g) = Some s"
    and "distinct (map gf_name (gs_fields s))"
    and "f \<in> set (gs_fields s)" and "h \<in> set (gs_fields s)" and "f \<noteq> h" and "gf_dbName f = gf_dbName h"
    and "routeOperandByDBName route (gf_dbName f) = Some op"
  shows "\<exists>w. gq_shardArgs g' = Some w
    \<and> map_of (sw_sqlcFieldExpressions w) (gf_name f) = Some (key_expression route op)
    \<and> map_of (sw_sqlcFieldExpressions w) (gf_name h) = Some (key_expression route op)"
proof -
  obtain w where w: "gq_shardArgs g' = Some w"
    "map_of (sw_sqlcFieldExpressions w) = map_of (map (\<lambda>f. (gf_name f, field_expression route f)) (gs_fields s))"
    using wrap_emitted [OF assms(1-4)] .
  have "map_of (sw_sqlcFieldExpressions w) (gf_name k) = Some (field_expression route k)"
    if "k \<in> set (gs_fields s)" for k
    using that assms(4) unfolding w(2) by (intro map_of_is_SomeI) (auto simp: comp_def)
  then show ?thesis using w(1) assms(5-9) by (simp add: field_expression_def)
qed

section \<open>Instances\<close>

text \<open>A write whose parameters have the given field and column names, routed by the tenant.\<close>

definition sample_annotation :: routeAnnotation where
  "sample_annotation = \<lparr>ra_name = ''tenant'', ra_operands = [''tenant_id'']\<rparr>"

definition sample_write :: sql_query where
  "sample_write = \<lparr>sq_Name = ''MoveAccount'', sq_Cmd = '':exec'', sq_Text = [], sq_Comments = [],
     sq_Columns = [], sq_Params = [], sq_InsertIntoTable = None\<rparr>"

definition sample_struct :: "(string \<times> string) list \<Rightarrow> goStruct" where
  "sample_struct columns = \<lparr>gs_table = None, gs_name = ''MoveAccountParams'',
     gs_fields = map (\<lambda>(n, db). \<lparr>gf_name = n, gf_dbName = db, gf_typ = ''string''\<rparr>) columns\<rparr>"

definition sample_built :: "(string \<times> string) list \<Rightarrow> generatedQuery" where
  "sample_built columns = \<lparr>gq_methodName = ''MoveAccount'', gq_command = '':exec'', gq_kind = queryKindWrite,
     gq_arg = zero_value \<lparr>qv_emit := True, qv_name := ''arg'', qv_structType := Some (sample_struct columns)\<rparr>,
     gq_ret = zero_value, gq_params = [\<lparr>arg_name = ''ctx'', arg_typ = ''context.Context''\<rparr>],
     gq_storeParams = [], gq_callArgs = [], gq_results = [''error''], gq_route = None,
     gq_shardMode = shardModeRouted, gq_store = ''Accounts'', gq_storeParamAlias = None,
     gq_shardArgs = None, gq_groupedMany = None\<rparr>"

definition sample_operand :: routeOperand where
  "sample_operand = \<lparr>ro_name = ''tenantID'', ro_typ = ''string'', ro_expression = ''arg.TenantID'',
     ro_dbName = ''tenant_id'', ro_fieldName = ''TenantID'', ro_external = False\<rparr>"

definition sample_shardRoute :: shardRoute where
  "sample_shardRoute = \<lparr>sr_name = ''tenant'', sr_methodName = ''Tenant'', sr_queryName = ''MoveAccount'',
     sr_operands = [sample_operand]\<rparr>"

definition sample_wrapped :: "(string \<times> string) list \<Rightarrow> generatedQuery" where
  "sample_wrapped columns = projr (wrapShardParameters (sample_built columns) sample_shardRoute zero_options)"

theorem routed_parameters_typed_witness:
  "\<exists>w. gq_shardArgs (sample_wrapped [(''TenantID'', ''tenant_id''), (''Name'', ''name'')]) = Some w
    \<and> inj_on (\<lambda>f. map_of (sw_sqlcFieldExpressions w) (gf_name f))
        (set (gs_fields (sample_struct [(''TenantID'', ''tenant_id''), (''Name'', ''name'')])))"
proof -
  let ?cs = "[(''TenantID'', ''tenant_id''), (''Name'', ''name'')]"
  let ?g = "sample_built ?cs" and ?s = "sample_struct ?cs"
  have "resolveShardRoute sample_write (gq_arg ?g) sample_annotation None zero_options [] ''public''
      = Inr sample_shardRoute"
    by code_simp
  moreover have "qv_emit (gq_arg ?g)" "qv_structType (gq_arg ?g) = Some ?s"
    by (simp_all add: sample_built_def)
  moreover have "distinct (map gf_name (gs_fields ?s))" "distinct (map gf_dbName (gs_fields ?s))"
    by (simp_all add: sample_struct_def)
  moreover have "\<forall>f \<in> set (gs_fields ?s). validRouteIdentifier (gf_name f)"
    by (simp add: sample_struct_def validRouteIdentifier_Cons ident_char_def char_class_defs)
  moreover have "wrapShardParameters ?g sample_shardRoute zero_options = Inr (sample_wrapped ?cs)"
    by code_simp
  ultimately show ?thesis using routed_parameters_typed by blast
qed

theorem same_column_parameters_merged_witness:
  "\<exists>w. gq_shardArgs (sample_wrapped [(''TenantID'', ''tenant_id''), (''TenantID_2'', ''tenant_id'')]) = Some w
    \<and> map_of (sw_sqlcFieldExpressions w) ''TenantID'' = Some ''arg.Tenant.TenantID''
    \<and> map_of (sw_sqlcFieldExpressions w) ''TenantID_2'' = Some ''arg.Tenant.TenantID''"
proof -
  let ?cs = "[(''TenantID'', ''tenant_id''), (''TenantID_2'', ''tenant_id'')]"
  let ?g = "sample_built ?cs" and ?s = "sample_struct ?cs"
  let ?f = "\<lparr>gf_name = ''TenantID'', gf_dbName = ''tenant_id'', gf_typ = ''string''\<rparr>"
  let ?h = "\<lparr>gf_name = ''TenantID_2'', gf_dbName = ''tenant_id'', gf_typ = ''string''\<rparr>"
  have wrap: "wrapShardParameters ?g sample_shardRoute zero_options = Inr (sample_wrapped ?cs)"
    by code_simp
  have arg: "qv_emit (gq_arg ?g)" "qv_structType (gq_arg ?g) = Some ?s"
    by (simp_all add: sample_built_def)
  have fs: "gs_fields ?s = [?f, ?h]" by (simp add: sample_struct_def)
  have op: "routeOperandByDBName sample_shardRoute ''tenant_id'' = Some sample_operand"
    by (simp add: routeOperandByDBName_def sample_shardRoute_def sample_operand_def)
  have key: "key_expression sample_shardRoute sample_operand = ''arg.Tenant.TenantID''"
    by (simp add: key_expression_def sample_shardRoute_def sample_operand_def)
  have "\<exists>w. gq_shardArgs (sample_wrapped ?cs) = Some w
    \<and> map_of (sw_sqlcFieldExpressions w) (gf_name ?f) = Some (key_expression sample_shardRoute sample_operand)
    \<and> map_of (sw_sqlcFieldExpressions w) (gf_name ?h) = Some (key_expression sample_shardRoute sample_operand)"
    by (rule same_column_parameters_merged [OF wrap arg]) (simp_all add: fs op)
  then show ?thesis unfolding key by simp
qed

end
