(* ===== verification/Store_Groups.thy ===== *)
theory Store_Groups
  imports Query_Routes
begin

text \<open>
  The shard routes and store groups of a set of queries, \<^verbatim>\<open>collectShardRoutes\<close> and
  \<^verbatim>\<open>collectStoreGroups\<close> of \<^verbatim>\<open>query.go\<close>, with the names that the generated code declares for them.
  The code enters every declared name into a map and stops at the first name that is taken. The
  specification of that pass is that the list of declared names has no repetition and no name the
  store always declares; a locale for passes that declare names relates the two.
\<close>

section \<open>Declared names\<close>

definition storeReaderInterfaceName :: "string \<Rightarrow> string" where
  "storeReaderInterfaceName grp = grp @ ''Reader''"

definition storeWriterInterfaceName :: "string \<Rightarrow> string" where
  "storeWriterInterfaceName grp = grp @ ''Writer''"

definition storeFactoryOptionName :: "string \<Rightarrow> string" where
  "storeFactoryOptionName grp = ''With'' @ grp @ ''Factory''"

definition storeTelemetryTypeName :: "string \<Rightarrow> string" where
  "storeTelemetryTypeName grp = ''telemetry'' @ grp @ ''Store''"

definition copyBatchOptionName :: "string \<Rightarrow> string" where
  "copyBatchOptionName query = ''With'' @ query @ ''Batching''"

definition copyAsyncMethodName :: "string \<Rightarrow> string" where
  "copyAsyncMethodName query = query @ ''Async''"

definition copyFlushMethodName :: "string \<Rightarrow> string" where
  "copyFlushMethodName query = ''Flush'' @ query"

definition copyBatchStateTypeName :: "string \<Rightarrow> string" where
  "copyBatchStateTypeName query = lowerTitle query @ ''BatchState''"

definition copyBatchStateFieldName :: "string \<Rightarrow> string" where
  "copyBatchStateFieldName query = lowerTitle query @ ''Batch''"

definition copyBatchConfigFieldName :: "string \<Rightarrow> string" where
  "copyBatchConfigFieldName query = lowerTitle query"

definition copyQueries :: "generatedQuery list \<Rightarrow> generatedQuery list" where
  "copyQueries queries = filter (\<lambda>q. gq_command q = '':copyfrom'' \<and> gq_store q \<noteq> []) queries"

definition copyRowType :: "generatedQuery \<Rightarrow> string" where
  "copyRowType q =
     (if length (gq_params q) < 2 then [] else TrimPrefix (arg_typ (gq_params q ! 1)) ''[]'')"

section \<open>Shard routes\<close>

definition sameRouteSignature :: "shardRoute \<Rightarrow> shardRoute \<Rightarrow> bool" where
  "sameRouteSignature left right =
     (if length (sr_operands left) \<noteq> length (sr_operands right) then False
      else list_all (\<lambda>(l, r). ro_dbName l = ro_dbName r \<and> ro_fieldName l = ro_fieldName r \<and> ro_typ l = ro_typ r)
             (zip (sr_operands left) (sr_operands right)))"

definition routeSignature :: "shardRoute \<Rightarrow> string" where
  "routeSignature route =
     ''('' @ join_with '', '' (map (\<lambda>op. ro_fieldName op @ '' '' @ ro_typ op) (sr_operands route)) @ '')''"

definition collect_route ::
  "(string \<times> shardRoute) list \<Rightarrow> generatedQuery \<Rightarrow> (string \<times> shardRoute) list result" where
  "collect_route byName q =
     (case gq_route q of
        None \<Rightarrow> Inr byName
      | Some route \<Rightarrow>
          (case map_of byName (sr_methodName route) of
             Some previous \<Rightarrow>
               and_then (check (sr_name previous \<noteq> sr_name route)
                 (Errorf ''shard routes %s and %s generate the same resolver method %s''
                    [ArgStr (sr_name previous), ArgStr (sr_name route), ArgStr (sr_methodName route)])) (\<lambda>_.
               and_then (check (\<not> sameRouteSignature previous route)
                 (Errorf ''shard key %s is inconsistent between queries %s and %s: expected %s, got %s''
                    [ArgStr (sr_methodName route), ArgStr (sr_queryName previous), ArgStr (sr_queryName route),
                     ArgStr (routeSignature previous), ArgStr (routeSignature route)])) (\<lambda>_.
               Inr byName))
           | None \<Rightarrow> Inr (AList.update (sr_methodName route) route byName)))"

definition collectShardRoutes :: "generatedQuery list \<Rightarrow> shardRoute list result" where
  "collectShardRoutes queries =
     and_then (foldM collect_route [] queries) (\<lambda>byName. Inr (sort_key sr_methodName (map snd byName)))"

section \<open>Store groups\<close>

record queryGroup =
  sg_name :: string
  sg_queries :: "generatedQuery list"

definition group_query ::
  "generatedQuery \<Rightarrow> (string \<times> generatedQuery list) list \<Rightarrow> (string \<times> generatedQuery list) list" where
  "group_query q byName =
     (if gq_store q = [] then byName
      else AList.update (gq_store q)
             ((case map_of byName (gq_store q) of None \<Rightarrow> [] | Some qs \<Rightarrow> qs) @ [q]) byName)"

definition query_groups :: "generatedQuery list \<Rightarrow> queryGroup list" where
  "query_groups queries =
     sort_key sg_name (map (\<lambda>(n, qs). \<lparr>sg_name = n, sg_queries = qs\<rparr>) (fold group_query queries []))"

type_synonym declarations = "string \<rightharpoonup> string"

text \<open>One declaration: an error that names the declaration that took the name, or a new entry.\<close>

definition declare_name :: "string \<Rightarrow> (string \<Rightarrow> go_error) \<Rightarrow> string \<Rightarrow> declarations \<Rightarrow> declarations result" where
  "declare_name owner conflict nm decls =
     (case decls nm of Some previous \<Rightarrow> Inl (conflict previous) | None \<Rightarrow> Inr (decls(nm \<mapsto> owner)))"

definition key_owner :: "shardRoute \<Rightarrow> string" where
  "key_owner route = ''shard key for route '' @ sr_name route"

definition declare_key :: "declarations \<Rightarrow> generatedQuery \<Rightarrow> declarations result" where
  "declare_key decls q =
     (case gq_route q of
        None \<Rightarrow> Inr decls
      | Some route \<Rightarrow>
          if decls (sr_methodName route) = Some (key_owner route) then Inr decls
          else declare_name (key_owner route)
                 (\<lambda>previous. Errorf ''shard route %s generates key type %s that conflicts with %s''
                    [ArgStr (sr_name route), ArgStr (sr_methodName route), ArgStr previous])
                 (sr_methodName route) decls)"

definition group_names :: "queryGroup \<Rightarrow> string list" where
  "group_names g = [sg_name g, storeReaderInterfaceName (sg_name g), storeWriterInterfaceName (sg_name g),
     storeFactoryOptionName (sg_name g)]"

definition declare_group :: "declarations \<Rightarrow> queryGroup \<Rightarrow> declarations result" where
  "declare_group decls g =
     foldM (\<lambda>d nm. declare_name (''store group '' @ sg_name g)
         (\<lambda>previous. Errorf ''store group %s generates declaration %s that conflicts with %s''
            [ArgStr (sg_name g), ArgStr nm, ArgStr previous]) nm d)
       decls (group_names g)"

text \<open>The asynchronous methods of a COPY query must not be the methods of another query.\<close>

definition copy_methods :: "generatedQuery \<Rightarrow> string list" where
  "copy_methods q = [copyAsyncMethodName (gq_methodName q), copyFlushMethodName (gq_methodName q)]"

definition check_copy_methods :: "generatedQuery list \<Rightarrow> generatedQuery \<Rightarrow> unit result" where
  "check_copy_methods queries q =
     foldM (\<lambda>_ method. check (method \<in> set (map gq_methodName queries))
         (Errorf ''copy query %s generates method %s that conflicts with query %s''
            [ArgStr (gq_methodName q), ArgStr method, ArgStr method]))
       () (copy_methods q)"

definition declare_query :: "generatedQuery list \<Rightarrow> declarations \<Rightarrow> generatedQuery \<Rightarrow> declarations result" where
  "declare_query queries decls q =
     and_then
       (if gq_command q = '':copyfrom'' then
          and_then (check_copy_methods queries q) (\<lambda>_.
            declare_name (''copy batch option for '' @ gq_methodName q)
              (\<lambda>previous. Errorf ''copy query %s generates declaration %s that conflicts with %s''
                 [ArgStr (gq_methodName q), ArgStr (copyBatchOptionName (gq_methodName q)), ArgStr previous])
              (copyBatchOptionName (gq_methodName q)) decls)
        else Inr decls) (\<lambda>d1.
     and_then
       (case gq_storeParamAlias q of
          None \<Rightarrow> Inr d1
        | Some a \<Rightarrow>
            declare_name (''store parameter alias for '' @ gq_methodName q)
              (\<lambda>previous. Errorf ''query %s generates store parameter alias %s that conflicts with %s''
                 [ArgStr (gq_methodName q), ArgStr (pa_name a), ArgStr previous]) (pa_name a) d1) (\<lambda>d2.
     case gq_shardArgs q of
       None \<Rightarrow> Inr d2
     | Some w \<Rightarrow>
         declare_name (''shard parameter wrapper for '' @ gq_methodName q)
           (\<lambda>previous. Errorf ''query %s generates shard parameter wrapper %s that conflicts with %s''
              [ArgStr (gq_methodName q), ArgStr (sw_name w), ArgStr previous]) (sw_name w) d2))"

definition collectStoreGroups :: "generatedQuery list \<Rightarrow> options \<Rightarrow> queryGroup list result" where
  "collectStoreGroups queries opts =
     (let groups = query_groups queries
      in and_then (foldM declare_key (generatedDeclarations opts) queries) (\<lambda>d1.
         and_then (foldM declare_group d1 groups) (\<lambda>d2.
         and_then (foldM (declare_query queries) d2 queries) (\<lambda>_.
         Inr groups))))"

section \<open>Passes that declare names\<close>

text \<open>
  A pass declares the names of its elements: a step succeeds exactly when the element passes its
  own check and its names are new and differ, and then exactly these names are added.
\<close>

locale declaring =
  fixes step :: "declarations \<Rightarrow> 'a \<Rightarrow> declarations result"
    and names :: "'a \<Rightarrow> string list" and ok :: "'a \<Rightarrow> bool"
  assumes step_ok: "step d x = Inr d' \<Longrightarrow> ok x \<and> distinct (names x) \<and> set (names x) \<inter> dom d = {}
      \<and> dom d' = dom d \<union> set (names x)"
    and step_total: "ok x \<Longrightarrow> distinct (names x) \<Longrightarrow> set (names x) \<inter> dom d = {} \<Longrightarrow> \<exists>d'. step d x = Inr d'"
begin

lemma pass_ok:
  "foldM step d xs = Inr d' \<Longrightarrow> (\<forall>x \<in> set xs. ok x) \<and> distinct (concat (map names xs))
    \<and> set (concat (map names xs)) \<inter> dom d = {} \<and> dom d' = dom d \<union> set (concat (map names xs))"
proof (induction xs arbitrary: d)
  case (Cons x xs)
  then obtain d1 where d1: "step d x = Inr d1" and rest: "foldM step d1 xs = Inr d'"
    by (auto simp: result_simps)
  show ?case using step_ok [OF d1] Cons.IH [OF rest] by auto
qed simp

lemma pass_total:
  "\<forall>x \<in> set xs. ok x \<Longrightarrow> distinct (concat (map names xs)) \<Longrightarrow>
    set (concat (map names xs)) \<inter> dom d = {} \<Longrightarrow> \<exists>d'. foldM step d xs = Inr d'"
proof (induction xs arbitrary: d)
  case (Cons x xs)
  then obtain d1 where d1: "step d x = Inr d1" using step_total [of x d] by auto
  have "dom d1 = dom d \<union> set (names x)" using step_ok [OF d1] by simp
  then have "\<exists>d'. foldM step d1 xs = Inr d'" using Cons.prems by (intro Cons.IH) auto
  then show ?case using d1 by simp
qed simp

lemma pass_iff:
  "(\<exists>d'. foldM step d xs = Inr d') \<longleftrightarrow> (\<forall>x \<in> set xs. ok x) \<and> distinct (concat (map names xs))
    \<and> set (concat (map names xs)) \<inter> dom d = {}"
  using pass_ok pass_total by meson

end

lemma declare_name_Inr:
  "declare_name ow c nm d = Inr d' \<longleftrightarrow> nm \<notin> dom d \<and> d' = d(nm \<mapsto> ow)"
  by (auto simp: declare_name_def domIff split: option.splits)

interpretation one_name: declaring "\<lambda>d nm. declare_name ow (c nm) nm d" "\<lambda>nm. [nm]" "\<lambda>_. True" for ow c
  by unfold_locales (auto simp: declare_name_Inr)

interpretation group_pass: declaring declare_group group_names "\<lambda>_. True"
proof unfold_locales
  fix d d' :: declarations and g :: queryGroup
  assume "declare_group d g = Inr d'"
  then show "True \<and> distinct (group_names g) \<and> set (group_names g) \<inter> dom d = {}
      \<and> dom d' = dom d \<union> set (group_names g)"
    using one_name.pass_ok unfolding declare_group_def by fastforce
next
  fix d :: declarations and g :: queryGroup
  assume "distinct (group_names g)" "set (group_names g) \<inter> dom d = {}"
  then show "\<exists>d'. declare_group d g = Inr d'"
    unfolding declare_group_def by (intro one_name.pass_total) simp_all
qed

definition query_names :: "generatedQuery \<Rightarrow> string list" where
  "query_names q =
     (if gq_command q = '':copyfrom'' then [copyBatchOptionName (gq_methodName q)] else [])
     @ (case gq_storeParamAlias q of None \<Rightarrow> [] | Some a \<Rightarrow> [pa_name a])
     @ (case gq_shardArgs q of None \<Rightarrow> [] | Some w \<Rightarrow> [sw_name w])"

definition copy_methods_free :: "generatedQuery list \<Rightarrow> generatedQuery \<Rightarrow> bool" where
  "copy_methods_free queries q \<longleftrightarrow>
     (gq_command q = '':copyfrom'' \<longrightarrow> set (copy_methods q) \<inter> set (map gq_methodName queries) = {})"

lemma check_copy_methods_Inr:
  "check_copy_methods queries q = Inr () \<longleftrightarrow> set (copy_methods q) \<inter> set (map gq_methodName queries) = {}"
  by (auto simp: check_copy_methods_def copy_methods_def result_simps)

interpretation query_pass: declaring "declare_query queries" query_names "copy_methods_free queries" for queries
proof unfold_locales
  fix d d' :: declarations and q
  assume "declare_query queries d q = Inr d'"
  then show "copy_methods_free queries q \<and> distinct (query_names q) \<and> set (query_names q) \<inter> dom d = {}
      \<and> dom d' = dom d \<union> set (query_names q)"
    unfolding declare_query_def query_names_def copy_methods_free_def
    by (cases "gq_storeParamAlias q"; cases "gq_shardArgs q")
      (auto simp: result_simps declare_name_Inr check_copy_methods_Inr split: if_splits)
next
  fix d :: declarations and q
  assume "copy_methods_free queries q" "distinct (query_names q)" "set (query_names q) \<inter> dom d = {}"
  then show "\<exists>d'. declare_query queries d q = Inr d'"
    unfolding declare_query_def query_names_def copy_methods_free_def
    by (cases "gq_storeParamAlias q"; cases "gq_shardArgs q")
      (auto simp: result_simps declare_name_Inr check_copy_methods_Inr split: if_splits)
qed

section \<open>Shard key types\<close>

text \<open>The shard keys of a list of queries: pairs of type name and owner, without repetition.\<close>

definition shard_keys :: "generatedQuery list \<Rightarrow> (string \<times> string) list" where
  "shard_keys queries =
     remdups (List.map_filter (\<lambda>q. map_option (\<lambda>r. (sr_methodName r, key_owner r)) (gq_route q)) queries)"

lemma map_filter_Cons:
  "List.map_filter f (x # xs) = (case f x of None \<Rightarrow> [] | Some y \<Rightarrow> [y]) @ List.map_filter f xs"
  by (auto simp: List.map_filter_def split: option.split)

definition keys_fit :: "declarations \<Rightarrow> (string \<times> string) set \<Rightarrow> bool" where
  "keys_fit d ks \<longleftrightarrow> (\<forall>(n, ow) \<in> ks. d n = None \<or> d n = Some ow)
     \<and> (\<forall>(n, ow) \<in> ks. \<forall>(n', ow') \<in> ks. n = n' \<longrightarrow> ow = ow')"

lemma keys_fit_insert:
  assumes "d n = None \<or> d n = Some ow"
  shows "keys_fit d (insert (n, ow) ks) \<longleftrightarrow> keys_fit (d(n \<mapsto> ow)) ks"
proof
  assume l: "keys_fit d (insert (n, ow) ks)"
  then show "keys_fit (d(n \<mapsto> ow)) ks" unfolding keys_fit_def by fastforce
next
  assume "keys_fit (d(n \<mapsto> ow)) ks"
  then show "keys_fit d (insert (n, ow) ks)" using assms unfolding keys_fit_def by (fastforce split: if_splits)
qed

lemma set_shard_keys_Cons:
  "set (shard_keys (q # qs)) = (case gq_route q of None \<Rightarrow> {} | Some r \<Rightarrow> {(sr_methodName r, key_owner r)})
     \<union> set (shard_keys qs)"
  by (auto simp: shard_keys_def map_filter_Cons split: option.splits)

lemma declare_keys_iff:
  "(foldM declare_key d qs = Inr d' \<longrightarrow> dom d' = dom d \<union> fst ` set (shard_keys qs))
    \<and> ((\<exists>d'. foldM declare_key d qs = Inr d') \<longleftrightarrow> keys_fit d (set (shard_keys qs)))"
proof (induction qs arbitrary: d)
  case Nil
  then show ?case by (simp add: shard_keys_def keys_fit_def List.map_filter_def)
next
  case (Cons q qs)
  show ?case
  proof (cases "gq_route q")
    case None
    then show ?thesis using Cons.IH [of d] by (simp add: declare_key_def set_shard_keys_Cons)
  next
    case (Some r)
    let ?n = "sr_methodName r" and ?o = "key_owner r"
    have keys: "set (shard_keys (q # qs)) = insert (?n, ?o) (set (shard_keys qs))"
      using Some by (simp add: set_shard_keys_Cons)
    consider (taken) x where "d ?n = Some x" "x \<noteq> ?o" | (free) "d ?n = None \<or> d ?n = Some ?o"
      by (cases "d ?n") auto
    then show ?thesis
    proof cases
      case taken
      then have "declare_key d q = Inl (Errorf ''shard route %s generates key type %s that conflicts with %s''
                    [ArgStr (sr_name r), ArgStr ?n, ArgStr x])"
        using Some by (simp add: declare_key_def declare_name_def)
      moreover have "\<not> keys_fit d (set (shard_keys (q # qs)))"
        using taken unfolding keys keys_fit_def by auto
      ultimately show ?thesis by simp
    next
      case free
      have upd: "d(?n \<mapsto> ?o) = d" if "d ?n = Some ?o" using that by (simp add: fun_upd_idem)
      have step: "declare_key d q = Inr (d(?n \<mapsto> ?o))"
        using Some free upd by (auto simp: declare_key_def declare_name_def)
      define d2 where "d2 = d(?n \<mapsto> ?o)"
      have fit: "keys_fit d (set (shard_keys (q # qs))) \<longleftrightarrow> keys_fit d2 (set (shard_keys qs))"
        unfolding keys d2_def using free by (rule keys_fit_insert)
      have "foldM declare_key d (q # qs) = foldM declare_key d2 qs" using step by (simp add: d2_def)
      moreover have "dom d2 = insert ?n (dom d)" by (simp add: d2_def)
      ultimately show ?thesis using Cons.IH [of d2] fit keys by auto
    qed
  qed
qed

lemma fixed_owner:
  "map_of (fixedGeneratedDeclarations b) n = Some ow \<Longrightarrow>
    ow \<in> {''generated query option'', generatedOptionDeclaration, ''generated sharded option'',
      ''generated singleton constructor'', ''generated singleton option'', ''generated store option'',
      ''generated topology'', sqlcDeclaration}"
  by (drule map_of_SomeD) (cases b; auto simp: fixedGeneratedDeclarations_def)

lemma generated_owner: "generatedDeclarations opts n = Some ow \<Longrightarrow> ow \<noteq> key_owner r"
  by (auto simp: generatedDeclarations_def key_owner_def constructorOption_def generatedOptionDeclaration_def
      sqlcDeclaration_def dest!: fixed_owner split: if_splits)

lemma keys_fit_generated:
  "keys_fit (generatedDeclarations opts) (set (shard_keys qs)) \<longleftrightarrow>
    distinct (map fst (shard_keys qs)) \<and> set (map fst (shard_keys qs)) \<inter> dom (generatedDeclarations opts) = {}"
proof -
  have owner: "\<exists>r. ow = key_owner r" if "(n, ow) \<in> set (shard_keys qs)" for n ow
    using that by (auto simp: shard_keys_def List.map_filter_def)
  have "(\<forall>(n, ow) \<in> set (shard_keys qs). generatedDeclarations opts n = None
        \<or> generatedDeclarations opts n = Some ow)
      \<longleftrightarrow> set (map fst (shard_keys qs)) \<inter> dom (generatedDeclarations opts) = {}"
    using owner generated_owner [of opts] by (fastforce simp: domIff)
  moreover have "(\<forall>(n, ow) \<in> set (shard_keys qs). \<forall>(n', ow') \<in> set (shard_keys qs). n = n' \<longrightarrow> ow = ow')
      \<longleftrightarrow> distinct (map fst (shard_keys qs))"
  proof -
    have "distinct (shard_keys qs)" by (simp add: shard_keys_def)
    then have "distinct (map fst (shard_keys qs)) \<longleftrightarrow> inj_on fst (set (shard_keys qs))"
      by (simp add: distinct_map)
    then show ?thesis unfolding inj_on_def by fastforce
  qed
  ultimately show ?thesis unfolding keys_fit_def by blast
qed

section \<open>Groups by name\<close>

definition groups_by_name :: "generatedQuery list \<Rightarrow> queryGroup list" where
  "groups_by_name queries =
     map (\<lambda>n. \<lparr>sg_name = n, sg_queries = filter (\<lambda>q. gq_store q = n) queries\<rparr>)
       (sorted_list_of_set (set (map gq_store queries) - {[]}))"

definition group_lookup :: "(string \<times> generatedQuery list) list \<Rightarrow> string \<Rightarrow> generatedQuery list" where
  "group_lookup al n = (case map_of al n of None \<Rightarrow> [] | Some qs \<Rightarrow> qs)"

lemma fold_group_query:
  "distinct (map fst al) \<Longrightarrow> distinct (map fst (fold group_query qs al))
    \<and> set (map fst (fold group_query qs al)) = set (map fst al) \<union> (set (map gq_store qs) - {[]})
    \<and> (\<forall>n. n \<noteq> [] \<longrightarrow> group_lookup (fold group_query qs al) n = group_lookup al n @ filter (\<lambda>q. gq_store q = n) qs)"
proof (induction qs arbitrary: al)
  case Nil
  then show ?case by simp
next
  case (Cons q qs)
  have d: "distinct (map fst (group_query q al))"
    using Cons.prems by (simp add: group_query_def distinct_update)
  have keys: "set (map fst (group_query q al)) = set (map fst al) \<union> ({gq_store q} - {[]})"
    by (auto simp: group_query_def dom_update)
  have look: "group_lookup (group_query q al) n = group_lookup al n @ (if gq_store q = n then [q] else [])"
    if "n \<noteq> []" for n
    using that by (auto simp: group_lookup_def group_query_def update_conv')
  show ?case
    using Cons.IH [OF d] keys look by auto
qed

lemma sort_key_map_distinct:
  fixes ns :: "string list"
  assumes "distinct ns" and "\<And>n. k (f n) = n"
  shows "sort_key k (map f ns) = map f (sorted_list_of_set (set ns))"
proof -
  let ?ms = "sorted_list_of_set (set ns)"
  have "mset ns = mset ?ms" using assms(1) by (metis mset_set_set mset_sorted_list_of_multiset
      sorted_list_of_mset_set)
  then have "mset (map f ns) = mset (map f ?ms)" by simp
  moreover have "inj_on k (set (map f ns))" using assms(2) by (auto intro: inj_onI)
  moreover have "sorted (map k (map f ?ms))" using assms(2) by (simp add: comp_def)
  ultimately show ?thesis by (intro sort_key_inj_key_eq)
qed

lemma query_groups_by_name: "query_groups qs = groups_by_name qs"
proof -
  define al where "al = fold group_query qs []"
  let ?f = "\<lambda>n. \<lparr>sg_name = n, sg_queries = filter (\<lambda>q. gq_store q = n) qs\<rparr>"
  have d: "distinct (map fst al)" and keys: "set (map fst al) = set (map gq_store qs) - {[]}"
    and look: "n \<noteq> [] \<Longrightarrow> group_lookup al n = filter (\<lambda>q. gq_store q = n) qs" for n
    using fold_group_query [of "[]" qs] by (simp_all add: al_def group_lookup_def)
  have "(case p of (n, qs) \<Rightarrow> \<lparr>sg_name = n, sg_queries = qs\<rparr>) = ?f (fst p)" if p: "p \<in> set al" for p
  proof -
    have "map_of al (fst p) = Some (snd p)" using d p by (intro map_of_is_SomeI) simp_all
    moreover have "fst p \<in> set (map fst al)" using p by simp
    then have "fst p \<noteq> []" unfolding keys by simp
    ultimately have "snd p = filter (\<lambda>q. gq_store q = fst p) qs"
      using look [of "fst p"] by (simp add: group_lookup_def)
    then show ?thesis by (cases p) simp
  qed
  then have "map (\<lambda>(n, qs). \<lparr>sg_name = n, sg_queries = qs\<rparr>) al = map ?f (map fst al)"
    unfolding map_map by (intro map_cong [OF refl]) simp
  then have "query_groups qs = sort_key sg_name (map ?f (map fst al))"
    by (simp only: query_groups_def al_def)
  also have "\<dots> = map ?f (sorted_list_of_set (set (map fst al)))"
    using d by (rule sort_key_map_distinct) simp
  finally show ?thesis by (simp only: keys groups_by_name_def)
qed

section \<open>The pass over all declarations refines its specification\<close>

definition declared_names :: "generatedQuery list \<Rightarrow> string list" where
  "declared_names queries =
     map fst (shard_keys queries) @ concat (map group_names (groups_by_name queries))
     @ concat (map query_names queries)"

lemma collectStoreGroups_iff:
  "collectStoreGroups queries opts = Inr groups \<longleftrightarrow>
    groups = groups_by_name queries \<and> distinct (declared_names queries)
    \<and> set (declared_names queries) \<inter> dom (generatedDeclarations opts) = {}
    \<and> (\<forall>q \<in> set queries. copy_methods_free queries q)"
proof -
  let ?d0 = "generatedDeclarations opts" and ?gs = "groups_by_name queries"
  let ?ks = "map fst (shard_keys queries)" and ?gn = "concat (map group_names (groups_by_name queries))"
  let ?qn = "concat (map query_names queries)"
  have "collectStoreGroups queries opts = Inr groups \<longleftrightarrow> groups = ?gs \<and>
      (\<exists>d1 d2. foldM declare_key ?d0 queries = Inr d1 \<and> foldM declare_group d1 ?gs = Inr d2
        \<and> (\<exists>d3. foldM (declare_query queries) d2 queries = Inr d3))"
    by (auto simp: collectStoreGroups_def Let_def result_simps query_groups_by_name)
  also have "\<dots> \<longleftrightarrow> groups = ?gs \<and> distinct (?ks @ ?gn @ ?qn) \<and> set (?ks @ ?gn @ ?qn) \<inter> dom ?d0 = {}
      \<and> (\<forall>q \<in> set queries. copy_methods_free queries q)" (is "_ \<and> ?l \<longleftrightarrow> _ \<and> ?r")
  proof -
    have keys: "(\<exists>d1. foldM declare_key ?d0 queries = Inr d1) \<longleftrightarrow> distinct ?ks \<and> set ?ks \<inter> dom ?d0 = {}"
      using declare_keys_iff [of ?d0 queries] keys_fit_generated by blast
    have kd: "dom d1 = dom ?d0 \<union> set ?ks" if "foldM declare_key ?d0 queries = Inr d1" for d1
      using declare_keys_iff [of ?d0 queries d1] that by simp
    have "?l = ?r"
    proof
      assume ?l
      then obtain d1 d2 d3 where d: "foldM declare_key ?d0 queries = Inr d1" "foldM declare_group d1 ?gs = Inr d2"
        "foldM (declare_query queries) d2 queries = Inr d3" by blast
      show ?r
        using keys d(1) kd [OF d(1)] group_pass.pass_ok [OF d(2)] query_pass.pass_ok [OF d(3)] by auto
    next
      assume r: ?r
      then obtain d1 where d1: "foldM declare_key ?d0 queries = Inr d1" using keys by auto
      have "\<exists>d2. foldM declare_group d1 ?gs = Inr d2"
        using r kd [OF d1] by (intro group_pass.pass_total) auto
      then obtain d2 where d2: "foldM declare_group d1 ?gs = Inr d2" ..
      have "\<exists>d3. foldM (declare_query queries) d2 queries = Inr d3"
        using r kd [OF d1] group_pass.pass_ok [OF d2] by (intro query_pass.pass_total) auto
      then show ?l using d1 d2 by blast
    qed
    then show ?thesis by simp
  qed
  finally show ?thesis by (simp only: declared_names_def)
qed

text \<open>
  C39: the store groups of a set of queries. The pass that enters declarations into a map refines
  the specification that the shard key types, the names of every group (its interfaces and its
  factory option), and the options, aliases and wrapper structs of the queries are pairwise
  different and differ from what every store declares, and that no query has the name of a method
  generated for a COPY query. It succeeds exactly then, and returns the queries by group, groups
  in name order and queries in their order.
\<close>

theorem collectStoreGroups_refines:
  "collectStoreGroups queries opts = Inr groups \<longleftrightarrow>
    groups = groups_by_name queries \<and> distinct (declared_names queries)
    \<and> set (declared_names queries) \<inter> dom (generatedDeclarations opts) = {}
    \<and> (\<forall>q \<in> set queries. copy_methods_free queries q)"
  by (rule collectStoreGroups_iff)

theorem collectStoreGroups_refines_witness:
  "collectStoreGroups [sample_wrapped [(''TenantID'', ''tenant_id'')]] zero_options
      = Inr (groups_by_name [sample_wrapped [(''TenantID'', ''tenant_id'')]])
    \<and> distinct (declared_names [sample_wrapped [(''TenantID'', ''tenant_id'')]])"
proof -
  let ?qs = "[sample_wrapped [(''TenantID'', ''tenant_id'')]]"
  have "(case collectStoreGroups ?qs zero_options of Inl _ \<Rightarrow> False | Inr _ \<Rightarrow> True)" by code_simp
  then obtain gs where gs: "collectStoreGroups ?qs zero_options = Inr gs" by (auto split: sum.splits)
  then show ?thesis using collectStoreGroups_refines [of ?qs zero_options gs] by blast
qed

end
