(* ===== verification/Plugin_Options.thy ===== *)
theory Plugin_Options
  imports Postgres_Types
begin

text \<open>
  \<^verbatim>\<open>options.go\<close>: defaults and validation of the plugin's options. The decoder of \<^verbatim>\<open>encoding/json\<close>
  is a parameter: the first value of the text, decoded with unknown fields rejected into zero
  options, and whether nothing but the end of the text follows it. Accepted options have the shape
  that the theories on names and types rely on: exported, pairwise different public names that no
  generated declaration takes, and one import path per qualifier.
\<close>

section \<open>Defaults\<close>

definition outputPackageName :: "request \<Rightarrow> string" where
  "outputPackageName req =
     (case req_CodegenOut req of
        Some out \<Rightarrow>
          if out \<noteq> [] \<and> validRouteIdentifier (path_Base out) \<and> path_Base out \<notin> set goKeywords
          then path_Base out else ''db''
      | None \<Rightarrow> ''db'')"

definition default_to :: "string \<Rightarrow> string \<Rightarrow> string" where
  "default_to d s = (if s = [] then d else s)"

definition apply_defaults :: "request \<Rightarrow> options \<Rightarrow> options" where
  "apply_defaults req opts =
     opts \<lparr>OutputFileName := default_to ''store_querier.go'' (OutputFileName opts),
           PackageName := (if PackageName opts = [] then outputPackageName req else PackageName opts),
           SQLPackage := default_to ''pgx/v5'' (SQLPackage opts),
           QueryParameterLimit := Some (case QueryParameterLimit opts of None \<Rightarrow> 1 | Some l \<Rightarrow> l),
           ConstructorName := default_to ''NewStore'' (ConstructorName opts),
           StoreInterfaceName := default_to ''Store'' (StoreInterfaceName opts),
           RuntimeImportPath := default_to ''github.com/sundayfun/pgmesh'' (RuntimeImportPath opts),
           ResolverInterfaceName := default_to ''ShardResolver'' (ResolverInterfaceName opts),
           ShardedConstructor := default_to ''Sharded'' (ShardedConstructor opts)\<rparr>"

section \<open>Validation\<close>

definition bad_file_name :: "string \<Rightarrow> bool" where
  "bad_file_name f \<longleftrightarrow> path_Base f \<noteq> f \<or> ContainsAny f [CHR ''/'', CHR 0x5C] \<or> f = ''.'' \<or> f = ''..''
     \<or> path_Ext f \<noteq> ''.go'' \<or> HasPrefix f ''.'' \<or> HasPrefix f ''_'' \<or> HasSuffix f ''_test.go''"

text \<open>The imports of generated code, by qualifier.\<close>

definition fixed_imports :: "options \<Rightarrow> (string \<times> string) list" where
  "fixed_imports opts =
     [(''context'', ''context''), (''errors'', ''errors''), (''fmt'', ''fmt''),
      (''metric'', ''go.opentelemetry.io/otel/metric''), (''pgmesh'', RuntimeImportPath opts),
      (''pgx'', ''github.com/jackc/pgx/v5''), (''slog'', ''log/slog''), (''sql'', ''database/sql''),
      (''trace'', ''go.opentelemetry.io/otel/trace'')]"

definition generated_imports :: "options \<Rightarrow> (string \<times> string) list" where
  "generated_imports opts =
     fixed_imports opts
     @ (if InternalImportPath opts \<noteq> [] then [(internalQualifier opts, InternalImportPath opts)] else [])"

definition check_import :: "(string \<rightharpoonup> string) \<Rightarrow> string \<times> string \<Rightarrow> (string \<rightharpoonup> string) result" where
  "check_import paths = (\<lambda>(qualifier, path).
     case paths path of
       Some previous \<Rightarrow>
         if previous \<noteq> qualifier then
           Inl (Errorf ''generated import alias %q conflicts with %q for path %q''
                  [ArgStr qualifier, ArgStr previous, ArgStr path])
         else Inr (paths(path \<mapsto> qualifier))
     | None \<Rightarrow> Inr (paths(path \<mapsto> qualifier)))"

definition public_names :: "options \<Rightarrow> (string \<times> string) list" where
  "public_names opts =
     [(constructorOption, ConstructorName opts), (''store_interface'', StoreInterfaceName opts),
      (''resolver_interface'', ResolverInterfaceName opts), (''sharded_constructor'', ShardedConstructor opts)]"

definition check_public :: "string set \<Rightarrow> (string \<rightharpoonup> string) \<Rightarrow> string \<times> string \<Rightarrow> (string \<rightharpoonup> string) result" where
  "check_public reserved seen = (\<lambda>(opt, val).
     and_then (validateIdentifier opt val True) (\<lambda>_.
     and_then (check (val \<in> reserved)
       (Errorf ''%s %q conflicts with a generated declaration'' [ArgStr opt, ArgStr val])) (\<lambda>_.
     case seen val of
       Some previous \<Rightarrow> Inl (Errorf ''%s %q conflicts with %s'' [ArgStr opt, ArgStr val, ArgStr previous])
     | None \<Rightarrow> Inr (seen(val \<mapsto> opt)))))"

definition check_rename :: "unit \<Rightarrow> string \<times> string \<Rightarrow> unit result" where
  "check_rename _ = (\<lambda>(source, renamed).
     and_then (check (source = []) (Errorf ''rename contains an empty SQL identifier'' [])) (\<lambda>_.
       validateIdentifier (''rename['' @ quote source @ '']'') renamed False))"

definition check_internal_alias :: "options \<Rightarrow> unit result" where
  "check_internal_alias opts =
     (if InternalImportAlias opts = [] then Inr ()
      else
        and_then (check (InternalImportPath opts = [])
          (Errorf ''internal_import_alias requires internal_import_path'' [])) (\<lambda>_.
        and_then (validateIdentifier ''internal_import_alias'' (InternalImportAlias opts) False) (\<lambda>_.
        check (InternalImportAlias opts \<in> set (map fst (fixed_imports opts)))
          (Errorf ''internal_import_alias %q conflicts with a generated import''
             [ArgStr (InternalImportAlias opts)]))))"

definition validateOptions :: "options \<Rightarrow> unit result" where
  "validateOptions opts =
     and_then (check (bad_file_name (OutputFileName opts))
       (Errorf ''output_file_name %q must be a visible base filename ending in .go and not _test.go''
          [ArgStr (OutputFileName opts)])) (\<lambda>_.
     and_then (validateIdentifier ''package'' (PackageName opts) False) (\<lambda>_.
     and_then (validateImportPath ''runtime_import_path'' (RuntimeImportPath opts)) (\<lambda>_.
     and_then (if InternalImportPath opts \<noteq> []
               then validateImportPath ''internal_import_path'' (InternalImportPath opts) else Inr ()) (\<lambda>_.
     and_then (check_internal_alias opts) (\<lambda>_.
     and_then (check (ExportSQLCTypes opts \<and> InternalImportPath opts = [])
       (Errorf ''export_sqlc_types requires internal_import_path'' [])) (\<lambda>_.
     and_then (foldM check_import Map.empty (generated_imports opts)) (\<lambda>_.
     and_then (foldM (check_public (set (map fst (fixedGeneratedDeclarations (InternalImportPath opts = [])))))
       Map.empty (public_names opts)) (\<lambda>_.
     foldM check_rename () (Rename opts)))))))))"

section \<open>Imports of overrides\<close>

definition reserved_imports :: "options \<Rightarrow> (string \<times> string) list" where
  "reserved_imports opts =
     (if InternalImportPath opts \<noteq> []
      then AList.update (internalQualifier opts) (InternalImportPath opts) (fixed_imports opts)
      else fixed_imports opts)"

definition override_qualifier :: "override \<Rightarrow> string" where
  "override_qualifier ov =
     (let q = ov_importAlias ov; q = (if q = [] then typeQualifier (ov_typeName ov) else q)
      in if q = [] then packageNameForImport (ov_importPath ov) else q)"

type_synonym override_seen = "(string \<rightharpoonup> string) \<times> (string \<rightharpoonup> string)"

definition check_override ::
  "(string \<times> string) list \<Rightarrow> override_seen \<Rightarrow> nat \<times> override \<Rightarrow> override_seen result" where
  "check_override reserved seen = (\<lambda>(index, ov).
     if ov_importPath ov = [] then Inr seen
     else
       let qualifier = override_qualifier ov; path = ov_importPath ov
       in and_then (case map_of reserved qualifier of
            Some p \<Rightarrow> check (p \<noteq> path)
              (Errorf ''override %d import alias %q conflicts with generated import %q''
                 [ArgNat index, ArgStr qualifier, ArgStr p])
          | None \<Rightarrow> Inr ()) (\<lambda>_.
          and_then (case List.find (\<lambda>(q, p). p = path \<and> q \<noteq> qualifier) reserved of
            Some (q, _) \<Rightarrow> Inl (Errorf ''override %d import %q conflicts with generated alias %q''
                 [ArgNat index, ArgStr path, ArgStr q])
          | None \<Rightarrow> Inr ()) (\<lambda>_.
          and_then (case fst seen qualifier of
            Some p \<Rightarrow> check (p \<noteq> path)
              (Errorf ''override %d import alias %q conflicts with override import %q''
                 [ArgNat index, ArgStr qualifier, ArgStr p])
          | None \<Rightarrow> Inr ()) (\<lambda>_.
          and_then (case snd seen path of
            Some q \<Rightarrow> check (q \<noteq> qualifier)
              (Errorf ''override %d import %q conflicts with override alias %q''
                 [ArgNat index, ArgStr path, ArgStr q])
          | None \<Rightarrow> Inr ()) (\<lambda>_.
          Inr ((fst seen)(qualifier \<mapsto> path), (snd seen)(path \<mapsto> qualifier)))))))"

definition validateOverrideImports :: "options \<Rightarrow> unit result" where
  "validateOverrideImports opts =
     and_then (foldM (check_override (reserved_imports opts)) (Map.empty, Map.empty)
       (enumerate 0 (Overrides opts))) (\<lambda>_. Inr ())"

section \<open>Parsing\<close>

fun parse_overrides ::
  "(string \<Rightarrow> ast_expr option) \<Rightarrow> catalog \<Rightarrow> nat \<Rightarrow> override list \<Rightarrow> override list result" where
  "parse_overrides parse_expr cat idx [] = Inr []"
| "parse_overrides parse_expr cat idx (ov # ovs) =
     (case override_parse parse_expr cat ov of
        Inl e \<Rightarrow> Inl (Wrap ''parse override %d: %w'' [ArgNat idx] e)
      | Inr o2 \<Rightarrow> and_then (parse_overrides parse_expr cat (Suc idx) ovs) (\<lambda>os. Inr (o2 # os)))"

definition decode_options ::
  "(string \<Rightarrow> options result) \<Rightarrow> (string \<Rightarrow> bool) \<Rightarrow> string \<Rightarrow> options result" where
  "decode_options decode one_value txt =
     (if txt = [] then Inr zero_options
      else case decode txt of
             Inl e \<Rightarrow> Inl (Wrap ''unmarshal plugin options: %w'' [] e)
           | Inr opts \<Rightarrow>
               if \<not> one_value txt
               then Inl (Errorf ''unmarshal plugin options: expected one JSON object'' [])
               else Inr opts)"

definition parseOptions ::
  "(string \<Rightarrow> options result) \<Rightarrow> (string \<Rightarrow> bool) \<Rightarrow> (string \<Rightarrow> ast_expr option) \<Rightarrow> request \<Rightarrow> options result" where
  "parseOptions decode one_value parse_expr req =
     and_then (check (req_Engine req \<noteq> ''postgresql'')
       (Errorf ''engine %q is unsupported; pgmesh v1 requires postgresql'' [ArgStr (req_Engine req)])) (\<lambda>_.
     and_then (decode_options decode one_value (req_PluginOptions req)) (\<lambda>decoded.
     let opts = apply_defaults req decoded
     in and_then (check (the (QueryParameterLimit opts) < 0)
          (Errorf ''query_parameter_limit must not be negative'' [])) (\<lambda>_.
        and_then (check (SQLPackage opts \<noteq> ''pgx/v5'')
          (Errorf ''sql_package %q is unsupported; pgmesh v1 requires pgx/v5'' [ArgStr (SQLPackage opts)])) (\<lambda>_.
        and_then (validateOptions opts) (\<lambda>_.
        and_then (parse_overrides parse_expr (req_Catalog req) 0 (Overrides opts)) (\<lambda>ovs.
        and_then (validateOverrideImports (opts \<lparr>Overrides := ovs\<rparr>)) (\<lambda>_.
        Inr (opts \<lparr>Overrides := ovs\<rparr>))))))))"

section \<open>Accepted options\<close>

definition public_identifier :: "string \<Rightarrow> bool" where
  "public_identifier s \<longleftrightarrow> validRouteIdentifier s \<and> s \<notin> set goKeywords \<and> first_upper s"

lemma validateIdentifier_Inr:
  "validateIdentifier opt v ex = Inr () \<longleftrightarrow>
    validRouteIdentifier v \<and> v \<notin> set goKeywords \<and> (ex \<longrightarrow> first_upper v)"
  by (auto simp: validateIdentifier_def result_simps)

lemma check_public_pass:
  "foldM (check_public reserved) seen xs = Inr seen' \<Longrightarrow>
    (\<forall>x \<in> set xs. public_identifier (snd x) \<and> snd x \<notin> reserved)
    \<and> distinct (map snd xs) \<and> set (map snd xs) \<inter> dom seen = {}"
proof (induction xs arbitrary: seen)
  case (Cons x xs)
  then obtain s1 where s1: "check_public reserved seen x = Inr s1"
    and rest: "foldM (check_public reserved) s1 xs = Inr seen'" by (auto simp: result_simps)
  have "public_identifier (snd x) \<and> snd x \<notin> reserved \<and> seen (snd x) = None \<and> s1 = seen(snd x \<mapsto> fst x)"
    using s1 by (cases x) (auto simp: check_public_def result_simps validateIdentifier_Inr public_identifier_def
        split: option.splits)
  then show ?case using Cons.IH [OF rest] by auto
qed simp

lemma check_import_pass:
  "foldM check_import paths xs = Inr paths' \<Longrightarrow>
    (\<forall>x \<in> set xs. paths' (snd x) = Some (fst x)) \<and> (\<forall>p q. paths p = Some q \<longrightarrow> paths' p = Some q)"
proof (induction xs arbitrary: paths)
  case (Cons x xs)
  then obtain p1 where p1: "check_import paths x = Inr p1"
    and rest: "foldM check_import p1 xs = Inr paths'" by (auto simp: result_simps)
  have "p1 = paths(snd x \<mapsto> fst x) \<and> (\<forall>q. paths (snd x) = Some q \<longrightarrow> q = fst x)"
    using p1 by (cases x) (auto simp: check_import_def split: option.splits if_splits)
  then show ?case using Cons.IH [OF rest] by (auto split: if_splits)
qed simp

text \<open>
  Options that validation accepts: the four public names are exported identifiers, pairwise
  different, and none of them is a name that every store declares; no import path of generated
  code has two qualifiers; renames are identifiers.
\<close>

definition options_wf :: "options \<Rightarrow> bool" where
  "options_wf opts \<longleftrightarrow>
     \<not> bad_file_name (OutputFileName opts)
     \<and> list_all public_identifier (map snd (public_names opts)) \<and> distinct (map snd (public_names opts))
     \<and> set (map snd (public_names opts))
         \<inter> set (map fst (fixedGeneratedDeclarations (InternalImportPath opts = []))) = {}
     \<and> (\<forall>(q, p) \<in> set (generated_imports opts). \<forall>(q', p') \<in> set (generated_imports opts). p = p' \<longrightarrow> q = q')
     \<and> list_all (\<lambda>(src, r). src \<noteq> [] \<and> validRouteIdentifier r \<and> r \<notin> set goKeywords) (Rename opts)"

lemma check_rename_pass:
  "foldM check_rename () xs = Inr () \<Longrightarrow>
    list_all (\<lambda>(src, r). src \<noteq> [] \<and> validRouteIdentifier r \<and> r \<notin> set goKeywords) xs"
  by (induction xs) (auto simp: result_simps check_rename_def validateIdentifier_Inr)

lemma validateOptions_wf:
  assumes "validateOptions opts = Inr ()"
  shows "options_wf opts"
proof -
  obtain paths seen where p: "foldM check_import Map.empty (generated_imports opts) = Inr paths"
    and s: "foldM (check_public (set (map fst (fixedGeneratedDeclarations (InternalImportPath opts = [])))))
       Map.empty (public_names opts) = Inr seen"
    and fname: "\<not> bad_file_name (OutputFileName opts)" and r: "foldM check_rename () (Rename opts) = Inr ()"
    using assms unfolding validateOptions_def by (auto simp: result_simps)
  have "\<forall>(q, p) \<in> set (generated_imports opts). \<forall>(q', p') \<in> set (generated_imports opts). p = p' \<longrightarrow> q = q'"
  proof (clarify)
    fix q q' path
    assume a: "(q, path) \<in> set (generated_imports opts)" "(q', path) \<in> set (generated_imports opts)"
    have all: "\<forall>x \<in> set (generated_imports opts). paths (snd x) = Some (fst x)"
      using check_import_pass [OF p] by blast
    show "q = q'" using bspec [OF all a(1)] bspec [OF all a(2)] by simp
  qed
  moreover have "list_all public_identifier (map snd (public_names opts))
      \<and> distinct (map snd (public_names opts))
      \<and> set (map snd (public_names opts))
          \<inter> set (map fst (fixedGeneratedDeclarations (InternalImportPath opts = []))) = {}"
    using check_public_pass [OF s] by (auto simp: list_all_iff)
  ultimately show ?thesis using fname check_rename_pass [OF r] unfolding options_wf_def by blast
qed

lemma options_wf_overrides [simp]: "options_wf (opts \<lparr>Overrides := ovs\<rparr>) = options_wf opts"
  by (simp add: options_wf_def public_names_def generated_imports_def fixed_imports_def internalQualifier_def)

lemma parseOptions_wf:
  assumes "parseOptions decode one_value parse_expr req = Inr opts"
  shows "options_wf opts \<and> (\<exists>l \<ge> 0. QueryParameterLimit opts = Some l)"
proof -
  obtain d ovs where v: "validateOptions (apply_defaults req d) = Inr ()"
    and lim: "\<not> the (QueryParameterLimit (apply_defaults req d)) < 0"
    and opts: "opts = apply_defaults req d \<lparr>Overrides := ovs\<rparr>"
    using assms unfolding parseOptions_def by (auto simp: result_simps Let_def)
  have "\<exists>l. QueryParameterLimit (apply_defaults req d) = Some l" by (simp add: apply_defaults_def)
  with lim validateOptions_wf [OF v] show ?thesis unfolding opts by auto
qed

text \<open>With accepted options no public name hides a declaration that every store has.\<close>

lemma generated_declarations_complete:
  assumes "options_wf opts"
  shows "dom (generatedDeclarations opts) =
      set (map fst (fixedGeneratedDeclarations (InternalImportPath opts = [])))
      \<union> set (map snd (public_names opts))
    \<and> (\<forall>n \<in> set (map fst (fixedGeneratedDeclarations (InternalImportPath opts = []))).
         generatedDeclarations opts n = map_of (fixedGeneratedDeclarations (InternalImportPath opts = [])) n)"
proof -
  let ?fixed = "fixedGeneratedDeclarations (InternalImportPath opts = [])"
  have "set (map snd (public_names opts)) \<inter> set (map fst ?fixed) = {}"
    using assms by (simp only: options_wf_def)
  then have no: "n \<notin> set (map snd (public_names opts))" if "n \<in> set (map fst ?fixed)" for n
    using that by blast
  have "generatedDeclarations opts n = map_of ?fixed n" if "n \<notin> set (map snd (public_names opts))" for n
    using that by (simp add: generatedDeclarations_def public_names_def)
  moreover have "dom (generatedDeclarations opts) = set (map fst ?fixed) \<union> set (map snd (public_names opts))"
    by (auto simp: generatedDeclarations_def public_names_def dom_map_of_conv_image_fst)
  ultimately show ?thesis using no by simp
qed

end
