(* ===== verification/Plugin_Emission.thy ===== *)
theory Plugin_Emission
  imports Store_Groups Plugin_Options
begin

text \<open>
  Emission of the generated files, \<^verbatim>\<open>aliases.go\<close>, the file-level half of \<^verbatim>\<open>emission.go\<close> and
  \<^verbatim>\<open>Generate\<close> of \<^verbatim>\<open>plugin.go\<close>: which files a request yields, under which names, with which
  imports, and the checks before anything is written. \<^verbatim>\<open>go/format\<close> and the type expression parser
  of \<^verbatim>\<open>go/parser\<close> are parameters. The texts of the store configuration, of the group methods and
  of the sharded topology are parameters too: their output, generated for the repository's example
  stores, is modelled as code in the theories on generated stores.
\<close>

section \<open>Signatures\<close>

definition paramsSignature :: "argument list \<Rightarrow> string" where
  "paramsSignature params = join_with '', '' (map (\<lambda>p. arg_name p @ '' '' @ arg_typ p) params)"

definition storeParamsSignature :: "argument list \<Rightarrow> string" where
  "storeParamsSignature params =
     (let signature = paramsSignature params
      in (if signature \<noteq> [] then signature @ '', '' else signature) @ ''storeOptions ...QueryOption'')"

definition resultsSignature :: "string list \<Rightarrow> string" where
  "resultsSignature results =
     (case results of
        [] \<Rightarrow> []
      | [r] \<Rightarrow> '' '' @ r
      | _ \<Rightarrow> '' ('' @ join_with '', '' results @ '')'')"

definition callArguments :: "argument list \<Rightarrow> string" where
  "callArguments params = join_with '', '' (map arg_name params)"

definition resultVariables :: "nat \<Rightarrow> string list" where
  "resultVariables cnt = map (\<lambda>i. ''rv'' @ Itoa i) [0..<cnt]"

definition appendResultError :: "string list \<Rightarrow> string list" where
  "appendResultError vars = vars @ [''err'']"

text \<open>With no variable at all the index \<open>count-1\<close> is out of range, a panic.\<close>

definition discardVariables :: "nat \<Rightarrow> string list option" where
  "discardVariables cnt = (if cnt = 0 then None else Some (replicate (cnt - 1) ''_'' @ [''err'']))"

definition exportedSQLCTypes :: "options \<Rightarrow> string list \<Rightarrow> string list" where
  "exportedSQLCTypes opts types = map (exportedSQLCType opts) types"

definition exportedSQLCArguments :: "options \<Rightarrow> argument list \<Rightarrow> argument list" where
  "exportedSQLCArguments opts arguments =
     map (\<lambda>a. \<lparr>arg_name = arg_name a, arg_typ = exportedSQLCType opts (arg_typ a)\<rparr>) arguments"

section \<open>Type aliases of sqlc types\<close>

text \<open>
  The parameter \<open>selectors\<close> is the use of \<^verbatim>\<open>parser.ParseExpr\<close> and \<^verbatim>\<open>ast.Inspect\<close>: the selector
  expressions \<open>package.Name\<close> in the text of a type, or the error of the parser.
\<close>

type_synonym type_selectors = "string \<Rightarrow> (string \<times> string) list result"

definition add_type :: "type_selectors \<Rightarrow> string \<Rightarrow> string list \<Rightarrow> string \<Rightarrow> string list result" where
  "add_type selectors qualifier aliases typ =
     (if typ = [] then Inr aliases
      else case selectors typ of
             Inl e \<Rightarrow> Inl (Wrap ''parse generated Go type %q for sqlc aliases: %w'' [ArgStr typ] e)
           | Inr sels \<Rightarrow> Inr (map snd (filter (\<lambda>(x, n). x = qualifier \<and> first_upper n) sels) @ aliases))"

text \<open>The types of a query in the order the code adds them.\<close>

definition alias_types :: "options \<Rightarrow> generatedQuery \<Rightarrow> string list" where
  "alias_types opts q =
     map arg_typ (gq_params q) @ gq_results q
     @ (case gq_route q of None \<Rightarrow> [] | Some r \<Rightarrow> map ro_typ (sr_operands r))
     @ (case gq_shardArgs q of None \<Rightarrow> [] | Some w \<Rightarrow> map gf_typ (sw_fields w))
     @ (if qv_emit (gq_arg q) then [defineType (gq_arg q) opts] else [])
     @ map gf_typ (struct_fields (gq_arg q))
     @ [defineType (gq_ret q) opts]
     @ map gf_typ (struct_fields (gq_ret q))"

definition add_enums :: "options \<Rightarrow> catalog \<Rightarrow> string list \<Rightarrow> string list" where
  "add_enums opts cat aliases =
     fold (\<lambda>sch al.
         if skippedSchema (sch_Name sch) then al
         else fold (\<lambda>enum al.
             let nm = structName (if sch_Name sch \<noteq> cat_DefaultSchema cat then sch_Name sch @ ''_'' @ enum
                                  else enum) opts
             in if (''Null'' @ nm) \<in> set al then nm # al else al) (sch_Enums sch) al)
       (cat_Schemas cat) aliases"

definition collectSQLCTypeAliases ::
  "type_selectors \<Rightarrow> options \<Rightarrow> generatedQuery list \<Rightarrow> catalog \<Rightarrow> string list result" where
  "collectSQLCTypeAliases selectors opts queries cat =
     (if \<not> ExportSQLCTypes opts then Inr []
      else and_then (foldM (add_type selectors (internalQualifier opts)) [] (concat (map (alias_types opts) queries)))
             (\<lambda>aliases. Inr (sort (remdups (add_enums opts cat aliases)))))"

definition alias_declarations :: "options \<Rightarrow> generatedQuery list \<Rightarrow> queryGroup list \<Rightarrow> declarations" where
  "alias_declarations opts queries groups =
     fold (\<lambda>q d.
         let d = (if gq_command q = '':copyfrom''
                  then d(copyBatchOptionName (gq_methodName q) \<mapsto> ''copy batch option for '' @ gq_methodName q) else d);
             d = (case gq_route q of None \<Rightarrow> d | Some r \<Rightarrow> d(sr_methodName r \<mapsto> key_owner r));
             d = (case gq_storeParamAlias q of None \<Rightarrow> d
                  | Some a \<Rightarrow> d(pa_name a \<mapsto> ''store parameter alias for '' @ gq_methodName q))
         in (case gq_shardArgs q of None \<Rightarrow> d
             | Some w \<Rightarrow> d(sw_name w \<mapsto> ''shard parameter wrapper for '' @ gq_methodName q)))
       queries
       (fold (\<lambda>g d. fold (\<lambda>n d. d(n \<mapsto> ''store group '' @ sg_name g)) (group_names g) d)
          groups (generatedDeclarations opts))"

definition validateSQLCTypeAliases ::
  "options \<Rightarrow> generatedQuery list \<Rightarrow> queryGroup list \<Rightarrow> string list \<Rightarrow> unit result" where
  "validateSQLCTypeAliases opts queries groups aliases =
     foldM (\<lambda>_ alias. case alias_declarations opts queries groups alias of
         Some declaration \<Rightarrow>
           Inl (Errorf ''export_sqlc_types cannot alias sqlc type %s because it conflicts with %s''
                  [ArgStr alias, ArgStr declaration])
       | None \<Rightarrow> Inr ()) () aliases"

section \<open>Text of the small declarations\<close>

text \<open>
  One line of output: a number of tabs, the parts, a newline.
\<close>

definition ln :: "nat \<Rightarrow> string list \<Rightarrow> string" where
  "ln tabs parts = replicate tabs CHR 0x09 @ concat parts @ [CHR 0x0A]"

definition blank :: string where "blank = [CHR 0x0A]"

definition writeSQLCTypeAliases :: "options \<Rightarrow> string list \<Rightarrow> string" where
  "writeSQLCTypeAliases opts aliases = concat (map (\<lambda>a.
     ln 0 [''// '', a, '' re-exports '', a, '' from the sqlc package.'']
     @ ln 0 [''type '', a, '' = '', internalQualifier opts, ''.'', a] @ blank) aliases)"

definition writeSplitInterface :: "string \<Rightarrow> generatedQuery list \<Rightarrow> annotKind \<Rightarrow> string" where
  "writeSplitInterface nm queries kind =
     ln 0 [''// '', nm, '' exposes generated '', (case kind of queryKindRead \<Rightarrow> ''read'' | queryKindWrite \<Rightarrow> ''write''),
           '' queries.'']
     @ ln 0 [''type '', nm, '' interface {'']
     @ concat (map (\<lambda>q.
          ln 1 [''// '', gq_methodName q, '' executes the generated '', gq_methodName q, '' query.'']
          @ ln 1 [gq_methodName q, ''('', paramsSignature (gq_params q), '')'', resultsSignature (gq_results q)])
        (filter (\<lambda>q. gq_kind q = kind) queries))
     @ ln 0 [''}''] @ blank"

definition writeQueryInterfaces :: "options \<Rightarrow> generatedQuery list \<Rightarrow> queryGroup list \<Rightarrow> string" where
  "writeQueryInterfaces opts queries groups =
     writeSplitInterface ''readQuerier'' queries queryKindRead
     @ writeSplitInterface ''writeQuerier'' queries queryKindWrite
     @ ln 0 [''// '', StoreInterfaceName opts, '' is the topology-independent generated query API.'']
     @ ln 0 [''type '', StoreInterfaceName opts, '' interface {'']
     @ concat (map (\<lambda>g.
          ln 1 [''// '', sg_name g, '' returns the '', sg_name g, '' query group.'']
          @ ln 1 [sg_name g, ''() '', sg_name g]) groups)
     @ ln 0 [''}''] @ blank
     @ ln 0 [''var _ readQuerier = (*readQueries)(nil)'']
     @ ln 0 [''var _ writeQuerier = (*writeQueries)(nil)'']
     @ ln 0 [''var _ '', targetName opts ''Querier'', '' = (*queryStore)(nil)''] @ blank"

definition writeStructField :: "options \<Rightarrow> string \<Rightarrow> string \<Rightarrow> string \<Rightarrow> string" where
  "writeStructField opts nm typ dbName =
     ln 1 [nm, '' '', typ, (if EmitJSONTags opts then '' `json:'' @ quote dbName @ ''`'' else [])]"

definition writeShardKeyTypes :: "options \<Rightarrow> shardRoute list \<Rightarrow> string" where
  "writeShardKeyTypes opts routes = concat (map (\<lambda>r.
     ln 0 [''// '', sr_methodName r, '' is the shared shard key for the '', quote (sr_name r), '' route.'']
     @ ln 0 [''type '', sr_methodName r, '' struct {'']
     @ concat (map (\<lambda>op. writeStructField opts (ro_fieldName op) (exportedSQLCType opts (ro_typ op)) (ro_dbName op))
         (sr_operands r))
     @ ln 0 [''}''] @ blank) routes)"

definition writeShardResolverInterface :: "options \<Rightarrow> shardRoute list \<Rightarrow> string" where
  "writeShardResolverInterface opts routes =
     ln 0 [''// '', ResolverInterfaceName opts, '' resolves generated query parameters to shard keys.'']
     @ ln 0 [''type '', ResolverInterfaceName opts, ''[SK any] interface {'']
     @ concat (map (\<lambda>r.
          ln 1 [''// '', sr_methodName r, '' resolves the '', quote (sr_name r), '' shard route.'']
          @ ln 1 [sr_methodName r, ''(key '', sr_methodName r, '') SK'']) routes)
     @ ln 0 [''}''] @ blank"

section \<open>Text of the query wrappers\<close>

definition mirror_call :: "options \<Rightarrow> string \<Rightarrow> string" where
  "mirror_call opts before = ln 1 [before, ''q.mirror(func(mirror *'', targetName opts ''Queries'', '') error {'']"

definition writeQueryMethodBody :: "options \<Rightarrow> generatedQuery \<Rightarrow> bool \<Rightarrow> string" where
  "writeQueryMethodBody opts q mirror =
     (let args = callArguments (gq_params q);
          call = (\<lambda>target. target @ ''.'' @ gq_methodName q @ ''('' @ args @ '')'')
      in if \<not> lastResultIsError (gq_results q) then ln 1 [''return '', call ''q.main'']
         else let nonError = butlast (gq_results q)
         in if nonError = [] then
              ln 1 [''if err := '', call ''q.main'', ''; err != nil {''] @ ln 2 [''return err''] @ ln 1 [''}'']
              @ (if \<not> mirror then ln 1 [''return nil'']
                 else if IgnoreMirrorError opts then
                   mirror_call opts ''_ = '' @ ln 2 [''return '', call ''mirror''] @ ln 1 [''})''] @ ln 1 [''return nil'']
                 else mirror_call opts ''return '' @ ln 2 [''return '', call ''mirror''] @ ln 1 [''})''])
            else
              let resultVars = resultVariables (length nonError);
                  discarded = join_with '', '' (the (discardVariables (length nonError + 1)))
              in ln 1 [join_with '', '' (appendResultError resultVars), '' := '', call ''q.main'']
                 @ ln 1 [''if err != nil {'']
                 @ concat (map (\<lambda>(i, r). ln 2 [''var zero'', Itoa i, '' '', r]) (enumerate 0 nonError))
                 @ ln 2 [''return '', join_with '', '' (map (\<lambda>i. ''zero'' @ Itoa i) [0..<length nonError]), '', err'']
                 @ ln 1 [''}'']
                 @ (if \<not> mirror then ln 1 [''return '', join_with '', '' resultVars, '', nil'']
                    else if IgnoreMirrorError opts then
                      mirror_call opts ''_ = '' @ ln 2 [discarded, '' := '', call ''mirror''] @ ln 2 [''return err'']
                      @ ln 1 [''})''] @ ln 1 [''return '', join_with '', '' resultVars, '', nil'']
                    else
                      mirror_call opts ''mirrorErr := '' @ ln 2 [discarded, '' := '', call ''mirror''] @ ln 2 [''return err'']
                      @ ln 1 [''})''] @ ln 1 [''return '', join_with '', '' resultVars, '', mirrorErr'']))"

definition writeQueryMethods ::
  "options \<Rightarrow> string \<Rightarrow> generatedQuery list \<Rightarrow> annotKind \<Rightarrow> bool \<Rightarrow> string" where
  "writeQueryMethods opts receiverType queries kind mirror = concat (map (\<lambda>q.
     ln 0 [''// '', gq_methodName q, '' executes the generated '', gq_methodName q, '' query.'']
     @ ln 0 [''func (q *'', receiverType, '') '', gq_methodName q, ''('', paramsSignature (gq_params q), '')'',
             resultsSignature (gq_results q), '' {'']
     @ writeQueryMethodBody opts q mirror
     @ ln 0 [''}''] @ blank) (filter (\<lambda>q. gq_kind q = kind) queries))"

definition writeReadQueries :: "options \<Rightarrow> generatedQuery list \<Rightarrow> string" where
  "writeReadQueries opts queries =
     (let target = targetName opts ''Queries''
      in ln 0 [''// readQueries exposes read-only generated queries.'']
         @ ln 0 [''type readQueries struct {''] @ ln 1 [''main *'', target] @ ln 0 [''}''] @ blank
         @ ln 0 [''func newReadQueries(q *'', target, '') *readQueries {'']
         @ ln 1 [''return &readQueries{main: q}''] @ ln 0 [''}''] @ blank
         @ ln 0 [''// WithTx returns a read wrapper that executes queries through tx.'']
         @ ln 0 [''func (q *readQueries) WithTx(tx pgx.Tx) *readQueries {'']
         @ ln 1 [''return newReadQueries(q.main.WithTx(tx))''] @ ln 0 [''}''] @ blank
         @ writeQueryMethods opts ''readQueries'' queries queryKindRead False)"

definition write_mirror_method :: "options \<Rightarrow> string" where
  "write_mirror_method opts =
     ln 0 [''func (q *writeQueries) mirror(fn func(*'', targetName opts ''Queries'', '') error) error {'']
     @ ln 1 [''for _, mirror := range q.mirrors {'']
     @ ln 2 [''if err := fn(mirror); err != nil {'']
     @ (if IgnoreMirrorError opts then ln 3 [''continue'']
        else ln 3 [''if errors.Is(err, sql.ErrNoRows) {''] @ ln 4 [''continue''] @ ln 3 [''}''] @ ln 3 [''return err''])
     @ ln 2 [''}''] @ ln 1 [''}''] @ ln 1 [''return nil''] @ ln 0 [''}''] @ blank"

definition writeWriteQueries :: "options \<Rightarrow> generatedQuery list \<Rightarrow> string" where
  "writeWriteQueries opts queries =
     (let target = targetName opts ''Queries''
      in ln 0 [''// writeQueries exposes primary-capable generated queries.'']
         @ ln 0 [''type writeQueries struct {''] @ ln 1 [''main *'', target] @ ln 1 [''mirrors []*'', target]
         @ ln 0 [''}''] @ blank
         @ ln 0 [''func newWriteQueries(q *'', target, '', mirrors ...*'', target, '') *writeQueries {'']
         @ ln 1 [''return &writeQueries{main: q, mirrors: mirrors}''] @ ln 0 [''}''] @ blank
         @ ln 0 [''// WithTx returns a write wrapper that executes queries through tx.'']
         @ ln 0 [''func (q *writeQueries) WithTx(tx pgx.Tx) *writeQueries {'']
         @ ln 1 [''return newWriteQueries(q.main.WithTx(tx))''] @ ln 0 [''}''] @ blank
         @ ln 0 [''// WithMirrors returns a copy that also writes to the supplied mirrors.'']
         @ ln 0 [''func (q *writeQueries) WithMirrors(qs ...*writeQueries) *writeQueries {'']
         @ ln 1 [''var mirrors []*'', target]
         @ ln 1 [''mirrors = append(mirrors, q.mirrors...)'']
         @ ln 1 [''for _, mirror := range qs {'']
         @ ln 2 [''if mirror == nil {''] @ ln 3 [''continue''] @ ln 2 [''}'']
         @ ln 2 [''mirrors = append(mirrors, mirror.main)'']
         @ ln 2 [''mirrors = append(mirrors, mirror.mirrors...)'']
         @ ln 1 [''}'']
         @ ln 1 [''return newWriteQueries(q.main, mirrors...)''] @ ln 0 [''}''] @ blank
         @ write_mirror_method opts
         @ writeQueryMethods opts ''writeQueries'' queries queryKindWrite True)"

definition writeQueryStore :: "options \<Rightarrow> string" where
  "writeQueryStore opts =
     (let target = targetName opts ''Queries''
      in ln 0 [''type queryStore struct {''] @ ln 1 [''*readQueries''] @ ln 1 [''*writeQueries''] @ ln 0 [''}''] @ blank
         @ ln 0 [''func newQueryStore(q *'', target, '', mirrors ...*'', target, '') *queryStore {'']
         @ ln 1 [''return &queryStore{'']
         @ ln 2 [''readQueries:  newReadQueries(q),'']
         @ ln 2 [''writeQueries: newWriteQueries(q, mirrors...),'']
         @ ln 1 [''}''] @ ln 0 [''}''] @ blank
         @ ln 0 [''// WithTx returns a store wrapper that executes queries through tx.'']
         @ ln 0 [''func (q *queryStore) WithTx(tx pgx.Tx) *queryStore {'']
         @ ln 1 [''return newQueryStore(q.writeQueries.main.WithTx(tx))''] @ ln 0 [''}''] @ blank
         @ ln 0 [''// WithMirrors returns a copy that also writes to the supplied mirrors.'']
         @ ln 0 [''func (q *queryStore) WithMirrors(qs ...*queryStore) *queryStore {'']
         @ ln 1 [''var mirrors []*'', target]
         @ ln 1 [''mirrors = append(mirrors, q.writeQueries.mirrors...)'']
         @ ln 1 [''for _, mirror := range qs {'']
         @ ln 2 [''if mirror == nil || mirror.writeQueries == nil {''] @ ln 3 [''continue''] @ ln 2 [''}'']
         @ ln 2 [''mirrors = append(mirrors, mirror.writeQueries.main)'']
         @ ln 2 [''mirrors = append(mirrors, mirror.writeQueries.mirrors...)'']
         @ ln 1 [''}'']
         @ ln 1 [''return newQueryStore(q.writeQueries.main, mirrors...)''] @ ln 0 [''}''] @ blank)"

definition writeQueryOptions :: string where
  "writeQueryOptions =
     ln 0 [''type queryOptions struct {''] @ ln 1 [''primary bool''] @ ln 1 [''tx pgx.Tx''] @ ln 0 [''}''] @ blank
     @ ln 0 [''// QueryOption customizes routing for one generated query call.'']
     @ ln 0 [''type QueryOption func(*queryOptions)''] @ blank
     @ ln 0 [''// ReadFromPrimary routes a read query to the primary database.'']
     @ ln 0 [''func ReadFromPrimary() QueryOption {'']
     @ ln 1 [''return func(options *queryOptions) { options.primary = true }''] @ ln 0 [''}''] @ blank
     @ ln 0 [''// WithTx executes a query through tx and suppresses write mirrors.'']
     @ ln 0 [''func WithTx(tx pgx.Tx) QueryOption {'']
     @ ln 1 [''return func(options *queryOptions) { options.tx = tx }''] @ ln 0 [''}''] @ blank
     @ ln 0 [''func applyQueryOptions(options ...QueryOption) queryOptions {'']
     @ ln 1 [''var result queryOptions'']
     @ ln 1 [''for _, option := range options {'']
     @ ln 2 [''if option != nil { option(&result) }'']
     @ ln 1 [''}''] @ ln 1 [''return result''] @ ln 0 [''}''] @ blank"

definition writeNodeConstructor :: "options \<Rightarrow> string" where
  "writeNodeConstructor opts =
     ln 0 [''func newStoreNode(database '', targetName opts ''DBTX'', '') pgmesh.Node[*readQueries, *queryStore] {'']
     @ ln 1 [''queries := '', targetName opts ''New'', ''(database)'']
     @ ln 1 [''return pgmesh.NewNode(newReadQueries(queries), newQueryStore(queries))'']
     @ ln 0 [''}''] @ blank"

section \<open>Text of the store groups\<close>

definition writeStoreInterfaceMethod :: "options \<Rightarrow> generatedQuery \<Rightarrow> string" where
  "writeStoreInterfaceMethod opts q =
     (let params = exportedSQLCArguments opts (gq_storeParams q); m = gq_methodName q
      in ln 1 [''// '', m, '' executes the generated '', m, '' query.'']
         @ ln 1 [m, ''('', storeParamsSignature params, '')'', resultsSignature (exportedSQLCTypes opts (gq_results q))]
         @ (if gq_command q \<noteq> '':copyfrom'' then []
            else ln 1 [''// '', copyAsyncMethodName m, '' accepts rows for asynchronous COPY.'']
                 @ ln 1 [copyAsyncMethodName m, ''('', paramsSignature params, '') *pgmesh.Future[int64]'']
                 @ ln 1 [''// '', copyFlushMethodName m, '' drains asynchronous submissions accepted before its barrier.'']
                 @ ln 1 [copyFlushMethodName m, ''(ctx context.Context) error'']))"

definition writeStoreGroupInterfaces :: "options \<Rightarrow> queryGroup \<Rightarrow> string" where
  "writeStoreGroupInterfaces opts g =
     (let reader = storeReaderInterfaceName (sg_name g); writer = storeWriterInterfaceName (sg_name g);
          methods = (\<lambda>kind. concat (map (writeStoreInterfaceMethod opts) (filter (\<lambda>q. gq_kind q = kind) (sg_queries g))))
      in ln 0 [''// '', reader, '' exposes read queries in the '', sg_name g, '' store group.'']
         @ ln 0 [''type '', reader, '' interface {''] @ methods queryKindRead @ ln 0 [''}''] @ blank
         @ ln 0 [''// '', writer, '' exposes write queries in the '', sg_name g, '' store group.'']
         @ ln 0 [''type '', writer, '' interface {''] @ methods queryKindWrite @ ln 0 [''}''] @ blank
         @ ln 0 [''// '', sg_name g, '' exposes all queries in its generated store group.'']
         @ ln 0 [''type '', sg_name g, '' interface {''] @ ln 1 [reader] @ ln 1 [writer] @ ln 0 [''}''] @ blank)"

definition writeStoreParamAliases :: "generatedQuery list \<Rightarrow> string" where
  "writeStoreParamAliases queries = concat (map (\<lambda>q.
     case gq_storeParamAlias q of None \<Rightarrow> []
     | Some a \<Rightarrow>
         ln 0 [''// '', pa_name a, '' is the store parameter type for '', gq_methodName q, ''.'']
         @ ln 0 [''type '', pa_name a, '' = '', pa_target a] @ blank) queries)"

definition writeCopyBatchTypesAndOptions :: "generatedQuery list \<Rightarrow> string" where
  "writeCopyBatchTypesAndOptions queries = concat (map (\<lambda>q.
     let m = gq_methodName q
     in ln 0 [''type '', copyBatchStateTypeName m, '' struct {'']
        @ ln 1 [''mu sync.Mutex''] @ ln 1 [''enabled bool'']
        @ ln 1 [''batchers map[string]*pgmesh.CopyBatcher['', copyRowType q, '']''] @ ln 0 [''}''] @ blank
        @ ln 0 [''// '', copyBatchOptionName m, '' enables asynchronous micro-batching for '', m, ''.'']
        @ ln 0 [''func '', copyBatchOptionName m, ''(config pgmesh.CopyBatchConfig) StoreOption {'']
        @ ln 1 [''configured := config'']
        @ ln 1 [''return func(options *storeOptions) { options.copyBatching.'', copyBatchConfigFieldName m,
                '' = &configured }'']
        @ ln 0 [''}''] @ blank)
     (filter (\<lambda>q. gq_command q = '':copyfrom'') queries))"

text \<open>The reconstructor of the sqlc parameters; a parameter without a struct type is a nil dereference.\<close>

definition writeSQLCArgReconstructor :: "options \<Rightarrow> shardArgWrapper \<Rightarrow> string option" where
  "writeSQLCArgReconstructor opts w =
     (let a = sw_sqlcArg w
      in if value_isEmpty a then Some []
         else case qv_structType a of None \<Rightarrow> None
         | Some s \<Rightarrow> Some (
             ln 0 [''func (arg '', (if qv_emitPointer a then ''*'' else []), sw_name w, '') sqlcParams() '',
                   defineType a opts, '' {'']
             @ ln 1 [''return '', (if qv_emitPointer a then ''&'' else []), targetName opts (gs_name s), ''{'']
             @ concat (map (\<lambda>f. ln 2 [gf_name f, '': '',
                  (case map_of (sw_sqlcFieldExpressions w) (gf_name f) of None \<Rightarrow> [] | Some e \<Rightarrow> e), '','']) (gs_fields s))
             @ ln 1 [''}''] @ ln 0 [''}''] @ blank))"

fun concat_some :: "string option list \<Rightarrow> string option" where
  "concat_some [] = Some []"
| "concat_some (x # xs) =
     (case x of None \<Rightarrow> None | Some s \<Rightarrow> (case concat_some xs of None \<Rightarrow> None | Some t \<Rightarrow> Some (s @ t)))"

definition write_wrapper :: "options \<Rightarrow> generatedQuery \<Rightarrow> string option" where
  "write_wrapper opts q =
     (case gq_shardArgs q of None \<Rightarrow> Some []
      | Some w \<Rightarrow> concat_some [
          Some (ln 0 [''// '', sw_name w, '' combines SQL and routing parameters for '', gq_methodName q, ''.'']
            @ ln 0 [''type '', sw_name w, '' struct {''] @ ln 1 [sw_shardKeyType w]
            @ concat (map (\<lambda>f. writeStructField opts (gf_name f) (exportedSQLCType opts (gf_typ f)) (gf_dbName f))
                (sw_fields w))
            @ ln 0 [''}''] @ blank),
          writeSQLCArgReconstructor opts w])"

definition writeShardArgWrappers :: "options \<Rightarrow> generatedQuery list \<Rightarrow> string option" where
  "writeShardArgWrappers opts queries = concat_some (map (write_wrapper opts) queries)"

text \<open>
  The texts this theory does not spell out: the telemetry wrapper of a group, the routed method of a
  query, the two asynchronous methods of a COPY query, the store configuration, the topology.
\<close>

record text_writers =
  storeTelemetryWrapper :: "options \<Rightarrow> queryGroup \<Rightarrow> string"
  meshStoreQueryMethod :: "options \<Rightarrow> generatedQuery \<Rightarrow> string"
  asyncCopyQueryMethods :: "generatedQuery \<Rightarrow> string"
  storeConfiguration :: "options \<Rightarrow> generatedQuery list \<Rightarrow> queryGroup list \<Rightarrow> string"
  shardedStore :: "options \<Rightarrow> queryGroup list \<Rightarrow> string"

definition writeStoreGroup :: "text_writers \<Rightarrow> options \<Rightarrow> queryGroup \<Rightarrow> string option" where
  "writeStoreGroup tw opts g =
     (let n = sg_name g; qs = sg_queries g
      in concat_some [
           Some (writeStoreParamAliases qs), writeShardArgWrappers opts qs,
           Some (writeCopyBatchTypesAndOptions qs
             @ writeStoreGroupInterfaces opts g
             @ storeTelemetryWrapper tw opts g
             @ ln 0 [''// '', storeFactoryOptionName n, '' configures an optional wrapper for the '', n, '' query group.'']
             @ ln 0 [''// A nil factory leaves the generated query group unwrapped.'']
             @ ln 0 [''func '', storeFactoryOptionName n, ''(create'', n, '' func('', n, '') '', n, '') StoreOption {'']
             @ ln 1 [''return func(options *storeOptions) { options.factories.'', n, '' = create'', n, '' }'']
             @ ln 0 [''}''] @ blank
             @ ln 0 [''var _ '', n, '' = (*groupedMeshStore[uint8])(nil)'']
             @ ln 0 [''var _ '', n, '' = (*'', storeTelemetryTypeName n, ''[uint8])(nil)''] @ blank
             @ ln 0 [''// '', n, '' returns the '', n, '' query group.'']
             @ ln 0 [''func (q *meshStore[SK]) '', n, ''() '', n, '' {'']
             @ ln 1 [''return q.groups.'', n] @ ln 0 [''}''] @ blank
             @ concat (map (\<lambda>q. meshStoreQueryMethod tw opts q
                 @ (if gq_command q = '':copyfrom'' then asyncCopyQueryMethods tw q else [])) qs))])"

section \<open>File names\<close>

definition derivedOutputFileName :: "string \<Rightarrow> string \<Rightarrow> string" where
  "derivedOutputFileName outputFileName sec =
     (let ext = path_Ext outputFileName
      in TrimSuffix outputFileName ext @ ''_'' @ sec @ ext)"

lemma length_derived:
  "length (derivedOutputFileName out sec) = length (derivedOutputFileName out []) + length sec"
  by (simp add: derivedOutputFileName_def Let_def)

text \<open>
  The loop that puts \<^verbatim>\<open>group_\<close> before a section until the file name is free. Every turn makes the
  candidate longer, so fewer used names can be equal to a later candidate.
\<close>

function group_file_name :: "string \<Rightarrow> string list \<Rightarrow> string \<Rightarrow> string" where
  "group_file_name out used sec =
     (let nm = derivedOutputFileName out sec
      in if ToLower nm \<in> set used then group_file_name out used (''group_'' @ sec) else nm)"
  by pat_completeness auto
termination
proof (relation "measure (\<lambda>(out, used, sec).
    card {u \<in> set used. length (derivedOutputFileName out sec) \<le> length u})")
  fix out sec :: string and used nm
  assume nm: "nm = derivedOutputFileName out sec" and used: "ToLower nm \<in> set used"
  let ?S = "\<lambda>s. {u \<in> set used. length (derivedOutputFileName out s) \<le> length u}"
  have len: "length (derivedOutputFileName out (''group_'' @ sec)) = length nm + 6"
    by (subst (1) length_derived, subst nm, subst (2) length_derived) simp
  have "ToLower nm \<in> ?S sec" "ToLower nm \<notin> ?S (''group_'' @ sec)"
    using used len by (simp_all add: nm)
  moreover have "?S (''group_'' @ sec) \<subseteq> ?S sec" using len by (auto simp: nm)
  ultimately have "?S (''group_'' @ sec) \<subset> ?S sec" by blast
  then show "((out, used, ''group_'' @ sec), out, used, sec) \<in> measure (\<lambda>(out, used, sec).
      card {u \<in> set used. length (derivedOutputFileName out sec) \<le> length u})"
    by (simp add: psubset_card_mono)
qed auto

declare group_file_name.simps [simp del]

fun group_file_names :: "string \<Rightarrow> string list \<Rightarrow> queryGroup list \<Rightarrow> string list" where
  "group_file_names out used [] = []"
| "group_file_names out used (g # gs) =
     (let nm = group_file_name out used (snakeCaseIdentifier (sg_name g))
      in nm # group_file_names out (ToLower nm # used) gs)"

definition fixed_file_names :: "string \<Rightarrow> string list" where
  "fixed_file_names out =
     out # map (derivedOutputFileName out) [''interfaces'', ''read'', ''write'', ''sharded'']"

definition storeGroupOutputFileNames :: "string \<Rightarrow> queryGroup list \<Rightarrow> string list" where
  "storeGroupOutputFileNames out groups = group_file_names out (map ToLower (fixed_file_names out)) groups"

section \<open>Files\<close>

definition importAlias :: "string \<Rightarrow> string" where
  "importAlias alias = (if alias = [] \<or> alias = ''internal'' then [] else alias)"

definition usedImports :: "import_spec list \<Rightarrow> string \<Rightarrow> import_spec list" where
  "usedImports imps body =
     filter (\<lambda>i. Contains body ((if imp_name i = [] then packageNameForImport (imp_path i) else imp_name i) @ ''.'')) imps"

definition writeImports :: "import_spec list \<Rightarrow> string" where
  "writeImports imps =
     (if imps = [] then []
      else ln 0 [''import ('']
           @ concat (map (\<lambda>i. if imp_name i \<noteq> [] then ln 1 [imp_name i, '' '', quote (imp_path i)]
                              else ln 1 [quote (imp_path i)]) imps)
           @ ln 0 ['')''] @ blank)"

definition generateFile :: "(string \<Rightarrow> string result) \<Rightarrow> options \<Rightarrow> import_set \<Rightarrow> string \<Rightarrow> string result" where
  "generateFile format opts imps body =
     (case format (ln 0 [''// Code generated by pgmesh. DO NOT EDIT.''] @ blank
                   @ ln 0 [''package '', PackageName opts] @ blank
                   @ writeImports (usedImports (imports_sorted imps) body) @ body) of
        Inl e \<Rightarrow> Inl (Wrap ''format generated wrapper: %w'' [] e)
      | Inr formatted \<Rightarrow> Inr formatted)"

record plugin_file =
  pf_Name :: string
  pf_Contents :: string

text \<open>A body that panics stops the generation.\<close>

fun append_files ::
  "(string \<Rightarrow> string result) \<Rightarrow> options \<Rightarrow> import_set \<Rightarrow> (string \<times> string option) list \<Rightarrow>
   plugin_file list result option" where
  "append_files format opts imps [] = Some (Inr [])"
| "append_files format opts imps ((nm, body) # rest) =
     (case body of None \<Rightarrow> None
      | Some txt \<Rightarrow>
          (case generateFile format opts imps txt of
             Inl e \<Rightarrow> Some (Inl e)
           | Inr content \<Rightarrow>
               (case append_files format opts imps rest of
                  None \<Rightarrow> None
                | Some (Inl e) \<Rightarrow> Some (Inl e)
                | Some (Inr files) \<Rightarrow> Some (Inr (\<lparr>pf_Name = nm, pf_Contents = content\<rparr> # files)))))"

definition hasShardOperations :: "generatedQuery list \<Rightarrow> bool" where
  "hasShardOperations queries \<longleftrightarrow> list_ex (\<lambda>q. gq_shardMode q \<noteq> shardModeNone) queries"

definition wrapper_imports :: "options \<Rightarrow> import_set \<Rightarrow> import_set" where
  "wrapper_imports opts imps =
     (let imps = (if InternalImportPath opts \<noteq> []
                  then addNamed (importAlias (InternalImportAlias opts)) (InternalImportPath opts) imps else imps);
          imps = addNamed ''pgmesh'' (RuntimeImportPath opts) imps;
          imps = fold import_add [''context'', ''errors'', ''fmt'', ''reflect'', ''log/slog'', ''sync'',
            ''go.opentelemetry.io/otel/metric'', ''go.opentelemetry.io/otel/trace'', ''github.com/jackc/pgx/v5''] imps
      in if IgnoreMirrorError opts then imps else fold import_add [''database/sql'', ''errors''] imps)"

definition wrapper_bodies ::
  "text_writers \<Rightarrow> options \<Rightarrow> generatedQuery list \<Rightarrow> shardRoute list \<Rightarrow> queryGroup list \<Rightarrow> string list \<Rightarrow>
   (string \<times> string option) list" where
  "wrapper_bodies tw opts queries routes groups aliases =
     (let out = OutputFileName opts; sharded = hasShardOperations queries
      in [(derivedOutputFileName out ''interfaces'', Some (
             writeSQLCTypeAliases opts aliases @ writeQueryInterfaces opts queries groups
             @ (if sharded then writeShardKeyTypes opts routes @ writeShardResolverInterface opts routes else []))),
          (derivedOutputFileName out ''read'', Some (writeReadQueries opts queries)),
          (derivedOutputFileName out ''write'', Some (writeWriteQueries opts queries)),
          (out, Some (writeQueryOptions @ writeQueryStore opts @ writeNodeConstructor opts
             @ storeConfiguration tw opts queries groups))]
         @ zip (storeGroupOutputFileNames out groups) (map (writeStoreGroup tw opts) groups)
         @ [(derivedOutputFileName out ''sharded'', Some (if sharded then shardedStore tw opts groups else []))])"

definition check_sharded :: "generatedQuery list \<Rightarrow> unit result" where
  "check_sharded queries =
     (if hasShardOperations queries
      then foldM (\<lambda>_ q. check (gq_shardMode q = shardModeNone)
             (Errorf ''query %s must declare shard metadata because this store contains sharded queries; move unsharded queries to another generated store''
                [ArgStr (gq_methodName q)])) () queries
      else Inr ())"

text \<open>The checks before anything is written: the routes, the groups and the aliases.\<close>

definition wrapper_plan ::
  "type_selectors \<Rightarrow> options \<Rightarrow> generatedQuery list \<Rightarrow> catalog \<Rightarrow>
   (shardRoute list \<times> queryGroup list \<times> string list) result" where
  "wrapper_plan selectors opts queries cat =
     and_then (collectShardRoutes queries) (\<lambda>routes.
     and_then (collectStoreGroups queries opts) (\<lambda>groups.
     and_then (collectSQLCTypeAliases selectors opts queries cat) (\<lambda>aliases.
     and_then (validateSQLCTypeAliases opts queries groups aliases) (\<lambda>_.
     and_then (check_sharded queries) (\<lambda>_. Inr (routes, groups, aliases))))))"

definition generateWrapper ::
  "text_writers \<Rightarrow> (string \<Rightarrow> string result) \<Rightarrow> type_selectors \<Rightarrow> options \<Rightarrow> generatedQuery list \<Rightarrow> import_set \<Rightarrow>
   catalog \<Rightarrow> plugin_file list result option" where
  "generateWrapper tw format selectors opts queries imps cat =
     (case wrapper_plan selectors opts queries cat of
        Inl e \<Rightarrow> Some (Inl e)
      | Inr (routes, groups, aliases) \<Rightarrow>
          append_files format opts (wrapper_imports opts imps)
            (wrapper_bodies tw opts queries routes groups aliases))"

text \<open>
  What the hook takes from outside: the JSON decoder of the options, the expression parsers of
  \<^verbatim>\<open>go/parser\<close>, the inflection of table names and \<^verbatim>\<open>format.Source\<close>.
\<close>

record plugin_library =
  pl_decode :: "string \<Rightarrow> options result"
  pl_one_value :: "string \<Rightarrow> bool"
  pl_parse_expr :: "string \<Rightarrow> ast_expr option"
  pl_selectors :: type_selectors
  pl_inflect :: "string \<Rightarrow> string"
  pl_format :: "string \<Rightarrow> string result"

definition Generate ::
  "plugin_library \<Rightarrow> text_writers \<Rightarrow> go_error option \<Rightarrow> request \<Rightarrow> plugin_file list result option" where
  "Generate lib tw ctx_err req =
     (case ctx_err of
        Some e \<Rightarrow> Some (Inl (Wrap ''generate pgmesh wrappers: %w'' [] e))
      | None \<Rightarrow>
     (case parseOptions (pl_decode lib) (pl_one_value lib) (pl_parse_expr lib) req of
        Inl e \<Rightarrow> Some (Inl (Wrap ''parse options: %w'' [] e))
      | Inr opts \<Rightarrow>
     (case querySpecs (pl_inflect lib) req opts of
        Inl e \<Rightarrow> Some (Inl (Wrap ''build query specifications: %w'' [] e))
      | Inr (queries, imps) \<Rightarrow>
     (case generateWrapper tw (pl_format lib) (pl_selectors lib) opts queries imps (req_Catalog req) of
        None \<Rightarrow> None
      | Some (Inl e) \<Rightarrow> Some (Inl (Wrap ''generate wrappers: %w'' [] e))
      | Some (Inr files) \<Rightarrow> Some (Inr files)))))"

section \<open>File names differ\<close>

lemma group_file_name_fresh: "ToLower (group_file_name out used sec) \<notin> set used"
proof (induction out used sec rule: group_file_name.induct)
  case (1 out used sec)
  then show ?case by (subst group_file_name.simps) (simp add: Let_def)
qed

lemma group_file_names_fresh:
  "distinct (map ToLower (group_file_names out used gs))
    \<and> ToLower ` set (group_file_names out used gs) \<inter> set used = {}"
  by (induction out used gs rule: group_file_names.induct) (auto simp: Let_def group_file_name_fresh)

lemma length_group_file_names [simp]: "length (group_file_names out used gs) = length gs"
  by (induction out used gs rule: group_file_names.induct) (simp_all add: Let_def)

lemma derived_lower_inj:
  "ToLower (derivedOutputFileName out a) = ToLower (derivedOutputFileName out b) \<longleftrightarrow> ToLower a = ToLower b"
  by (simp add: derivedOutputFileName_def Let_def ToLower_def)

lemma length_derived_out: "length (derivedOutputFileName out sec) = Suc (length out + length sec)"
proof -
  have "length (TrimSuffix out (path_Ext out)) + length (path_Ext out) = length out"
    by (metis length_append path_stem)
  then show ?thesis by (simp add: derivedOutputFileName_def Let_def)
qed

lemma derived_not_out: "ToLower (derivedOutputFileName out sec) \<noteq> ToLower out"
proof
  assume "ToLower (derivedOutputFileName out sec) = ToLower out"
  then have "length (derivedOutputFileName out sec) = length out" by (metis length_ToLower)
  then show False by (simp add: length_derived_out)
qed

lemma fixed_file_names_distinct: "distinct (map ToLower (fixed_file_names out))"
  by (simp add: fixed_file_names_def derived_lower_inj derived_not_out derived_not_out [symmetric])
    (simp add: ToLower_def to_lower_char_def is_upper_def)

lemma wrapper_bodies_names:
  "mset (map fst (wrapper_bodies tw opts queries routes groups aliases))
    = mset (fixed_file_names (OutputFileName opts) @ storeGroupOutputFileNames (OutputFileName opts) groups)"
  by (simp add: wrapper_bodies_def Let_def fixed_file_names_def storeGroupOutputFileNames_def)

lemma wrapper_names_distinct:
  "distinct (map (ToLower \<circ> fst) (wrapper_bodies tw opts queries routes groups aliases))"
proof -
  let ?out = "OutputFileName opts"
  have "distinct (map ToLower (fixed_file_names ?out @ storeGroupOutputFileNames ?out groups))"
    using fixed_file_names_distinct [of ?out]
      group_file_names_fresh [of ?out "map ToLower (fixed_file_names ?out)" groups]
    by (auto simp: storeGroupOutputFileNames_def)
  moreover have "mset (map (ToLower \<circ> fst) (wrapper_bodies tw opts queries routes groups aliases))
      = mset (map ToLower (fixed_file_names ?out @ storeGroupOutputFileNames ?out groups))"
    by (metis wrapper_bodies_names map_map mset_map)
  ultimately show ?thesis by (metis mset_eq_imp_distinct_iff)
qed

lemma append_files_names:
  "append_files format opts imps bodies = Some (Inr files) \<Longrightarrow> map pf_Name files = map fst bodies"
  by (induction format opts imps bodies arbitrary: files rule: append_files.induct)
    (auto split: option.splits sum.splits)

lemma append_files_total:
  assumes "\<And>s. format s = Inr (f s)" and "list_all (\<lambda>(n, b). b \<noteq> None) bodies"
  shows "\<exists>files. append_files format opts imps bodies = Some (Inr files)"
  using assms(2) by (induction bodies) (auto simp: generateFile_def assms(1))

lemma check_sharded_Inr:
  "check_sharded queries = Inr () \<Longrightarrow>
    hasShardOperations queries \<longrightarrow> (\<forall>q \<in> set queries. gq_shardMode q \<noteq> shardModeNone)"
  unfolding check_sharded_def by (auto simp: foldM_check split: if_splits)

lemma validateSQLCTypeAliases_Inr:
  "validateSQLCTypeAliases opts queries groups aliases = Inr () \<longleftrightarrow>
    set aliases \<inter> dom (alias_declarations opts queries groups) = {}"
  unfolding validateSQLCTypeAliases_def
  by (induction aliases) (auto simp: result_simps split: option.splits)

lemma wrapper_plan_Inr:
  assumes "wrapper_plan selectors opts queries cat = Inr (routes, groups, aliases)"
  shows "groups = groups_by_name queries \<and> distinct (declared_names queries)
    \<and> set (declared_names queries) \<inter> dom (generatedDeclarations opts) = {}
    \<and> collectSQLCTypeAliases selectors opts queries cat = Inr aliases
    \<and> set aliases \<inter> dom (alias_declarations opts queries groups) = {}
    \<and> (hasShardOperations queries \<longrightarrow> (\<forall>q \<in> set queries. gq_shardMode q \<noteq> shardModeNone))"
proof -
  have "collectStoreGroups queries opts = Inr groups"
    "collectSQLCTypeAliases selectors opts queries cat = Inr aliases"
    "validateSQLCTypeAliases opts queries groups aliases = Inr ()" "check_sharded queries = Inr ()"
    using assms unfolding wrapper_plan_def by (auto simp: result_simps)
  then show ?thesis
    using collectStoreGroups_iff [of queries opts groups] check_sharded_Inr [of queries]
      validateSQLCTypeAliases_Inr [of opts queries groups aliases] by blast
qed

section \<open>The files of a store\<close>

text \<open>
  C40: when the generator returns files, there is one for the interfaces, the read and the write
  wrappers, the store, the sharded topology and every store group, and no two of them have the same
  name, even on a file system that ignores case. The names checked
  for the routes, groups and queries (shard key types, group interfaces and factory options, COPY
  options, parameter aliases and wrapper structs) differ from one another and from the names every
  store declares, and the re-exported sqlc types differ from all of these. A store with a sharded query has only sharded queries.
\<close>

theorem generated_files_complete:
  assumes "generateWrapper tw format selectors opts queries imps cat = Some (Inr files)"
  shows "distinct (map (ToLower \<circ> pf_Name) files)
    \<and> mset (map pf_Name files) = mset (fixed_file_names (OutputFileName opts)
         @ storeGroupOutputFileNames (OutputFileName opts) (groups_by_name queries))
    \<and> distinct (declared_names queries)
    \<and> set (declared_names queries) \<inter> dom (generatedDeclarations opts) = {}
    \<and> (\<exists>aliases. collectSQLCTypeAliases selectors opts queries cat = Inr aliases
         \<and> set aliases \<inter> dom (alias_declarations opts queries (groups_by_name queries)) = {})
    \<and> (hasShardOperations queries \<longrightarrow> (\<forall>q \<in> set queries. gq_shardMode q \<noteq> shardModeNone))"
proof -
  obtain routes groups aliases where
    plan: "wrapper_plan selectors opts queries cat = Inr (routes, groups, aliases)" and
    files: "append_files format opts (wrapper_imports opts imps)
      (wrapper_bodies tw opts queries routes groups aliases) = Some (Inr files)"
    using assms unfolding generateWrapper_def by (auto split: sum.splits)
  have names: "map pf_Name files = map fst (wrapper_bodies tw opts queries routes groups aliases)"
    using files by (rule append_files_names)
  then have "distinct (map (ToLower \<circ> pf_Name) files)"
    using wrapper_names_distinct [of tw opts queries routes groups aliases] by (metis map_map)
  with names wrapper_plan_Inr [OF plan] show ?thesis
    using wrapper_bodies_names [of tw opts queries routes groups aliases] by metis
qed

text \<open>A store with one group named \<^verbatim>\<open>Read\<close>, whose file would be that of the read wrappers.\<close>

definition emission_writers :: text_writers where
  "emission_writers = \<lparr>storeTelemetryWrapper = \<lambda>_ _. [], meshStoreQueryMethod = \<lambda>_ _. [],
     asyncCopyQueryMethods = \<lambda>_. [], storeConfiguration = \<lambda>_ _ _. [], shardedStore = \<lambda>_ _. []\<rparr>"

definition emission_queries :: "generatedQuery list" where
  "emission_queries = [sample_wrapped [(''TenantID'', ''tenant_id'')] \<lparr>gq_store := ''Read''\<rparr>]"

definition emission_options :: options where
  "emission_options = zero_options \<lparr>OutputFileName := ''store.go''\<rparr>"

lemma wrapper_bodies_written:
  "list_all (\<lambda>g. writeStoreGroup tw opts g \<noteq> None) groups \<Longrightarrow>
    list_all (\<lambda>(n, b). b \<noteq> None) (wrapper_bodies tw opts queries routes groups aliases)"
  by (auto simp: wrapper_bodies_def Let_def list_all_iff dest!: set_zip_rightD)

theorem generated_files_complete_witness:
  "\<exists>files. generateWrapper emission_writers Inr (\<lambda>_. Inr []) emission_options emission_queries []
        \<lparr>cat_DefaultSchema = ''public'', cat_Schemas = []\<rparr> = Some (Inr files)
    \<and> distinct (map (ToLower \<circ> pf_Name) files)
    \<and> mset (map pf_Name files) = mset [''store_interfaces.go'', ''store_read.go'', ''store_write.go'',
         ''store.go'', ''store_group_read.go'', ''store_sharded.go'']"
proof -
  let ?cat = "\<lparr>cat_DefaultSchema = ''public'', cat_Schemas = []\<rparr>"
  let ?w = "generateWrapper emission_writers Inr (\<lambda>_. Inr []) emission_options emission_queries [] ?cat"
  have "(case wrapper_plan (\<lambda>_. Inr []) emission_options emission_queries ?cat of Inl _ \<Rightarrow> False | Inr _ \<Rightarrow> True)"
    by code_simp
  then obtain routes groups aliases where
    plan: "wrapper_plan (\<lambda>_. Inr []) emission_options emission_queries ?cat = Inr (routes, groups, aliases)"
    by (auto split: sum.splits)
  have "list_all (\<lambda>g. writeStoreGroup emission_writers emission_options g \<noteq> None) (query_groups emission_queries)"
    by code_simp
  then have "list_all (\<lambda>g. writeStoreGroup emission_writers emission_options g \<noteq> None) groups"
    using wrapper_plan_Inr [OF plan] by (simp add: query_groups_by_name)
  then obtain files where files: "?w = Some (Inr files)"
    using append_files_total [of Inr "\<lambda>s. s", OF _ wrapper_bodies_written]
    by (fastforce simp: generateWrapper_def plan)
  have "fixed_file_names ''store.go'' @ storeGroupOutputFileNames ''store.go'' (query_groups emission_queries)
      = [''store.go'', ''store_interfaces.go'', ''store_read.go'', ''store_write.go'', ''store_sharded.go'',
         ''store_group_read.go'']"
    by code_simp
  then show ?thesis
    using generated_files_complete [OF files] files
    by (auto simp: query_groups_by_name emission_options_def)
qed

text \<open>The hook returns files only for options that are accepted, and then those of the store.\<close>

lemma Generate_files:
  assumes "Generate lib tw ctx_err req = Some (Inr files)"
  shows "\<exists>opts queries imps. ctx_err = None \<and> options_wf opts
    \<and> querySpecs (pl_inflect lib) req opts = Inr (queries, imps)
    \<and> generateWrapper tw (pl_format lib) (pl_selectors lib) opts queries imps (req_Catalog req) = Some (Inr files)"
  using assms parseOptions_wf unfolding Generate_def by (auto split: option.splits sum.splits prod.splits) blast

section \<open>An alias that validation does not reserve\<close>

text \<open>
  The generated files import \<^verbatim>\<open>sync\<close> and \<^verbatim>\<open>reflect\<close>, and the validation of the options reserves
  neither name. With the alias \<^verbatim>\<open>sync\<close> for the package of the queries, options pass validation and a
  generated file imports two packages under one name, which the Go compiler rejects.
\<close>

definition sync_options :: options where
  "sync_options = zero_options \<lparr>OutputFileName := ''store.go'', PackageName := ''db'',
     InternalImportPath := ''example.com/db'', InternalImportAlias := ''sync'',
     ConstructorName := ''NewStore'', StoreInterfaceName := ''Store'', RuntimeImportPath := ''github.com/sundayfun/pgmesh'',
     ResolverInterfaceName := ''ShardResolver'', ShardedConstructor := ''Sharded''\<rparr>"

lemma sync_alias_accepted:
  "validateOptions sync_options = Inr ()
    \<and> usedImports (imports_sorted (wrapper_imports sync_options [])) (writeReadQueries sync_options [])
        = [\<lparr>imp_name = ''sync'', imp_path = ''example.com/db''\<rparr>,
           \<lparr>imp_name = [], imp_path = ''github.com/jackc/pgx/v5''\<rparr>,
           \<lparr>imp_name = [], imp_path = ''sync''\<rparr>]
    \<and> packageNameForImport ''sync'' = ''sync''"
  by code_simp

end
