(* ===== verification/Spec2Isabelle.thy ===== *)
theory Spec2Isabelle
  imports Query_Telemetry Generated_Lookup Generated_Topology Plugin_Emission
begin

text \<open>
  \<^bold>\<open>pgmesh\<close>: routing of generated PostgreSQL queries to shards, replicas and mirrors.

  The program has three parts. The runtime library (the root directory of the sources) hashes a key to
  a virtual shard, resolves the shard to a replica set, picks a node for a read or a write, batches
  COPY rows and records telemetry. The code generator (\<^verbatim>\<open>sqlcplugin\<close>) is a sqlc plugin: from SQL queries
  with annotations it writes a store, Go code whose methods call the runtime. The generated example
  store (\<^verbatim>\<open>examples/internal/sharded\<close>) is that output: it opens a mesh and sends every query where its
  shard key belongs. Each theory models one component; names of definitions are the names of the Go
  functions and types where Isabelle allows it, and lower-case names with underscores are loops and
  branches of the function they stand before.

  \<^bold>\<open>How Go is modelled.\<close> Structs are records and enumerations datatypes; unsigned 64-bit integers are
  words, so that wrap-around is the machine's; pointers that are shared are indexes into a heap. An
  error is a \<^verbatim>\<open>go_error\<close> with the wrapped errors in it, a fallible function returns \<^verbatim>\<open>go_error + 'a\<close>, and a
  panic is \<^verbatim>\<open>None\<close> or the outcome \<^verbatim>\<open>Panicked\<close>. Strings are lists of characters; classes of characters and
  case conversion are exact for ASCII. Go maps are maps, or association lists where their contents
  are listed and the code sorts them before use. Concurrency is explicit: goroutines of a fan-out run in an
  order that is an arbitrary argument, and the COPY batcher is a transition system.

  \<^bold>\<open>Runtime.\<close>
  \<^item> \<^verbatim>\<open>Mesh_Prelude\<close>, \<^verbatim>\<open>Go_Text\<close>: errors (\<^verbatim>\<open>errors.go\<close>), results, shared lemmas, and the functions of the
    Go packages \<^verbatim>\<open>strings\<close>, \<^verbatim>\<open>strconv\<close> and \<^verbatim>\<open>unicode\<close> that the sources use.
  \<^item> \<^verbatim>\<open>Hasher\<close> (\<^verbatim>\<open>hasher.go\<close>): the modulo hasher is the Euclidean remainder at every key width.
  \<^item> \<^verbatim>\<open>Load_Balancer\<close>, \<^verbatim>\<open>Replica_Set\<close> (\<^verbatim>\<open>load_balancer.go\<close>, \<^verbatim>\<open>node.go\<close>, \<^verbatim>\<open>route.go\<close>, \<^verbatim>\<open>replica_set.go\<close>): the
    round robin is balanced, also for sets that share a selector by pointer.
  \<^item> \<^verbatim>\<open>Mesh_Builder\<close>, \<^verbatim>\<open>Topology\<close> (\<^verbatim>\<open>builder.go\<close>, \<^verbatim>\<open>mesh.go\<close>, \<^verbatim>\<open>topology.go\<close>): exactly which inputs are accepted,
    which nodes are opened in which order, what an opened mesh resolves, and that it never panics.
  \<^item> \<^verbatim>\<open>Future\<close>, \<^verbatim>\<open>Copy_Batch\<close>, \<^verbatim>\<open>Copy_Batch_System\<close> (\<^verbatim>\<open>future.go\<close>, \<^verbatim>\<open>copy_batch*.go\<close>): the operations of the
    batcher, and over all interleavings: rows are neither lost nor copied twice, results tell the
    truth about the COPYs, the limits hold, a flush is a barrier, and running batches drain.
  \<^item> \<^verbatim>\<open>Mesh_Telemetry\<close>, \<^verbatim>\<open>Query_Telemetry\<close> (\<^verbatim>\<open>telemetry.go\<close>): the in-flight counters count the open spans,
    and the attribute keys of metrics are bounded.

  \<^bold>\<open>Generated store.\<close>
  \<^item> \<^verbatim>\<open>Generated_Wrappers\<close>: read and write wrappers, transactions, mirrors. \<^verbatim>\<open>Generated_Store\<close>: the routed
    methods. \<^verbatim>\<open>Generated_Fanout\<close>: reads of all shards and the grouped COPY. \<^verbatim>\<open>Generated_Lookup\<close>: the
    grouped lookup. \<^verbatim>\<open>Generated_Async\<close>: the asynchronous COPY and its flush. \<^verbatim>\<open>Generated_Topology\<close>: the
    construction of a store. The theorems say which database receives which call, with which rows,
    and what the method returns, for every outcome of the calls.

  \<^bold>\<open>Generator.\<close>
  \<^item> \<^verbatim>\<open>Plugin_Request\<close>, \<^verbatim>\<open>Plugin_Naming\<close>, \<^verbatim>\<open>Plugin_Options\<close>: the messages and options with their validation,
    Go names of SQL names, imports. Accepted options have distinct public names.
  \<^item> \<^verbatim>\<open>Query_Annotations\<close>, \<^verbatim>\<open>Sql_Relations\<close>: printed annotations and relations are read back; the index-based
    tokenizer equals a lexer over the remaining text and stays inside the text.
  \<^item> \<^verbatim>\<open>Postgres_Types\<close>, \<^verbatim>\<open>Query_Values\<close>: Go types of columns; the struct of a row has distinct fields of
    the columns' types.
  \<^item> \<^verbatim>\<open>Query_Routes\<close>: routes and wrapper structs; every parameter is read from a member of its type.
  \<^item> \<^verbatim>\<open>Store_Groups\<close>: the pass that declares names refines the specification that they all differ. Its
    locale \<^verbatim>\<open>declaring\<close> is interpreted on the passes of the code.
  \<^item> \<^verbatim>\<open>Plugin_Emission\<close>: the files of a store, their names, imports and checks, and the hook \<^verbatim>\<open>Generate\<close>.

  \<^bold>\<open>Interfaces.\<close> The locale \<^verbatim>\<open>shard_hasher\<close> is what a mesh relies on in a hasher, \<^verbatim>\<open>mirrorable_writer\<close> what a
  replica set relies on in the writer it attaches mirrors to, and \<^verbatim>\<open>declaring\<close> what a pass over
  declarations promises; each is interpreted on the definitions of the code that provide it.

  \<^bold>\<open>Parameters.\<close> Code outside the repository is an argument: what a database answers, the OpenTelemetry
  SDK and \<^verbatim>\<open>slog\<close> (which record the calls made on them), the opener of nodes, the factories of query groups,
  \<^verbatim>\<open>encoding/json\<close>, \<^verbatim>\<open>go/parser\<close>, \<^verbatim>\<open>go/format\<close> and the inflection package.

  \<^bold>\<open>Loops.\<close> Loops are functions with a termination proof; those that search for a free name end because
  the names in use are finitely many. The loop \<^verbatim>\<open>appendRequestLocked\<close> consumes rows only as far as
  the active batch has room, so its progress depends on the state of the batcher: it is a partial
  function, and \<^verbatim>\<open>submit_returns\<close> proves that it returns in every reachable state. The drain of the COPY iterator has fuel; one step more than the number of
  rows is proved to be enough.

  \<^bold>\<open>Not modelled.\<close>
  \<^item> The text of the routed methods, the telemetry wrappers, the store configuration and the sharded
    topology that \<^verbatim>\<open>emission.go\<close> prints is a parameter of \<^verbatim>\<open>generateWrapper\<close>. Go has no semantics here that
    would connect printed text with behaviour; what is printed for the example store is modelled as
    code instead.
  \<^item> The decoding of JSON options (\<^verbatim>\<open>goType.UnmarshalJSON\<close>) belongs to the JSON parameter.
  \<^item> SQL execution (\<^verbatim>\<open>queries.sql.go\<close>, written by sqlc), the example programs, the second example store, the
    plugin's \<^verbatim>\<open>main\<close> and the tests: calls of a database or of the plugin SDK, and nothing to decide.
  \<^item> The single-row methods of the generated store take their argument by value: the nil dereference of
    a nil argument is not an outcome. Array dimensions of a column are natural numbers, as sqlc sends
    them, so the panic of \<^verbatim>\<open>strings.Repeat\<close> on a negative number is not an outcome either.
  \<^item> The goroutines of a fan-out run as whole tasks in an arbitrary order, and the runs of the telemetry
    calls are those of the generated code, where a physical span starts while its logical span is open.
  \<^item> Memory: an allocation for a huge number of virtual shards succeeds. Letters outside ASCII keep
    their bytes. Where the code sorts with an unstable sort, elements with equal keys keep their
    order; where it ranges over a map to find the first error, the order is that of the list.
\<close>

section \<open>Properties that span components\<close>

text \<open>
  C1: in a mesh opened from a valid configuration whose set names contain no NUL, with an opener that
  opens every node, providers that hand out every instrument and the modulo hasher for its number of virtual
  shards, every integer key resolves. The virtual shard is the Euclidean remainder of the key, and
  the replica set is the one of the mapping that lists this shard, with the primary that was opened
  for it and the mirrors of that mapping.
\<close>

theorem OpenMesh_resolves_keys:
  assumes "LENGTH('n::len) \<le> 64" and "NewModuloShardHasher (c_virtualShardCount c) = Some hs"
    and "apply_options options (initial_config n) = Inr c" and "valid_config c"
    and "\<forall>spec \<in> set (c_replicaSets c). CHR 0x00 \<notin> set (spec_name spec)"
    and "opens f 0 (all_dsns (c_replicaSets c)) = Some ns" and "\<And>p name. E p name = None"
  shows "\<exists>m h. snd (OpenMesh E n (Some f) (Some (modulo_Hash issigned hs)) options) = Returned (m, h)
    \<and> (\<forall>key :: 'n word. \<exists>sh mapping s. Resolve m key = Inr sh
         \<and> uint (sh_virtualShardIndex sh) = key_value issigned key mod uint (c_virtualShardCount c)
         \<and> mapping \<in> set (c_mappings c) \<and> sh_virtualShardIndex sh \<in> set (vm_virtualShardIndexes mapping)
         \<and> rs_at h (sh_replicaSet sh) = Some s \<and> rs_name s = vm_mainReplicaSet mapping
         \<and> rs_primary s = primary_of (c_replicaSets c) ns (vm_mainReplicaSet mapping)
         \<and> rs_writeMirrors s =
             map (\<lambda>y. writer (primary_of (c_replicaSets c) ns y)) (vm_mirrorReplicaSets mapping))"
proof -
  let ?c = "c_virtualShardCount c" and ?hash = "modulo_Hash issigned hs :: 'n word \<Rightarrow> uint64"
  have hs: "virtualShardCount hs = ?c" "?c \<noteq> 0"
    using assms(2) by (auto simp: NewModuloShardHasher_def split: if_splits)
  from OpenMesh_shards [where E = E and hasher = ?hash, OF assms(3-7)] obtain m h where
    r: "snd (OpenMesh E n (Some f) (Some ?hash) options) = Returned (m, h)" "m_hasher m = ?hash"
      "length (m_virtualShards m) = unat ?c"
      "\<forall>mapping \<in> set (c_mappings c). \<forall>i \<in> set (vm_virtualShardIndexes mapping).
         \<exists>s. rs_at h (m_virtualShards m ! unat i) = Some s \<and> rs_name s = vm_mainReplicaSet mapping
           \<and> rs_primary s = primary_of (c_replicaSets c) ns (vm_mainReplicaSet mapping)
           \<and> rs_writeMirrors s =
               map (\<lambda>y. writer (primary_of (c_replicaSets c) ns y)) (vm_mirrorReplicaSets mapping)"
    by (metis snd_conv)
  have "unat ?c < 2 ^ LENGTH(64)" by (rule unsigned_less)
  then have len: "length (m_virtualShards m) < 2 ^ 64" using r(3) by simp
  have idx: "set (all_indexes (c_mappings c)) = {i. i < ?c}" using assms(4) unfolding valid_config_def by blast
  have "\<exists>sh mapping. Resolve m key = Inr sh \<and> sh_replicaSet sh = m_virtualShards m ! unat (sh_virtualShardIndex sh)
      \<and> uint (sh_virtualShardIndex sh) = key_value issigned key mod uint ?c
      \<and> mapping \<in> set (c_mappings c) \<and> sh_virtualShardIndex sh \<in> set (vm_virtualShardIndexes mapping)" for key :: "'n word"
  proof -
    have lt: "?hash key < ?c" using modulo_Hash_less [of hs issigned key] hs by simp
    then have "?hash key \<in> set (all_indexes (c_mappings c))" unfolding idx by simp
    then obtain mapping where "mapping \<in> set (c_mappings c)" "?hash key \<in> set (vm_virtualShardIndexes mapping)"
      by (auto simp: all_indexes_def)
    moreover have "uint (?hash key) = key_value issigned key mod uint ?c"
      using modulo_Hash_euclidean [OF assms(1), of hs issigned key] hs by simp
    moreover have "Resolve m key = Inr \<lparr>sh_virtualShardIndex = ?hash key,
        sh_replicaSet = m_virtualShards m ! unat (?hash key)\<rparr>"
      using Resolve_Inr [OF len] r(2,3) lt by (simp add: word_less_nat_alt)
    ultimately show ?thesis by fastforce
  qed
  with r(1,4) show ?thesis by metis
qed

theorem OpenMesh_resolves_keys_witness:
  "\<exists>m h. snd (OpenMesh (\<lambda>_ _. None) 3 (Some open_echo)
        (Some (modulo_Hash True \<lparr>virtualShardCount = 3\<rparr> :: 8 word \<Rightarrow> uint64)) sample_options) = Returned (m, h)
    \<and> (\<exists>sh. Resolve m (- 1) = Inr sh \<and> uint (sh_virtualShardIndex sh) = 2)"
proof -
  have nul: "\<forall>spec \<in> set (c_replicaSets sample_config). CHR 0x00 \<notin> set (spec_name spec)"
    by (simp add: sample_config_def)
  have n: "NewModuloShardHasher (c_virtualShardCount sample_config) = Some \<lparr>virtualShardCount = 3\<rparr>"
    by (simp add: NewModuloShardHasher_def sample_config_def)
  have k: "key_value True (- 1 :: 8 word) mod uint (c_virtualShardCount sample_config) = 2"
    by (simp add: key_value_def sample_config_def)
  from OpenMesh_resolves_keys [where E = "\<lambda>_ _. None" and issigned = True and 'n = 8,
      OF _ n sample_options_config sample_config_valid nul sample_opens refl]
  show ?thesis using k by fastforce
qed

end
